(* ===== verification/Mmo_Prelude.thy ===== *)
theory Mmo_Prelude
  imports
    "HOL-Library.Word"
    "HOL-Library.Multiset"
    "HOL-Library.Product_Lexorder"
begin

text \<open>
  Shared vocabulary of the development.  It fixes the machine integers of the Go sources, the
  generic list operations the components use (first match, replace the first match, remove by
  key), the stable sort, and two interfaces that several components implement:
  \<^item> \<open>invariant_system\<close>: a start predicate, a step relation and an invariant that the start
    states have and every step keeps;
  \<^item> \<open>monotone_minter\<close>: an operation that hands out identifiers above a high-water mark which
    it never lowers.
\<close>

unbundle bit_operations_syntax

section \<open>Machine integers\<close>

type_synonym u64 = "64 word"
type_synonym u32 = "32 word"

text \<open>Two's complement 64-bit wrap-around of an integer, for Go's \<open>int64\<close> arithmetic.\<close>

definition int64 :: "int \<Rightarrow> int" where
  "int64 x = signed_take_bit 63 x"

lemma int64_id: "- (2 ^ 63) \<le> x \<Longrightarrow> x < 2 ^ 63 \<Longrightarrow> int64 x = x"
  by (simp add: int64_def signed_take_bit_int_eq_self_iff)

lemma word_less_inc:
  fixes x :: "'a::len word"
  assumes "x \<noteq> - 1"
  shows "x < x + 1"
proof -
  have "1 + x \<noteq> 0" using assms by (metis add.commute max_word_wrap)
  then have "unat (1 + x) = Suc (unat x)" by (rule unatSuc)
  then show ?thesis by (simp add: word_less_nat_alt add.commute)
qed

text \<open>Assembling a word from disjoint fields.\<close>

lemma bit_small: "unat (w :: u64) < 2 ^ k \<Longrightarrow> bit w i \<Longrightarrow> i < k"
proof (rule ccontr)
  assume w: "unat w < 2 ^ k" and b: "bit w i" and "\<not> i < k"
  then have "(2::nat) ^ k \<le> 2 ^ i" by (simp add: power_increasing)
  then have "unat w < 2 ^ i" using w by linarith
  then have "unat w div 2 ^ i = 0" by simp
  moreover have "odd (unat w div 2 ^ i)"
    using b by (metis bit_iff_odd bit_unsigned_iff possible_bit_nat)
  ultimately show False by simp
qed

lemma unat_push_bit_small:
  assumes "unat (w :: u64) < 2 ^ m" and "m + k \<le> 64"
  shows "unat (push_bit k w) = unat w * 2 ^ k"
proof -
  have "unat w * 2 ^ k < 2 ^ m * 2 ^ k" using assms(1) by simp
  also have "\<dots> \<le> (2::nat) ^ 64"
    using power_increasing [OF assms(2), of "2::nat"] by (simp add: power_add)
  finally have "unat w * 2 ^ k < 2 ^ 64" .
  then have "take_bit 64 (push_bit k (unat w)) = unat w * 2 ^ k"
    by (simp add: push_bit_eq_mult take_bit_nat_eq_self)
  then show ?thesis by (simp add: unsigned_push_bit_eq)
qed

lemma push_bit_and_small:
  assumes "unat (b :: u64) < 2 ^ k"
  shows "push_bit k a AND b = 0"
proof (rule bit_eqI)
  fix i
  show "bit (push_bit k a AND b) i = bit 0 i"
    using bit_small [OF assms, of i] by (auto simp: bit_and_iff bit_push_bit_iff)
qed

lemma unat_or_disjoint:
  assumes "(a :: u64) AND b = 0" and "unat a + unat b < 2 ^ 64"
  shows "unat (a OR b) = unat a + unat b"
proof -
  have "a OR b = a + b"
    by (rule disjunctive_add_eq_or [symmetric]) (use assms(1) in \<open>auto simp: bit_eq_iff bit_simps\<close>)
  then show ?thesis using assms(2) by (simp add: unat_word_ariths)
qed

section \<open>Lists searched and updated by key\<close>

text \<open>\<open>upd_first P f xs\<close> applies \<open>f\<close> to the first element that satisfies \<open>P\<close>: what a Go loop
  that finds a pointer and writes through it does to the slice.\<close>

fun upd_first :: "('a \<Rightarrow> bool) \<Rightarrow> ('a \<Rightarrow> 'a) \<Rightarrow> 'a list \<Rightarrow> 'a list" where
  "upd_first P f [] = []"
| "upd_first P f (x # xs) = (if P x then f x # xs else x # upd_first P f xs)"

lemma length_upd_first [simp]: "length (upd_first P f xs) = length xs"
  by (induction xs) auto

lemma map_upd_first [simp]:
  "(\<And>x. g (f x) = g x) \<Longrightarrow> map g (upd_first P f xs) = map g xs"
  by (induction xs) auto

lemma set_upd_first: "set (upd_first P f xs) \<subseteq> set xs \<union> f ` {x \<in> set xs. P x}"
  by (induction xs) auto

lemma find_key_None: "List.find (\<lambda>x. k x = v) xs = None \<longleftrightarrow> v \<notin> k ` set xs"
  by (auto simp: find_None_iff)

lemma find_mem: "List.find P xs = Some y \<Longrightarrow> y \<in> set xs \<and> P y"
  by (induction xs) (auto split: if_splits)

lemma length_filter_le_trans: "length xs \<le> n \<Longrightarrow> length (filter P xs) \<le> n"
  using length_filter_le [of P xs] by linarith

lemma find_key_Some: "List.find (\<lambda>x. k x = v) xs = Some y \<Longrightarrow> y \<in> set xs \<and> k y = v"
  by (induction xs) (auto split: if_splits)

lemma distinct_map_filter_key [simp]: "distinct (map k xs) \<Longrightarrow> distinct (map k (filter P xs))"
  by (induction xs) auto

section \<open>Invariants of transition systems\<close>

locale invariant_system =
  fixes start :: "'s \<Rightarrow> bool"
    and step :: "'s \<Rightarrow> 's \<Rightarrow> bool"
    and inv :: "'s \<Rightarrow> bool"
  assumes inv_start: "start s \<Longrightarrow> inv s"
    and inv_step: "inv s \<Longrightarrow> step s t \<Longrightarrow> inv t"
begin

lemma inv_steps: "step\<^sup>*\<^sup>* s t \<Longrightarrow> inv s \<Longrightarrow> inv t"
  by (induction rule: rtranclp_induct) (auto intro: inv_step)

lemma inv_reachable: "start s \<Longrightarrow> step\<^sup>*\<^sup>* s t \<Longrightarrow> inv t"
  by (blast intro: inv_steps inv_start)

end

section \<open>Minting identifiers above a high-water mark\<close>

text \<open>
  One call of a minter takes the state and the observations of that call (clock readings, stored
  rows, interference) and may or may not issue an identifier.  \<open>mint_run\<close> is a whole
  sequence of calls and collects what was issued.
\<close>

fun mint_run :: "('s \<Rightarrow> 'e \<Rightarrow> 'i option \<times> 's) \<Rightarrow> 's \<Rightarrow> 'e list \<Rightarrow> 'i list \<times> 's" where
  "mint_run mint s [] = ([], s)"
| "mint_run mint s (e # es) =
     (case mint s e of (r, s') \<Rightarrow>
       (case mint_run mint s' es of (is, t) \<Rightarrow>
         ((case r of None \<Rightarrow> is | Some i \<Rightarrow> i # is), t)))"

locale monotone_minter =
  fixes mint :: "'s \<Rightarrow> 'e \<Rightarrow> 'i option \<times> 's"
    and ok :: "'e \<Rightarrow> bool"
    and inv :: "'s \<Rightarrow> bool"
    and mark :: "'s \<Rightarrow> nat"
    and code :: "'i \<Rightarrow> nat"
  assumes mint_inv: "inv s \<Longrightarrow> ok e \<Longrightarrow> mint s e = (r, t) \<Longrightarrow> inv t"
    and mint_mark: "inv s \<Longrightarrow> ok e \<Longrightarrow> mint s e = (r, t) \<Longrightarrow> mark s \<le> mark t"
    and mint_above: "inv s \<Longrightarrow> ok e \<Longrightarrow> mint s e = (Some i, t) \<Longrightarrow> mark s < code i"
    and mint_below: "inv s \<Longrightarrow> ok e \<Longrightarrow> mint s e = (Some i, t) \<Longrightarrow> code i \<le> mark t"
begin

lemma run_inv: "inv s \<Longrightarrow> list_all ok es \<Longrightarrow> mint_run mint s es = (is, t) \<Longrightarrow> inv t"
  by (induction es arbitrary: s "is") (auto split: prod.splits intro: mint_inv)

lemma run_mark: "inv s \<Longrightarrow> list_all ok es \<Longrightarrow> mint_run mint s es = (is, t) \<Longrightarrow> mark s \<le> mark t"
proof (induction es arbitrary: s "is")
  case (Cons e es)
  obtain r s' where m: "mint s e = (r, s')" by fastforce
  obtain js where run: "mint_run mint s' es = (js, t)"
    using Cons.prems m by (auto split: prod.splits)
  have ok: "ok e" "list_all ok es" using Cons.prems by auto
  have "mark s \<le> mark s'" by (rule mint_mark [OF Cons.prems(1) ok(1) m])
  also have "mark s' \<le> mark t"
    by (rule Cons.IH [OF mint_inv [OF Cons.prems(1) ok(1) m] ok(2) run])
  finally show ?case .
qed simp

lemma run_bounds:
  assumes "inv s" and "list_all ok es" and "mint_run mint s es = (is, t)" and "i \<in> set is"
  shows "mark s < code i \<and> code i \<le> mark t"
  using assms
proof (induction es arbitrary: s "is")
  case (Cons e es)
  obtain r s' where m: "mint s e = (r, s')" by fastforce
  obtain js where run: "mint_run mint s' es = (js, t)"
    and is_eq: "is = (case r of None \<Rightarrow> js | Some j \<Rightarrow> j # js)"
    using Cons.prems m by (auto split: prod.splits)
  have ok: "ok e" "list_all ok es" using Cons.prems by auto
  have s': "inv s'" by (rule mint_inv [OF Cons.prems(1) ok(1) m])
  have le: "mark s \<le> mark s'" by (rule mint_mark [OF Cons.prems(1) ok(1) m])
  have le': "mark s' \<le> mark t" by (rule run_mark [OF s' ok(2) run])
  show ?case
  proof (cases "i \<in> set js")
    case True
    then show ?thesis using Cons.IH [OF s' ok(2) run] le by fastforce
  next
    case False
    then have "r = Some i" using is_eq Cons.prems(4) by (auto split: option.splits)
    then show ?thesis
      using mint_above [OF Cons.prems(1) ok(1)] mint_below [OF Cons.prems(1) ok(1)] m le'
      by fastforce
  qed
qed simp

theorem run_strictly_increasing:
  assumes "inv s" and "list_all ok es" and "mint_run mint s es = (is, t)"
  shows "sorted_wrt (<) (map code is)"
  using assms
proof (induction es arbitrary: s "is")
  case (Cons e es)
  obtain r s' where m: "mint s e = (r, s')" by fastforce
  obtain js where run: "mint_run mint s' es = (js, t)"
    and is_eq: "is = (case r of None \<Rightarrow> js | Some j \<Rightarrow> j # js)"
    using Cons.prems m by (auto split: prod.splits)
  have ok: "ok e" "list_all ok es" using Cons.prems by auto
  have s': "inv s'" by (rule mint_inv [OF Cons.prems(1) ok(1) m])
  have sorted: "sorted_wrt (<) (map code js)" by (rule Cons.IH [OF s' ok(2) run])
  show ?case
  proof (cases r)
    case None
    then show ?thesis using sorted is_eq by simp
  next
    case (Some j)
    have "code j \<le> mark s'" using mint_below [OF Cons.prems(1) ok(1)] m Some by blast
    then have "\<forall>i \<in> set js. code j < code i"
      using run_bounds [OF s' ok(2) run] by fastforce
    then show ?thesis using sorted is_eq Some by simp
  qed
qed simp

corollary run_distinct:
  assumes "inv s" and "list_all ok es" and "mint_run mint s es = (is, t)"
  shows "distinct is"
  using run_strictly_increasing [OF assms]
  by (metis distinct_map strict_sorted_iff)

end

end
