(* ===== verification/FenceClock.thy ===== *)
theory FenceClock
  imports Mmo_Prelude
begin

text \<open>
  The self-fencing clock of \<open>go/shared/snowflake/fenceclock.go\<close>.

  A \<open>reading\<close> is what the machine's two clocks show at one instant (nanoseconds).  A Go
  \<open>time.Time\<close> is \<open>gotime\<close>: a wall-clock instant with an optional monotonic reading.
  \<open>time.Now\<close> attaches a monotonic reading, \<open>time.UnixMilli\<close> does not.  Go's \<open>Sub\<close>
  uses the monotonic readings alone when both operands carry one, and saturates.  The two clock
  functions of a \<open>FenceClock\<close> are fields, as in the source.
\<close>

section \<open>Go time values\<close>

record reading =
  rd_wall :: int
  rd_mono :: int

record gotime =
  gt_wall :: int
  gt_mono :: "int option"

definition time_Now :: "reading \<Rightarrow> gotime" where
  "time_Now r = \<lparr>gt_wall = rd_wall r, gt_mono = Some (rd_mono r)\<rparr>"

text \<open>The zero \<open>time.Time{}\<close>: January 1 of year 1, without a monotonic reading.\<close>

definition time_Zero :: gotime where
  "time_Zero = \<lparr>gt_wall = - 62135596800000000000, gt_mono = None\<rparr>"

definition time_UnixNano :: "int \<Rightarrow> gotime" where
  "time_UnixNano ns = \<lparr>gt_wall = ns, gt_mono = None\<rparr>"

definition sat_dur :: "int \<Rightarrow> int" where
  "sat_dur x = max (- (2 ^ 63)) (min (2 ^ 63 - 1) x)"

definition time_Sub :: "gotime \<Rightarrow> gotime \<Rightarrow> int" where
  "time_Sub t u =
     (case (gt_mono t, gt_mono u) of
        (Some a, Some b) \<Rightarrow> sat_dur (a - b)
      | _ \<Rightarrow> sat_dur (gt_wall t - gt_wall u))"

definition time_Unix :: "gotime \<Rightarrow> int" where
  "time_Unix t = gt_wall t div 1000000000"

section \<open>The clock\<close>

record FenceClock =
  fc_budget :: int
  fc_monoNow :: "reading \<Rightarrow> int"
  fc_wallNow :: "reading \<Rightarrow> gotime"
  fc_acked :: bool
  fc_ackMono :: int
  fc_ackWall :: gotime

text \<open>
  \<open>NewFenceClockWithClocks\<close> panics on a budget that is not positive (\<open>None\<close>).
  \<open>NewFenceClock\<close> measures the monotonic flow since the construction (\<open>origin\<close>) and
  uses \<open>time.Now\<close> as its wall clock.
\<close>

definition NewFenceClockWithClocks ::
    "int \<Rightarrow> (reading \<Rightarrow> int) \<Rightarrow> (reading \<Rightarrow> gotime) \<Rightarrow> FenceClock option" where
  "NewFenceClockWithClocks budget monoNow wallNow =
     (if budget \<le> 0 then None
      else Some \<lparr>fc_budget = budget, fc_monoNow = monoNow, fc_wallNow = wallNow,
                 fc_acked = False, fc_ackMono = 0, fc_ackWall = time_Zero\<rparr>)"

definition NewFenceClock :: "int \<Rightarrow> reading \<Rightarrow> FenceClock option" where
  "NewFenceClock budget origin =
     NewFenceClockWithClocks budget (\<lambda>r. time_Sub (time_Now r) (time_Now origin)) time_Now"

definition Budget :: "FenceClock \<Rightarrow> int" where
  "Budget c = fc_budget c"

text \<open>The two clock calls of one operation may happen at two instants: one reading each.\<close>

definition Ack :: "FenceClock \<Rightarrow> reading \<Rightarrow> reading \<Rightarrow> FenceClock" where
  "Ack c r1 r2 = c\<lparr>fc_acked := True, fc_ackMono := fc_monoNow c r1, fc_ackWall := fc_wallNow c r2\<rparr>"

definition SeedAck :: "FenceClock \<Rightarrow> gotime \<Rightarrow> reading \<Rightarrow> reading \<Rightarrow> FenceClock" where
  "SeedAck c wall r1 r2 =
     (let elapsed = time_Sub (fc_wallNow c r1) wall;
          elapsed' = (if elapsed < 0 then 0 else elapsed)
      in c\<lparr>fc_acked := True, fc_ackWall := wall, fc_ackMono := int64 (fc_monoNow c r2 - elapsed')\<rparr>)"

definition Stale :: "FenceClock \<Rightarrow> reading \<Rightarrow> reading \<Rightarrow> bool \<times> int" where
  "Stale c r1 r2 =
     (if \<not> fc_acked c then (True, 0)
      else
        let monoAge = int64 (fc_monoNow c r1 - fc_ackMono c);
            wallAge = time_Sub (fc_wallNow c r2) (fc_ackWall c);
            age = (if wallAge > monoAge then wallAge else monoAge)
        in (monoAge > fc_budget c \<or> wallAge > fc_budget c, age))"

definition LastAckWall :: "FenceClock \<Rightarrow> gotime" where
  "LastAckWall c = (if \<not> fc_acked c then time_Zero else fc_ackWall c)"

lemmas fence_clock_defs =
  NewFenceClock_def NewFenceClockWithClocks_def Ack_def SeedAck_def Stale_def LastAckWall_def
  Budget_def

section \<open>Basic facts\<close>

lemma sat_dur_id [simp]: "- (2 ^ 63) \<le> x \<Longrightarrow> x < 2 ^ 63 \<Longrightarrow> sat_dur x = x"
  by (auto simp: sat_dur_def)

lemma sat_dur_greater: "b < 2 ^ 63 - 1 \<Longrightarrow> - (2 ^ 63) \<le> b \<Longrightarrow> (sat_dur x > b) = (x > b)"
  by (auto simp: sat_dur_def)

lemma time_Sub_now_now [simp]:
  "time_Sub (time_Now r) (time_Now s) = sat_dur (rd_mono r - rd_mono s)"
  by (simp add: time_Sub_def time_Now_def)

lemma time_Sub_now_unix [simp]:
  "time_Sub (time_Now r) (time_UnixNano w) = sat_dur (rd_wall r - w)"
  by (simp add: time_Sub_def time_Now_def time_UnixNano_def)

lemma time_Sub_unix_unix [simp]:
  "time_Sub (time_UnixNano v) (time_UnixNano w) = sat_dur (v - w)"
  by (simp add: time_Sub_def time_UnixNano_def)

lemma NewFenceClock_Some:
  "NewFenceClock b orig = Some c \<Longrightarrow>
     0 < b \<and> fc_budget c = b \<and> fc_wallNow c = time_Now \<and>
     fc_monoNow c = (\<lambda>r. time_Sub (time_Now r) (time_Now orig))"
  by (auto simp: NewFenceClock_def NewFenceClockWithClocks_def split: if_splits)

text \<open>Monotonic readings of one process: nanoseconds since its start, below 146 years.\<close>

definition mono_range :: "reading \<Rightarrow> bool" where
  "mono_range r \<longleftrightarrow> 0 \<le> rd_mono r \<and> rd_mono r < 2 ^ 62"

lemma mono_elapsed [simp]:
  "mono_range r \<Longrightarrow> mono_range s \<Longrightarrow>
     sat_dur (rd_mono r - rd_mono s) = rd_mono r - rd_mono s"
  by (auto simp: mono_range_def intro!: sat_dur_id)

section \<open>Properties\<close>

text \<open>
  The contract the clock is written for, with the two clocks it is given being
  independent: before the first acknowledgement every check refuses, and after an acknowledgement a
  check refuses exactly when either clock shows more than the budget since then.  A suspended
  machine, whose monotonic clock stands still, is caught by the wall clock.
\<close>

lemma stale_two_clocks:
  assumes new: "NewFenceClockWithClocks b (\<lambda>r. rd_mono r) (\<lambda>r. time_UnixNano (rd_wall r)) = Some c"
    and b: "b < 2 ^ 63 - 1"
    and mono: "mono_range a" "mono_range r"
  shows "Stale c r r = (True, 0) \<and>
    (fst (Stale (Ack c a a) r r) \<longleftrightarrow> rd_mono r - rd_mono a > b \<or> rd_wall r - rd_wall a > b)"
proof -
  have c: "0 < b" "fc_budget c = b" "fc_monoNow c = (\<lambda>r. rd_mono r)" "\<not> fc_acked c"
    "fc_wallNow c = (\<lambda>r. time_UnixNano (rd_wall r))"
    using new by (auto simp: NewFenceClockWithClocks_def split: if_splits)
  have i: "int64 (rd_mono r - rd_mono a) = rd_mono r - rd_mono a"
    using mono by (intro int64_id) (auto simp: mono_range_def)
  have w: "(sat_dur (rd_wall r - rd_wall a) > b) = (rd_wall r - rd_wall a > b)"
    using b c(1) by (intro sat_dur_greater) auto
  show ?thesis
    by (simp add: Stale_def Ack_def c i w Let_def)
qed

text \<open>
  Property C23.  The clock production code builds does not meet that contract.  \<open>NewFenceClock\<close>
  passes \<open>time.Now\<close>, \<open>Ack\<close> stores the value with its monotonic reading, and \<open>Sub\<close>
  of two such values compares the monotonic readings only: after an acknowledgement no wall-clock
  reading has any influence, so a suspension that stops the monotonic clock goes unnoticed.
\<close>

theorem production_clock_ignores_wall:
  assumes new: "NewFenceClock b orig = Some c"
    and b: "b < 2 ^ 63 - 1"
    and mono: "mono_range orig" "mono_range a1" "mono_range a2" "mono_range r1" "mono_range r2"
  shows "fst (Stale (Ack c a1 a2) r1 r2) \<longleftrightarrow>
    rd_mono r1 - rd_mono a1 > b \<or> rd_mono r2 - rd_mono a2 > b"
proof -
  note c = NewFenceClock_Some [OF new]
  have "int64 (rd_mono r1 - rd_mono orig - (rd_mono a1 - rd_mono orig)) = rd_mono r1 - rd_mono a1"
    using mono by (auto simp: mono_range_def intro!: int64_id)
  then show ?thesis
    using c mono by (simp add: Stale_def Ack_def Let_def)
qed

theorem production_clock_ignores_wall_witness:
  "\<not> fst (Stale (Ack (the (NewFenceClock 60 \<lparr>rd_wall = 900, rd_mono = 1\<rparr>))
     \<lparr>rd_wall = 1000, rd_mono = 7\<rparr> \<lparr>rd_wall = 1000, rd_mono = 7\<rparr>)
     \<lparr>rd_wall = 2000, rd_mono = 8\<rparr> \<lparr>rd_wall = 2000, rd_mono = 8\<rparr>)"
  using production_clock_ignores_wall [of 60 "\<lparr>rd_wall = 900, rd_mono = 1\<rparr>" _
      "\<lparr>rd_wall = 1000, rd_mono = 7\<rparr>" "\<lparr>rd_wall = 1000, rd_mono = 7\<rparr>"
      "\<lparr>rd_wall = 2000, rd_mono = 8\<rparr>" "\<lparr>rd_wall = 2000, rd_mono = 8\<rparr>"]
  by (simp add: NewFenceClock_def NewFenceClockWithClocks_def mono_range_def)

text \<open>
  Booting from the local cache: a clock seeded with the cached wall-clock time of the
  last acknowledgement counts its budget from that time on both clocks.  The time that passed before
  the process started is charged to the monotonic age as well, so a fresh process gains no extra
  budget.
\<close>

lemma seeded_clock_counts_from_ack:
  assumes new: "NewFenceClock b orig = Some c"
    and b: "b < 2 ^ 63 - 1"
    and mono: "mono_range orig" "mono_range r" "mono_range s"
    and wall: "0 \<le> w" "w \<le> rd_wall r" "rd_wall r < 2 ^ 62"
  shows "fst (Stale (SeedAck c (time_UnixNano w) r r) s s) \<longleftrightarrow>
    (rd_mono s - rd_mono r) + (rd_wall r - w) > b \<or> rd_wall s - w > b"
proof -
  note c = NewFenceClock_Some [OF new]
  have e: "sat_dur (rd_wall r - w) = rd_wall r - w"
    using wall by (intro sat_dur_id) auto
  have m: "int64 (rd_mono r - rd_mono orig - (rd_wall r - w)) = rd_mono r - rd_mono orig - (rd_wall r - w)"
    using wall mono by (intro int64_id) (auto simp: mono_range_def)
  have a: "int64 (rd_mono s - rd_mono r + (rd_wall r - w)) = rd_mono s - rd_mono r + (rd_wall r - w)"
    using wall mono by (intro int64_id) (auto simp: mono_range_def)
  have d: "rd_mono s - rd_mono orig - (rd_mono r - rd_mono orig - (rd_wall r - w))
      = rd_mono s - rd_mono r + (rd_wall r - w)"
    by simp
  have g: "(sat_dur (rd_wall s - w) > b) = (rd_wall s - w > b)"
    using b c by (intro sat_dur_greater) auto
  show ?thesis
    using c mono wall by (simp add: Stale_def SeedAck_def Let_def e m a d g)
qed

end
