(* ===== verification/Snowflake.thy ===== *)
theory Snowflake
  imports FenceClock
begin

text \<open>
  The identifier generator of \<open>go/shared/snowflake/snowflake.go\<close>.

  \<open>Node\<close> keeps every field of the Go struct.  The mutex serialises \<open>Generate\<close>,
  \<open>SetGuardTime\<close> and \<open>HighWaterEpochSec\<close>; the atomic fields can change at any moment.
  A call of \<open>Generate\<close> therefore takes a \<open>gen_env\<close>: the clock readings it makes and the
  atomic operations of other goroutines that take effect before each of its atomic loads.  A call
  that is still waiting for the clock is \<open>None\<close>.
\<close>

section \<open>Layout constants\<close>

definition Epoch :: u64 where "Epoch = 1773446400"
definition NodeBits :: nat where "NodeBits = 17"
definition StepBits :: nat where "StepBits = 15"
definition timeShift :: nat where "timeShift = NodeBits + StepBits"
definition nodeShift :: nat where "nodeShift = StepBits"
definition stepMask :: u64 where "stepMask = push_bit StepBits 1 - 1"
definition NodeMask :: u64 where "NodeMask = push_bit NodeBits 1 - 1"

text \<open>\<open>waitBudget = 3 * time.Second\<close> in nanoseconds.\<close>

definition waitBudget :: int where "waitBudget = 3000000000"
definition maxBorrowAheadSec :: u64 where "maxBorrowAheadSec = 10"

datatype gen_error = ErrBorrowLimitExceeded | ErrFenced | ErrWatermarkStale

section \<open>State\<close>

record Node =
  nodeID :: u64
  lastTime :: u64
  nstep :: u64
  lastBorrowRejectLogSec :: u64
  nfenced :: bool
  nfenceClock :: "FenceClock option"
  lastStaleLogSec :: int
  bootGuardPending :: bool

section \<open>Operations\<close>

text \<open>The wall clock in seconds since \<open>Epoch\<close>, clamped to 0 before it.\<close>

definition nowEpoch :: "reading \<Rightarrow> u64" where
  "nowEpoch r =
     (let sec = time_Unix (time_Now r)
      in if sec < uint Epoch then 0 else word_of_int sec - Epoch)"

definition NowEpochSec :: "reading \<Rightarrow> u64" where
  "NowEpochSec r = nowEpoch r"

text \<open>\<open>NewNode\<close> panics (\<open>None\<close>) on a worker id of more than 17 bits and on a clock before
  \<open>Epoch\<close>; \<open>r1\<close> is the reading of that check, \<open>r2\<close> the one that seeds \<open>lastTime\<close>.\<close>

definition NewNode :: "u64 \<Rightarrow> reading \<Rightarrow> reading \<Rightarrow> Node option" where
  "NewNode nid r1 r2 =
     (if nid > NodeMask then None
      else if time_Unix (time_Now r1) < uint Epoch then None
      else Some \<lparr>nodeID = nid, lastTime = nowEpoch r2, nstep = stepMask,
                 lastBorrowRejectLogSec = 0, nfenced = False, nfenceClock = None,
                 lastStaleLogSec = 0, bootGuardPending = True\<rparr>)"

definition SetGuardTime :: "Node \<Rightarrow> u64 \<Rightarrow> Node" where
  "SetGuardTime n guardEpochSec =
     (if guardEpochSec \<le> lastTime n then n
      else n\<lparr>lastTime := guardEpochSec, nstep := stepMask, bootGuardPending := True\<rparr>)"

definition HighWaterEpochSec :: "Node \<Rightarrow> u64" where
  "HighWaterEpochSec n = lastTime n"

definition Fence :: "Node \<Rightarrow> Node" where
  "Fence n = n\<lparr>nfenced := True\<rparr>"

definition IsFenced :: "Node \<Rightarrow> bool" where
  "IsFenced n = nfenced n"

definition SetFenceClock :: "Node \<Rightarrow> FenceClock option \<Rightarrow> Node" where
  "SetFenceClock n fc = n\<lparr>nfenceClock := fc\<rparr>"

text \<open>What other goroutines may do to the atomic fields while a \<open>Generate\<close> runs: fence the
  node, exchange its fence clock, acknowledge or seed the shared clock.\<close>

datatype atomic_op =
    AFence
  | ASetFenceClock "FenceClock option"
  | AAck reading reading
  | ASeedAck gotime reading reading

fun atomic_step :: "atomic_op \<Rightarrow> Node \<Rightarrow> Node" where
  "atomic_step AFence n = Fence n"
| "atomic_step (ASetFenceClock fc) n = SetFenceClock n fc"
| "atomic_step (AAck r1 r2) n =
     n\<lparr>nfenceClock := map_option (\<lambda>c. Ack c r1 r2) (nfenceClock n)\<rparr>"
| "atomic_step (ASeedAck w r1 r2) n =
     n\<lparr>nfenceClock := map_option (\<lambda>c. SeedAck c w r1 r2) (nfenceClock n)\<rparr>"

definition interfere :: "atomic_op list \<Rightarrow> Node \<Rightarrow> Node" where
  "interfere ops n = fold atomic_step ops n"

text \<open>\<open>checkWatermarkAge\<close>: \<open>r1\<close>, \<open>r2\<close> are the readings of \<open>Stale\<close>, \<open>r3\<close> the one
  that limits the log to one line a second.\<close>

definition checkWatermarkAge ::
    "Node \<Rightarrow> reading \<times> reading \<times> reading \<Rightarrow> gen_error option \<times> Node" where
  "checkWatermarkAge n rs =
     (case rs of (r1, r2, r3) \<Rightarrow>
       (case nfenceClock n of
          None \<Rightarrow> (None, n)
        | Some fc \<Rightarrow>
            if \<not> fst (Stale fc r1 r2) then (None, n)
            else (Some ErrWatermarkStale, n\<lparr>lastStaleLogSec := time_Unix (time_Now r3)\<rparr>)))"

text \<open>The bounded wait: each iteration reads the clock twice, once for \<open>nowEpoch\<close> and once for
  the deadline, which \<open>After\<close> compares on the monotonic readings.\<close>

fun waitNextTime :: "int \<Rightarrow> (reading \<times> reading) list \<Rightarrow> u64 \<Rightarrow> u64 option" where
  "waitNextTime deadline [] lastT = None"
| "waitNextTime deadline ((r1, r2) # rs) lastT =
     (let now = nowEpoch r1
      in if now > lastT then Some now
         else if rd_mono r2 > deadline then Some now
         else waitNextTime deadline rs lastT)"

record gen_env =
  ge_ops1 :: "atomic_op list"
  ge_ops2 :: "atomic_op list"
  ge_stale1 :: "reading \<times> reading \<times> reading"
  ge_ops3 :: "atomic_op list"
  ge_now :: reading
  ge_wait_start :: reading
  ge_wait :: "(reading \<times> reading) list"
  ge_ops4 :: "atomic_op list"
  ge_ops5 :: "atomic_op list"
  ge_stale2 :: "reading \<times> reading \<times> reading"

definition compose :: "Node \<Rightarrow> u64" where
  "compose n = push_bit timeShift (lastTime n) OR push_bit nodeShift (nodeID n) OR nstep n"

text \<open>The locked middle part of \<open>Generate\<close>: advance \<open>(lastTime, step)\<close>.  \<open>Some e\<close> is the
  borrow-budget refusal.\<close>

definition advance :: "Node \<Rightarrow> gen_env \<Rightarrow> (gen_error option \<times> Node) option" where
  "advance n0 env =
     (let now = nowEpoch (ge_now env);
          n = n0\<lparr>bootGuardPending := False\<rparr>
      in if now > lastTime n then Some (None, n\<lparr>lastTime := now, nstep := 0\<rparr>)
         else if nstep n < stepMask then Some (None, n\<lparr>nstep := nstep n + 1\<rparr>)
         else (case waitNextTime (rd_mono (ge_wait_start env) + waitBudget) (ge_wait env) (lastTime n) of
                 None \<Rightarrow> None
               | Some advanced \<Rightarrow>
                   if advanced > lastTime n then
                     Some (None, n\<lparr>lastTime := advanced, nstep := 0\<rparr>)
                   else if lastTime n + 1 > advanced + maxBorrowAheadSec then
                     Some (Some ErrBorrowLimitExceeded, n\<lparr>lastBorrowRejectLogSec := advanced\<rparr>)
                   else Some (None, n\<lparr>lastTime := lastTime n + 1, nstep := 0\<rparr>)))"

definition Generate :: "Node \<Rightarrow> gen_env \<Rightarrow> ((gen_error + u64) \<times> Node) option" where
  "Generate n env =
     (let n1 = interfere (ge_ops1 env) n
      in if nfenced n1 then Some (Inl ErrFenced, n1)
         else case checkWatermarkAge (interfere (ge_ops2 env) n1) (ge_stale1 env) of
           (Some e, n2) \<Rightarrow> Some (Inl e, n2)
         | (None, n2) \<Rightarrow>
             let n3 = interfere (ge_ops3 env) n2
             in if nfenced n3 then Some (Inl ErrFenced, n3)
                else case advance n3 env of
                  None \<Rightarrow> None
                | Some (Some e, n4) \<Rightarrow> Some (Inl e, n4)
                | Some (None, n4) \<Rightarrow>
                    let n5 = interfere (ge_ops4 env) n4
                    in if nfenced n5 then Some (Inl ErrFenced, n5)
                       else case checkWatermarkAge (interfere (ge_ops5 env) n5) (ge_stale2 env) of
                         (Some e, n6) \<Rightarrow> Some (Inl e, n6)
                       | (None, n6) \<Rightarrow> Some (Inr (compose n6), n6))"

section \<open>The layout on natural numbers\<close>

lemmas layout_consts =
  NodeBits_def StepBits_def timeShift_def nodeShift_def

lemma stepMask_val [simp]: "stepMask = 32767" and NodeMask_val [simp]: "NodeMask = 131071"
  by (simp_all add: stepMask_def NodeMask_def layout_consts)

definition mark :: "Node \<Rightarrow> nat" where
  "mark n = unat (lastTime n) * 2 ^ 32 + unat (nodeID n) * 2 ^ 15 + unat (nstep n)"

definition node_inv :: "Node \<Rightarrow> bool" where
  "node_inv n \<longleftrightarrow> nodeID n \<le> NodeMask \<and> nstep n \<le> stepMask \<and> unat (lastTime n) < 2 ^ 32"

lemma unat_compose:
  assumes "node_inv n"
  shows "unat (compose n) = mark n"
proof -
  let ?t = "lastTime n" and ?i = "nodeID n" and ?s = "nstep n"
  have t: "unat ?t < 2 ^ 32" using assms by (simp add: node_inv_def)
  have i: "unat ?i < 2 ^ 17" using assms by (simp add: node_inv_def word_le_nat_alt)
  have s: "unat ?s < 2 ^ 15" using assms by (simp add: node_inv_def word_le_nat_alt)
  have pt: "unat (push_bit 32 ?t) = unat ?t * 2 ^ 32" by (rule unat_push_bit_small [OF t]) simp
  have pi: "unat (push_bit 15 ?i) = unat ?i * 2 ^ 15" by (rule unat_push_bit_small [OF i]) simp
  have is_disj: "push_bit 15 ?i AND ?s = 0"
    by (rule push_bit_and_small [OF s])
  have is_val: "unat (push_bit 15 ?i OR ?s) = unat ?i * 2 ^ 15 + unat ?s"
    using unat_or_disjoint [OF is_disj] pi i s by simp
  then have is_small: "unat (push_bit 15 ?i OR ?s) < 2 ^ 32" using i s by simp
  have t_disj: "push_bit 32 ?t AND (push_bit 15 ?i OR ?s) = 0"
    by (rule push_bit_and_small [OF is_small])
  have "unat (push_bit 32 ?t OR (push_bit 15 ?i OR ?s)) = unat ?t * 2 ^ 32 + (unat ?i * 2 ^ 15 + unat ?s)"
    using unat_or_disjoint [OF t_disj] pt is_val t is_small by simp
  then show ?thesis
    by (simp add: compose_def mark_def layout_consts or.assoc)
qed

section \<open>Frame facts\<close>

text \<open>Interference and the age check touch neither the identity nor the position of a node, and no
  operation ever unfences it.\<close>

lemma atomic_step_core [simp]:
  "nodeID (atomic_step op n) = nodeID n" "lastTime (atomic_step op n) = lastTime n"
  "nstep (atomic_step op n) = nstep n"
  by (cases op; simp add: Fence_def SetFenceClock_def)+

lemma atomic_step_fenced: "nfenced n \<Longrightarrow> nfenced (atomic_step op n)"
  by (cases op) (auto simp: Fence_def SetFenceClock_def)

lemma interfere_core [simp]:
  "nodeID (interfere ops n) = nodeID n" "lastTime (interfere ops n) = lastTime n"
  "nstep (interfere ops n) = nstep n"
  by (induction ops arbitrary: n) (auto simp: interfere_def)

lemma interfere_fenced: "nfenced n \<Longrightarrow> nfenced (interfere ops n)"
  by (induction ops arbitrary: n) (auto simp: interfere_def atomic_step_fenced)

lemma check_core:
  "checkWatermarkAge n rs = (e, n') \<Longrightarrow>
     nodeID n' = nodeID n \<and> lastTime n' = lastTime n \<and> nstep n' = nstep n \<and> nfenced n' = nfenced n"
  by (auto simp: checkWatermarkAge_def split: prod.splits option.splits if_splits)

lemma node_inv_core:
  "nodeID n' = nodeID n \<Longrightarrow> lastTime n' = lastTime n \<Longrightarrow> nstep n' = nstep n \<Longrightarrow>
     node_inv n' = node_inv n \<and> mark n' = mark n"
  by (simp add: node_inv_def mark_def)

section \<open>Advancing the position\<close>

text \<open>The readings a call makes stay ten seconds below the end of the 32-bit time field
  (the year 2162), so that borrowing cannot leave it.\<close>

definition clock_ok :: "reading \<Rightarrow> bool" where
  "clock_ok r \<longleftrightarrow> unat (nowEpoch r) < 2 ^ 32 - 10"

definition env_ok :: "gen_env \<Rightarrow> bool" where
  "env_ok env \<longleftrightarrow> clock_ok (ge_now env) \<and> list_all (\<lambda>(r1, r2). clock_ok r1) (ge_wait env)"

lemma waitNextTime_ok:
  "waitNextTime d rs lt = Some t \<Longrightarrow> list_all (\<lambda>(r1, r2). clock_ok r1) rs \<Longrightarrow> unat t < 2 ^ 32 - 10"
  by (induction d rs lt rule: waitNextTime.induct)
     (auto simp: clock_ok_def Let_def split: if_splits)

lemma mark_later:
  assumes "unat (lastTime n) < unat t" and "nodeID n \<le> NodeMask" and "nstep n \<le> stepMask"
  shows "mark n < mark (n'\<lparr>lastTime := t, nstep := 0\<rparr>)"
proof -
  have "unat (nodeID n) < 2 ^ 17" "unat (nstep n) < 2 ^ 15"
    using assms(2,3) by (simp_all add: word_le_nat_alt)
  then have "unat (nodeID n) * 2 ^ 15 + unat (nstep n) < 2 ^ 32" by simp
  then have "mark n < (unat (lastTime n) + 1) * 2 ^ 32" by (simp add: mark_def)
  also have "\<dots> \<le> unat t * 2 ^ 32" using assms(1) by simp
  also have "\<dots> \<le> mark (n'\<lparr>lastTime := t, nstep := 0\<rparr>)" by (simp add: mark_def)
  finally show ?thesis .
qed

lemma advance_refused:
  "advance n env = Some (Some e, n') \<Longrightarrow>
     nodeID n' = nodeID n \<and> lastTime n' = lastTime n \<and> nstep n' = nstep n \<and> nfenced n' = nfenced n"
  by (auto simp: advance_def Let_def split: if_splits option.splits)

lemma advance_cases:
  assumes "advance n env = Some (None, n')" and "node_inv n" and "env_ok env"
  obtains (tick) t where "unat (lastTime n) < unat t" "unat t < 2 ^ 32"
      "n' = n\<lparr>bootGuardPending := False, lastTime := t, nstep := 0\<rparr>"
    | (bump) "nstep n < stepMask" "n' = n\<lparr>bootGuardPending := False, nstep := nstep n + 1\<rparr>"
proof -
  let ?now = "nowEpoch (ge_now env)"
  let ?w = "waitNextTime (rd_mono (ge_wait_start env) + waitBudget) (ge_wait env) (lastTime n)"
  have lt: "unat (lastTime n) < 2 ^ 32" using assms(2) by (simp add: node_inv_def)
  have now_ok: "unat ?now < 2 ^ 32" using assms(3) by (simp add: env_ok_def clock_ok_def)
  consider "?now > lastTime n" | "\<not> ?now > lastTime n" "nstep n < stepMask"
    | adv where "\<not> ?now > lastTime n" "\<not> nstep n < stepMask" "?w = Some adv" "adv > lastTime n"
    | adv where "\<not> ?now > lastTime n" "\<not> nstep n < stepMask" "?w = Some adv" "\<not> adv > lastTime n"
        "\<not> lastTime n + 1 > adv + maxBorrowAheadSec"
    using assms(1) by (fastforce simp: advance_def Let_def split: if_splits option.splits)
  then show ?thesis
  proof cases
    case 1
    then show ?thesis
      using assms(1) now_ok by (intro tick [of ?now]) (auto simp: advance_def word_less_nat_alt)
  next
    case 2
    then show ?thesis using assms(1) by (intro bump) (auto simp: advance_def)
  next
    case (3 adv)
    have "unat adv < 2 ^ 32 - 10"
      using waitNextTime_ok [OF 3(3)] assms(3) by (simp add: env_ok_def)
    with 3 show ?thesis
      using assms(1) by (intro tick [of adv]) (auto simp: advance_def word_less_nat_alt)
  next
    case (4 adv)
    have adv: "unat adv < 2 ^ 32 - 10"
      using waitNextTime_ok [OF 4(3)] assms(3) by (simp add: env_ok_def)
    have one: "unat (lastTime n + 1) = unat (lastTime n) + 1"
      using lt by (simp add: unat_word_ariths)
    have "unat (lastTime n + 1) \<le> unat (adv + maxBorrowAheadSec)"
      using 4(5) by (simp add: word_le_nat_alt not_less)
    also have "\<dots> = unat adv + 10"
      using adv by (simp add: unat_word_ariths maxBorrowAheadSec_def)
    finally show ?thesis
      using 4 one adv assms(1) by (intro tick [of "lastTime n + 1"]) (auto simp: advance_def)
  qed
qed

lemma advance_issues:
  assumes "advance n env = Some (None, n')" and "node_inv n" and "env_ok env"
  shows "nodeID n' = nodeID n \<and> nfenced n' = nfenced n \<and> node_inv n' \<and> mark n < mark n'"
  using assms
proof (cases rule: advance_cases)
  case (tick t)
  then show ?thesis
    using mark_later [of n t "n\<lparr>bootGuardPending := False\<rparr>"] assms(2)
    by (auto simp: node_inv_def)
next
  case bump
  then have "unat (nstep n + 1) = unat (nstep n) + 1"
    by (simp add: unat_word_ariths word_less_nat_alt)
  with bump show ?thesis
    using assms(2) by (auto simp: node_inv_def mark_def word_le_nat_alt word_less_nat_alt)
qed

section \<open>One call of Generate\<close>

text \<open>What a completed call is made of: it issues only by advancing a node that is unfenced at every
  load, and whatever it returns, the position only moves forward.\<close>

lemma Generate_issued:
  assumes "Generate n env = Some (Inr i, n')"
  obtains m m' where "nodeID m = nodeID n" "lastTime m = lastTime n" "nstep m = nstep n"
    "\<not> nfenced n" "advance m env = Some (None, m')"
    "nodeID n' = nodeID m'" "lastTime n' = lastTime m'" "nstep n' = nstep m'" "i = compose n'"
proof -
  let ?n1 = "interfere (ge_ops1 env) n"
  obtain n2 where n2: "checkWatermarkAge (interfere (ge_ops2 env) ?n1) (ge_stale1 env) = (None, n2)"
    and f1: "\<not> nfenced ?n1"
    using assms by (auto simp: Generate_def Let_def split: if_splits prod.splits option.splits)
  let ?n3 = "interfere (ge_ops3 env) n2"
  obtain n4 where n4: "advance ?n3 env = Some (None, n4)"
    using assms n2 f1
    by (auto simp: Generate_def Let_def split: if_splits prod.splits option.splits)
  let ?n5 = "interfere (ge_ops4 env) n4"
  obtain n6 where n6: "checkWatermarkAge (interfere (ge_ops5 env) ?n5) (ge_stale2 env) = (None, n6)"
    and res: "n' = n6" "i = compose n6"
    using assms n2 f1 n4
    by (auto simp: Generate_def Let_def split: if_splits prod.splits option.splits)
  show ?thesis
    using that [of ?n3 n4] n4 res check_core [OF n2] check_core [OF n6] interfere_fenced f1
    by fastforce
qed

lemma Generate_forward:
  assumes "Generate n env = Some (r, n')" and "node_inv n" and "env_ok env"
  shows "nodeID n' = nodeID n \<and> node_inv n' \<and> mark n \<le> mark n'"
proof -
  let ?n1 = "interfere (ge_ops1 env) n"
  show ?thesis
  proof (cases "nfenced ?n1")
    case True
    then show ?thesis using assms node_inv_core [of ?n1 n] by (auto simp: Generate_def)
  next
    case f1: False
    obtain e2 n2 where n2: "checkWatermarkAge (interfere (ge_ops2 env) ?n1) (ge_stale1 env) = (e2, n2)"
      by fastforce
    let ?n3 = "interfere (ge_ops3 env) n2"
    have c2: "nodeID n2 = nodeID n" "lastTime n2 = lastTime n" "nstep n2 = nstep n"
      using check_core [OF n2] by simp_all
    have c3: "node_inv ?n3 \<and> mark ?n3 = mark n" "nodeID ?n3 = nodeID n"
      using node_inv_core [of ?n3 n] c2 assms(2) by simp_all
    show ?thesis
    proof (cases "e2 = None \<and> \<not> nfenced ?n3")
      case False
      then have "n' = n2 \<or> n' = ?n3"
        using assms(1) n2 f1 by (cases e2) (auto simp: Generate_def Let_def)
      then show ?thesis using c2 c3 node_inv_core [of n2 n] assms(2) by auto
    next
      case True
      then obtain e4 n4 where n4: "advance ?n3 env = Some (e4, n4)"
        using assms(1) n2 f1 by (cases "advance ?n3 env") (auto simp: Generate_def Let_def)
      have c4: "nodeID n4 = nodeID n \<and> node_inv n4 \<and> mark n \<le> mark n4"
      proof (cases e4)
        case None
        then show ?thesis
          using advance_issues [of ?n3 env n4] n4 c3 assms(3) by simp
      next
        case (Some e)
        then show ?thesis
          using advance_refused [of ?n3 env e n4] n4 c3 node_inv_core [of n4 ?n3] by simp
      qed
      let ?n5 = "interfere (ge_ops4 env) n4"
      obtain e6 n6 where n6: "checkWatermarkAge (interfere (ge_ops5 env) ?n5) (ge_stale2 env) = (e6, n6)"
        by fastforce
      have "n' = n4 \<or> n' = ?n5 \<or> n' = n6"
        using assms(1) n2 f1 True n4 n6
        by (auto simp: Generate_def Let_def split: option.splits if_splits)
      then show ?thesis
        using c4 check_core [OF n6] node_inv_core [of ?n5 n4] node_inv_core [of n6 n4] by auto
    qed
  qed
qed

lemma Generate_id:
  assumes "Generate n env = Some (Inr i, n')" and "node_inv n" and "env_ok env"
  shows "unat i = mark n' \<and> mark n < mark n'"
proof -
  obtain m m' where m: "nodeID m = nodeID n" "lastTime m = lastTime n" "nstep m = nstep n"
    "advance m env = Some (None, m')"
    "nodeID n' = nodeID m'" "lastTime n' = lastTime m'" "nstep n' = nstep m'" "i = compose n'"
    by (rule Generate_issued [OF assms(1)])
  have "node_inv m'" "mark m < mark m'"
    using advance_issues [OF m(4) _ assms(3)] node_inv_core [of m n] m(1-3) assms(2) by simp_all
  then show ?thesis
    using unat_compose [of n'] node_inv_core [of n' m'] node_inv_core [of m n] m by simp
qed

section \<open>Histories of a node\<close>

text \<open>A history interleaves calls of \<open>Generate\<close> with \<open>SetGuardTime\<close> and the lock-free
  operations.  A call that is still waiting holds the lock and issues nothing.\<close>

datatype sf_event = EvGenerate gen_env | EvSetGuardTime u64 | EvAtomic atomic_op

fun sf_mint :: "Node \<Rightarrow> sf_event \<Rightarrow> u64 option \<times> Node" where
  "sf_mint n (EvGenerate env) =
     (case Generate n env of
        None \<Rightarrow> (None, n)
      | Some (Inl e, n') \<Rightarrow> (None, n')
      | Some (Inr i, n') \<Rightarrow> (Some i, n'))"
| "sf_mint n (EvSetGuardTime g) = (None, SetGuardTime n g)"
| "sf_mint n (EvAtomic op) = (None, atomic_step op n)"

fun sf_ok :: "sf_event \<Rightarrow> bool" where
  "sf_ok (EvGenerate env) = env_ok env"
| "sf_ok (EvSetGuardTime g) = (unat g < 2 ^ 32)"
| "sf_ok (EvAtomic op) = True"

lemma SetGuardTime_forward:
  assumes "node_inv n" and "unat g < 2 ^ 32"
  shows "nodeID (SetGuardTime n g) = nodeID n \<and> node_inv (SetGuardTime n g) \<and> mark n \<le> mark (SetGuardTime n g)"
proof (cases "g \<le> lastTime n")
  case True
  then show ?thesis using assms by (simp add: SetGuardTime_def)
next
  case False
  then have "mark n < mark (n\<lparr>bootGuardPending := True, lastTime := g, nstep := 0\<rparr>)"
    using assms by (intro mark_later) (auto simp: node_inv_def word_less_nat_alt word_le_nat_alt)
  with False assms show ?thesis
    by (auto simp: SetGuardTime_def node_inv_def mark_def)
qed

lemma sf_mint_forward:
  assumes "sf_mint n ev = (r, n')" and "node_inv n" and "sf_ok ev"
  shows "nodeID n' = nodeID n \<and> node_inv n' \<and> mark n \<le> mark n'"
proof (cases ev)
  case (EvGenerate env)
  then show ?thesis
    using assms Generate_forward [of n env _ n'] by (auto split: option.splits sum.splits)
next
  case (EvSetGuardTime g)
  then show ?thesis using assms SetGuardTime_forward by auto
next
  case (EvAtomic op)
  then show ?thesis using assms node_inv_core [of "atomic_step op n" n] by auto
qed

lemma sf_mint_id:
  assumes "sf_mint n ev = (Some i, n')" and "node_inv n" and "sf_ok ev"
  shows "unat i = mark n' \<and> mark n < mark n'"
  using assms Generate_id [of n _ i n']
  by (cases ev) (auto split: option.splits sum.splits)

interpretation sf: monotone_minter sf_mint sf_ok node_inv mark unat
  by unfold_locales (use sf_mint_forward sf_mint_id in fastforce)+

lemma sf_run_nodeID:
  "mint_run sf_mint n evs = (ids, n') \<Longrightarrow> node_inv n \<Longrightarrow> list_all sf_ok evs \<Longrightarrow> nodeID n' = nodeID n"
proof (induction evs arbitrary: n ids)
  case (Cons ev evs)
  obtain r m where m: "sf_mint n ev = (r, m)" by fastforce
  then show ?case
    using Cons sf_mint_forward [OF m] by (auto split: prod.splits)
qed simp

lemma worker_field:
  assumes "(s::nat) < 2 ^ 15" and "w < 2 ^ 17"
  shows "(t * 2 ^ 32 + w * 2 ^ 15 + s) mod 2 ^ 32 div 2 ^ 15 = w"
proof -
  have "w * 2 ^ 15 + s < 2 ^ 32" using assms by simp
  then have "(t * 2 ^ 32 + w * 2 ^ 15 + s) mod 2 ^ 32 = w * 2 ^ 15 + s"
    by (simp add: add.assoc)
  moreover have "(w * 2 ^ 15 + s) div 2 ^ 15 = w" using assms by simp
  ultimately show ?thesis by simp
qed

lemma sf_run_worker:
  assumes "mint_run sf_mint n evs = (ids, n')" and "node_inv n" and "list_all sf_ok evs" and "i \<in> set ids"
  shows "unat i mod 2 ^ 32 div 2 ^ 15 = unat (nodeID n)"
  using assms
proof (induction evs arbitrary: n ids)
  case (Cons ev evs)
  obtain r m where m: "sf_mint n ev = (r, m)" by fastforce
  obtain js where js: "mint_run sf_mint m evs = (js, n')"
      "ids = (case r of None \<Rightarrow> js | Some j \<Rightarrow> j # js)"
    using Cons.prems(1) m by (auto split: prod.splits)
  have fw: "nodeID m = nodeID n" "node_inv m"
    using sf_mint_forward [OF m] Cons.prems by auto
  show ?case
  proof (cases "i \<in> set js")
    case True
    then show ?thesis using Cons.IH [OF js(1) fw(2)] Cons.prems(3) fw(1) by simp
  next
    case False
    then have "r = Some i" using js(2) Cons.prems(4) by (auto split: option.splits)
    then have "unat i = mark m" using sf_mint_id m Cons.prems by auto
    moreover have "unat (nodeID m) < 2 ^ 17" "unat (nstep m) < 2 ^ 15"
      using fw(2) by (simp_all add: node_inv_def word_le_nat_alt)
    ultimately show ?thesis
      using fw(1) worker_field [of "unat (nstep m)" "unat (nodeID m)" "unat (lastTime m)"]
      by (simp add: mark_def)
  qed
qed simp

lemma NewNode_inv:
  "NewNode w r1 r2 = Some n \<Longrightarrow> clock_ok r2 \<Longrightarrow> node_inv n \<and> nodeID n = w"
  by (auto simp: NewNode_def node_inv_def clock_ok_def split: if_splits)

lemma Generate_fenced_end:
  assumes "Generate n env = Some (Inr i, n')"
  shows "\<not> nfenced n \<and> \<not> nfenced (interfere (ge_ops1 env) n) \<and> AFence \<notin> set (ge_ops4 env)"
proof -
  have stays: "nfenced (interfere ops m)" if "AFence \<in> set ops" for ops m
    using that
    by (induction ops arbitrary: m)
       (auto simp: interfere_def Fence_def intro: interfere_fenced [unfolded interfere_def])
  show ?thesis
    using assms stays interfere_fenced [of n "ge_ops1 env"]
    by (auto simp: Generate_def Let_def split: if_splits prod.splits option.splits)
qed

lemma fenced_run: "nfenced n \<Longrightarrow> fst (mint_run sf_mint n evs) = [] \<and> nfenced (snd (mint_run sf_mint n evs))"
proof (induction evs arbitrary: n)
  case (Cons ev evs)
  have "fst (sf_mint n ev) = None \<and> nfenced (snd (sf_mint n ev))"
    using Cons.prems interfere_fenced [of n] atomic_step_fenced [of n]
    by (cases ev) (auto simp: Generate_def SetGuardTime_def)
  then show ?case
    using Cons.IH [of "snd (sf_mint n ev)"] by (auto split: prod.splits)
qed simp

lemma waitNextTime_seen:
  "waitNextTime d rs lt = Some t \<Longrightarrow> \<exists>r \<in> fst ` set rs. t = nowEpoch r"
  by (induction d rs lt rule: waitNextTime.induct) (auto simp: Let_def split: if_splits)

lemma waitNextTime_returns:
  "\<exists>(r1, r2) \<in> set rs. rd_mono r2 > d \<Longrightarrow> \<exists>t. waitNextTime d rs lt = Some t"
  by (induction d rs lt rule: waitNextTime.induct) (auto simp: Let_def)

lemma advance_borrow:
  assumes "advance n env = Some (None, n')" and "env_ok env"
  shows "lastTime n' = lastTime n \<or>
    (\<exists>r \<in> insert (ge_now env) (fst ` set (ge_wait env)). unat (lastTime n') \<le> unat (nowEpoch r) + 10)"
proof -
  let ?w = "waitNextTime (rd_mono (ge_wait_start env) + waitBudget) (ge_wait env) (lastTime n)"
  consider "lastTime n' = lastTime n" | "lastTime n' = nowEpoch (ge_now env)"
    | adv where "?w = Some adv" "lastTime n' = adv"
    | adv where "?w = Some adv" "lastTime n' \<le> adv + maxBorrowAheadSec"
    using assms(1) by (fastforce simp: advance_def Let_def split: if_splits option.splits)
  then show ?thesis
  proof cases
    case (4 adv)
    have "unat adv < 2 ^ 32 - 10"
      using waitNextTime_ok [OF 4(1)] assms(2) by (simp add: env_ok_def)
    then have "unat (adv + maxBorrowAheadSec) = unat adv + 10"
      by (simp add: unat_word_ariths maxBorrowAheadSec_def)
    then show ?thesis
      using waitNextTime_seen [OF 4(1)] 4(2) by (auto simp: word_le_nat_alt)
  next
    case (3 adv)
    then show ?thesis using waitNextTime_seen [OF 3(1)] by (metis insertI2 le_add1)
  qed simp_all
qed

section \<open>Concrete histories\<close>

text \<open>Readings, calls and nodes the properties are evaluated on.\<close>

definition at_sec :: "int \<Rightarrow> reading" where
  "at_sec s = \<lparr>rd_wall = (1773446400 + s) * 1000000000, rd_mono = s * 1000000000\<rparr>"

definition env_at :: "reading \<Rightarrow> gen_env" where
  "env_at r = \<lparr>ge_ops1 = [], ge_ops2 = [], ge_stale1 = (r, r, r), ge_ops3 = [], ge_now = r,
     ge_wait_start = r, ge_wait = [(r, r)], ge_ops4 = [], ge_ops5 = [], ge_stale2 = (r, r, r)\<rparr>"

definition node_at :: "u64 \<Rightarrow> u64 \<Rightarrow> Node" where
  "node_at w t = \<lparr>nodeID = w, lastTime = t, nstep = 32767, lastBorrowRejectLogSec = 0,
     nfenced = False, nfenceClock = None, lastStaleLogSec = 0, bootGuardPending = True\<rparr>"

definition two_calls :: "int \<Rightarrow> int \<Rightarrow> sf_event list" where
  "two_calls s t = [EvGenerate (env_at (at_sec s)), EvGenerate (env_at (at_sec t))]"

lemmas sf_eval = NewNode_def node_at_def Epoch_def time_Unix_def time_Now_def at_sec_def
  nowEpoch_def clock_ok_def env_ok_def env_at_def two_calls_def Generate_def interfere_def
  checkWatermarkAge_def advance_def compose_def layout_consts Let_def SetGuardTime_def
  HighWaterEpochSec_def

section \<open>Properties\<close>

text \<open>
  Property C1.  Every identifier a node issues is larger than all it issued before, whatever the
  clocks show (also when the wall clock steps back), however calls of \<open>Generate\<close>,
  \<open>SetGuardTime\<close> and the lock-free operations interleave, and whatever takes effect inside a call.
  In particular no identifier is issued twice.
\<close>

theorem Generate_strictly_increasing:
  assumes "NewNode w r1 r2 = Some n" and "clock_ok r2" and "list_all sf_ok evs"
    and "mint_run sf_mint n evs = (ids, n')"
  shows "sorted_wrt (<) ids \<and> distinct ids"
proof -
  have inv: "node_inv n" using NewNode_inv assms by blast
  have "sorted_wrt (<) (map unat ids)"
    by (rule sf.run_strictly_increasing [OF inv assms(3,4)])
  then have "sorted_wrt (\<lambda>x y. unat x < unat y) ids" by (simp add: sorted_wrt_map)
  then have "sorted_wrt (<) ids"
    by (rule sorted_wrt_mono_rel [rotated]) (simp add: word_less_nat_alt)
  then show ?thesis using sf.run_distinct [OF inv assms(3,4)] by simp
qed

theorem Generate_strictly_increasing_witness:
  "fst (mint_run sf_mint (node_at 5 100) (two_calls 101 99)) = [433791860736, 433791860737] \<and>
   sorted_wrt (<) (fst (mint_run sf_mint (node_at 5 100) (two_calls 101 99)))"
  using Generate_strictly_increasing [of 5 "at_sec 100" "at_sec 100" "node_at 5 100" "two_calls 101 99",
      OF _ _ _ surjective_pairing]
  by (simp add: sf_eval)

text \<open>
  Property C18.  Takeover of a worker id: if the successor's floor is at least the predecessor's
  high-water second, then every identifier of the successor is larger than every identifier of the
  predecessor, even when the successor's wall clock is behind.
\<close>

theorem takeover_never_reissues:
  assumes "NewNode w r1 r2 = Some old" and "clock_ok r2" and "list_all sf_ok evs"
    and "mint_run sf_mint old evs = (ids, old')"
    and "NewNode w q1 q2 = Some new" and "clock_ok q2"
    and "HighWaterEpochSec old' \<le> floorSec" and "unat floorSec < 2 ^ 32"
    and "list_all sf_ok evs'"
    and "mint_run sf_mint (SetGuardTime new floorSec) evs' = (ids', new')"
    and "i \<in> set ids" and "j \<in> set ids'"
  shows "i < j"
proof -
  have old: "node_inv old" "nodeID old = w" and new: "node_inv new" "nodeID new = w"
    using NewNode_inv assms by blast+
  have "unat i \<le> mark old'" using sf.run_bounds [OF old(1) assms(3,4,11)] by simp
  also have "mark old' \<le> mark (SetGuardTime new floorSec)"
  proof -
    have o': "node_inv old'" "nodeID old' = w"
      using sf.run_inv [OF old(1) assms(3,4)] sf_run_nodeID [OF assms(4) old(1) assms(3)] old(2)
      by simp_all
    have "nstep old' \<le> nstep (SetGuardTime new floorSec)"
      using o'(1) assms(5) by (auto simp: SetGuardTime_def NewNode_def node_inv_def split: if_splits)
    moreover have "lastTime old' \<le> lastTime (SetGuardTime new floorSec)"
      using assms(7) by (auto simp: SetGuardTime_def HighWaterEpochSec_def)
    moreover have "nodeID (SetGuardTime new floorSec) = w" using new(2) by (simp add: SetGuardTime_def)
    ultimately show ?thesis using o'(2) by (simp add: mark_def word_le_nat_alt add_mono)
  qed
  also have "\<dots> < unat j"
    using sf.run_bounds [OF _ assms(9,10,12)] SetGuardTime_forward [OF new(1) assms(8)] by simp
  finally show ?thesis by (simp add: word_less_nat_alt)
qed

theorem takeover_never_reissues_witness:
  "(433791860737 :: u64) \<in> set (fst (mint_run sf_mint (node_at 5 100) (two_calls 101 99))) \<and>
   438086828032 \<in> set (fst (mint_run sf_mint (SetGuardTime (node_at 5 90) 101) (two_calls 102 102))) \<and>
   (433791860737 :: u64) < 438086828032"
  using takeover_never_reissues [of 5 "at_sec 100" "at_sec 100" "node_at 5 100" "two_calls 101 99"
      _ _ "at_sec 90" "at_sec 90" "node_at 5 90" 101 "two_calls 102 102" _ _ 433791860737 438086828032,
      OF _ _ _ surjective_pairing _ _ _ _ _ surjective_pairing]
  by (simp add: sf_eval)

text \<open>
  Property C19.  Nodes with different worker ids never issue the same identifier, whatever their
  clocks show.
\<close>

theorem workers_never_collide:
  assumes "NewNode v r1 r2 = Some m" and "clock_ok r2" and "list_all sf_ok evs"
    and "mint_run sf_mint m evs = (ids, m')"
    and "NewNode w q1 q2 = Some n" and "clock_ok q2" and "list_all sf_ok evs'"
    and "mint_run sf_mint n evs' = (ids', n')"
    and "v \<noteq> w"
  shows "set ids \<inter> set ids' = {}"
proof -
  have inv: "node_inv m" "nodeID m = v" "node_inv n" "nodeID n = w" using NewNode_inv assms by blast+
  have "unat v = unat w" if "i \<in> set ids" "i \<in> set ids'" for i
    using sf_run_worker [OF assms(4) inv(1) assms(3) that(1)]
      sf_run_worker [OF assms(8) inv(3) assms(7) that(2)] inv by simp
  then show ?thesis using assms(9) by (auto dest: unsigned_word_eqI)
qed

theorem workers_never_collide_witness:
  "set (fst (mint_run sf_mint (node_at 5 100) (two_calls 101 99))) \<inter>
   set (fst (mint_run sf_mint (node_at 6 100) (two_calls 101 99))) = {}"
  by (rule workers_never_collide [of 5 "at_sec 100" "at_sec 100" _ "two_calls 101 99" _ _
        6 "at_sec 100" "at_sec 100", OF _ _ _ surjective_pairing _ _ _ surjective_pairing])
     (simp_all add: sf_eval)

text \<open>
  Property C20.  Losing the lease is final: once a node is fenced no later history makes it issue an
  identifier, and a call that has already started issues nothing if the fence falls before its last
  check, also while it waits for the clock.
\<close>

theorem fenced_never_issues:
  "(IsFenced n \<longrightarrow> fst (mint_run sf_mint n evs) = []) \<and>
   (AFence \<in> set (ge_ops4 env) \<longrightarrow> Generate m env \<noteq> Some (Inr i, m'))"
  using fenced_run [of n evs] Generate_fenced_end [of m env i m'] by (auto simp: IsFenced_def)

theorem fenced_never_issues_witness:
  "fst (mint_run sf_mint (Fence (node_at 5 100)) (two_calls 101 102)) = [] \<and>
   Generate (node_at 5 100) ((env_at (at_sec 101))\<lparr>ge_ops4 := [AFence]\<rparr>) \<noteq> Some (Inr 433791860736, node_at 5 101)"
  using fenced_never_issues [of "Fence (node_at 5 100)" "two_calls 101 102"
      "(env_at (at_sec 101))\<lparr>ge_ops4 := [AFence]\<rparr>" "node_at 5 100" 433791860736 "node_at 5 101"]
  by (simp add: IsFenced_def Fence_def)

text \<open>
  The time field of an issued identifier never runs ahead of the clock without bound:
  a call leaves the high-water second where it was, moves it to a second some clock reading of
  that call shows, or borrows one second and stays within ten of such a reading.
\<close>

lemma borrow_is_bounded:
  assumes "Generate n env = Some (Inr i, n')" and "node_inv n" and "env_ok env"
  shows "HighWaterEpochSec n' = HighWaterEpochSec n \<or>
    (\<exists>r \<in> insert (ge_now env) (fst ` set (ge_wait env)).
       unat (HighWaterEpochSec n') \<le> unat (nowEpoch r) + 10)"
proof -
  obtain m m' where m: "lastTime m = lastTime n" "advance m env = Some (None, m')" "lastTime n' = lastTime m'"
    using Generate_issued [OF assms(1)] by metis
  show ?thesis
    using advance_borrow [OF m(2) assms(3)] m by (simp add: HighWaterEpochSec_def)
qed

text \<open>
  Property C21.  \<open>Generate\<close> always returns: the wait ends no later than the first look at the
  clock more than three seconds after it began, even when the wall clock is stuck or steps back.
\<close>

theorem Generate_returns:
  assumes "\<exists>(r1, r2) \<in> set (ge_wait env). rd_mono r2 > rd_mono (ge_wait_start env) + waitBudget"
  shows "\<exists>res n'. Generate n env = Some (res, n')"
proof -
  have returns: "advance m env \<noteq> None" for m
    using waitNextTime_returns [OF assms, of "lastTime m"]
    by (auto simp: advance_def Let_def split: option.splits)
  have "Generate n env \<noteq> None"
    by (simp add: Generate_def Let_def returns del: not_None_eq split: option.splits prod.splits)
  then show ?thesis by fast
qed

theorem Generate_returns_witness:
  "\<exists>res n'. Generate (node_at 5 105)
     ((env_at (at_sec 100))\<lparr>ge_wait := [(at_sec 100, at_sec 101), (at_sec 99, at_sec 104)]\<rparr>) = Some (res, n')"
  by (rule Generate_returns) (simp add: env_at_def at_sec_def waitBudget_def)

text \<open>
  Property C22.  An identifier leaves a node only while the watermark is fresh: the fence clock
  attached at the end of the call was not stale at the last look at the clocks.  A node whose clock
  was never acknowledged issues nothing.
\<close>

theorem issued_only_while_fresh:
  assumes "Generate n env = Some (Inr i, n')" and "nfenceClock n' = Some fc"
    and "ge_stale2 env = (r1, r2, r3)"
  shows "\<not> fst (Stale fc r1 r2) \<and> fc_acked fc"
proof -
  have "\<not> fst (Stale fc r1 r2)"
    using assms
    by (auto simp: Generate_def Let_def checkWatermarkAge_def split: if_splits prod.splits option.splits)
  then show ?thesis by (cases "fc_acked fc") (simp_all add: Stale_def)
qed

theorem issued_only_while_fresh_witness:
  "\<not> fst (Stale (Ack (the (NewFenceClock 60000000000 (at_sec 50))) (at_sec 100) (at_sec 100)) (at_sec 101) (at_sec 101))"
  using issued_only_while_fresh
      [of "(node_at 5 100)\<lparr>nfenceClock := Some (Ack (the (NewFenceClock 60000000000 (at_sec 50))) (at_sec 100) (at_sec 100))\<rparr>"
       "env_at (at_sec 101)" 433791860736 _ _ "at_sec 101" "at_sec 101" "at_sec 101"]
  by (simp add: sf_eval fence_clock_defs time_Sub_def sat_dur_def int64_def)

end
