(* ===== verification/SnowflakeAlloc.thy ===== *)
theory SnowflakeAlloc
  imports Snowflake
begin

text \<open>
  The pure parts of the worker-id allocator: the worker layout of
  \<open>go/shared/snowflakealloc/layout.go\<close> and the slot selection of
  \<open>go/shared/snowflakealloc/selection.go\<close>.  Bit widths are Go \<open>uint\<close>, 64 bits wide; a
  Go shift by 64 or more gives 0, as \<open>push_bit\<close> and \<open>drop_bit\<close> do.  A Go map lookup of
  an absent key gives the zero value.
\<close>

section \<open>Worker layout\<close>

definition ClusterBits :: u64 where "ClusterBits = 5"
definition SlotBits :: u64 where "SlotBits = 12"
definition MaxCluster :: u64 where "MaxCluster = push_bit (unat ClusterBits) 1 - 1"
definition MaxSlot :: u64 where "MaxSlot = push_bit (unat SlotBits) 1 - 1"
definition PlayerIDClusterBits :: u64 where "PlayerIDClusterBits = 3"
definition PlayerIDSlotBits :: u64 where "PlayerIDSlotBits = 10"

datatype layout_error = InvalidLayout | ClusterOverflow | SlotOverflow

definition ComposeWorkerID :: "u32 \<Rightarrow> u64 \<Rightarrow> u64 \<Rightarrow> u64 \<Rightarrow> layout_error + u64" where
  "ComposeWorkerID cluster slot clusterBits slotBits =
     (if clusterBits = 0 \<or> slotBits = 0 \<or> clusterBits + slotBits > 63 then Inl InvalidLayout
      else if ucast cluster > push_bit (unat clusterBits) (1 :: u64) - 1 then Inl ClusterOverflow
      else if slot > push_bit (unat slotBits) 1 - 1 then Inl SlotOverflow
      else Inr (push_bit (unat slotBits) (ucast cluster) OR slot))"

definition DecodeWorkerID :: "u64 \<Rightarrow> u64 \<Rightarrow> u64 \<Rightarrow> u32 \<times> u64" where
  "DecodeWorkerID worker clusterBits slotBits =
     (let slotMask = push_bit (unat slotBits) 1 - 1;
          clusterMask = push_bit (unat clusterBits) 1 - 1
      in (ucast (drop_bit (unat slotBits) worker AND clusterMask), worker AND slotMask))"

definition WorkerOf :: "u64 \<Rightarrow> u64" where
  "WorkerOf i = drop_bit StepBits i AND NodeMask"

definition DecodeID :: "u64 \<Rightarrow> u64 \<times> u32 \<times> u64 \<times> u64" where
  "DecodeID i =
     (let stpMask = push_bit StepBits 1 - 1;
          (cluster, slot) = DecodeWorkerID (WorkerOf i) ClusterBits SlotBits
      in (drop_bit (NodeBits + StepBits) i, cluster, slot, i AND stpMask))"

section \<open>Slot selection\<close>

text \<open>\<open>selectSlot\<close> scans slots upwards from \<open>s\<close>; \<open>acc\<close> is \<open>(best, bestWm)\<close> once
  \<open>found\<close>.  The loop variable is a counter that does not wrap: \<open>maxSlot\<close> is far below
  \<open>2^64 - 1\<close>.\<close>

definition slot_quarantined :: "u64 \<Rightarrow> u64 \<Rightarrow> u64 \<Rightarrow> bool" where
  "slot_quarantined w now quarantineSec \<longleftrightarrow> w \<noteq> 0 \<and> (now < w \<or> now - w < quarantineSec)"

function selectSlot_from ::
    "(u64 \<Rightarrow> bool) \<Rightarrow> (u64 \<Rightarrow> u64) \<Rightarrow> u64 \<Rightarrow> u64 \<Rightarrow> nat \<Rightarrow> nat \<Rightarrow> (u64 \<times> u64) option \<Rightarrow> (u64 \<times> u64) option" where
  "selectSlot_from used wm now q maxSlot s acc =
     (if s > maxSlot then acc
      else let k = word_of_nat s; w = wm k in
        if used k then selectSlot_from used wm now q maxSlot (s + 1) acc
        else if slot_quarantined w now q then selectSlot_from used wm now q maxSlot (s + 1) acc
        else
          let acc' = (case acc of None \<Rightarrow> Some (k, w)
                      | Some (best, bestWm) \<Rightarrow> if w < bestWm then Some (k, w) else acc)
          in if w = 0 then acc'
             else selectSlot_from used wm now q maxSlot (s + 1) acc')"
  by pat_completeness auto
termination by (relation "measure (\<lambda>(_, _, _, _, maxSlot, s, _). Suc maxSlot - s)") auto

declare selectSlot_from.simps [simp del]

definition selectSlot :: "(u64 \<Rightarrow> bool) \<Rightarrow> (u64 \<Rightarrow> u64) \<Rightarrow> u64 \<Rightarrow> u64 \<Rightarrow> u64 \<Rightarrow> u64 \<times> bool" where
  "selectSlot used wm now quarantineSec maxSlot =
     (case selectSlot_from used wm now quarantineSec (unat maxSlot) 0 None of
        None \<Rightarrow> (0, False)
      | Some (best, _) \<Rightarrow> (best, True))"

definition mergeWatermarks :: "(u64 \<rightharpoonup> u64) option \<Rightarrow> (u64 \<times> u64) list \<Rightarrow> u64 \<rightharpoonup> u64" where
  "mergeWatermarks dst src =
     fold (\<lambda>(slot, w) d. if w > (case d slot of None \<Rightarrow> 0 | Some v \<Rightarrow> v) then d(slot \<mapsto> w) else d)
       src (case dst of None \<Rightarrow> Map.empty | Some d \<Rightarrow> d)"

section \<open>What the selection returns\<close>

definition slot_candidate :: "(u64 \<Rightarrow> bool) \<Rightarrow> (u64 \<Rightarrow> u64) \<Rightarrow> u64 \<Rightarrow> u64 \<Rightarrow> u64 \<Rightarrow> bool" where
  "slot_candidate used wm now q k \<longleftrightarrow> \<not> used k \<and> \<not> slot_quarantined (wm k) now q"

text \<open>\<open>best_upto s acc\<close>: \<open>acc\<close> is the lexicographically least \<open>(watermark, slot)\<close> among the
  candidates below \<open>s\<close>.\<close>

definition best_upto ::
    "(u64 \<Rightarrow> bool) \<Rightarrow> (u64 \<Rightarrow> u64) \<Rightarrow> (u64 \<Rightarrow> bool) \<Rightarrow> (u64 \<times> u64) option \<Rightarrow> bool" where
  "best_upto cand wm scope acc =
     (case acc of
        None \<Rightarrow> \<forall>k. scope k \<longrightarrow> \<not> cand k
      | Some (b, bw) \<Rightarrow> scope b \<and> cand b \<and> bw = wm b \<and>
          (\<forall>k. scope k \<longrightarrow> cand k \<longrightarrow> wm b < wm k \<or> wm b = wm k \<and> b \<le> k))"

lemma best_upto_skip:
  "best_upto cand wm scope acc \<Longrightarrow> (\<And>j. scope' j \<longleftrightarrow> scope j \<or> j = k) \<Longrightarrow> \<not> cand k \<Longrightarrow>
     best_upto cand wm scope' acc"
  by (auto simp: best_upto_def split: option.splits)

lemma best_upto_add:
  assumes "best_upto cand wm scope acc" and "\<And>j. scope' j \<longleftrightarrow> scope j \<or> j = k" and "cand k"
    and "\<And>j. scope j \<Longrightarrow> j \<le> (k :: u64)"
  shows "best_upto cand wm scope'
    (case acc of None \<Rightarrow> Some (k, wm k) | Some (b, bw) \<Rightarrow> if wm k < bw then Some (k, wm k) else acc)"
proof (cases acc)
  case None
  with assms show ?thesis by (auto simp: best_upto_def)
next
  case (Some p)
  obtain b bw where p: "p = (b, bw)" by fastforce
  have b: "scope b" "cand b" "bw = wm b"
    "\<And>j. scope j \<Longrightarrow> cand j \<Longrightarrow> wm b < wm j \<or> wm b = wm j \<and> b \<le> j"
    using assms(1) Some p by (auto simp: best_upto_def)
  show ?thesis
  proof (cases "wm k < bw")
    case True
    then have "wm k < wm j \<or> wm k = wm j \<and> k \<le> j" if "scope' j" "cand j" for j
      using b(3) b(4) [of j] that assms(2) [of j] by (metis order.refl order.strict_trans)
    then show ?thesis using True Some p assms(2,3) by (simp add: best_upto_def)
  next
    case False
    then have "wm b < wm j \<or> wm b = wm j \<and> b \<le> j" if "scope' j" "cand j" for j
      using b(3) b(4) [of j] that assms(2) [of j] assms(4) [OF b(1)] by (metis neq_iff)
    then show ?thesis using False Some p b assms(2) by (simp add: best_upto_def)
  qed
qed

lemma best_upto_zero:
  assumes "best_upto cand wm scope acc" and "\<And>b bw. acc = Some (b, bw) \<Longrightarrow> bw \<noteq> 0"
    and "cand k" and "wm k = (0 :: u64)" and "scope' k" and "\<And>j. scope' j \<Longrightarrow> scope j \<or> (k :: u64) \<le> j"
  shows "best_upto cand wm scope' (Some (k, 0))"
proof -
  have "\<not> scope j" if "cand j" "wm j = 0" for j
    using assms(1,2) that by (cases acc) (auto simp: best_upto_def)
  then have "0 < wm j \<or> k \<le> j" if "scope' j" "cand j" for j
    using that assms(6) [of j] word_neq_0_conv by blast
  then show ?thesis using assms(3-5) by (auto simp: best_upto_def word_neq_0_conv [symmetric])
qed

lemma selectSlot_from_best:
  assumes "s \<le> Suc maxSlot" and "Suc maxSlot < 2 ^ 64"
    and "best_upto (slot_candidate used wm now q) wm (\<lambda>k. unat k < s) acc"
    and "\<And>b bw. acc = Some (b, bw) \<Longrightarrow> bw \<noteq> 0"
  shows "best_upto (slot_candidate used wm now q) wm (\<lambda>k. unat k \<le> maxSlot)
           (selectSlot_from used wm now q maxSlot s acc)"
  using assms
proof (induction used wm now q maxSlot s acc rule: selectSlot_from.induct)
  case (1 used wm now q maxSlot s acc)
  let ?k = "word_of_nat s :: u64"
  let ?c = "slot_candidate used wm now q"
  let ?acc = "case acc of None \<Rightarrow> Some (?k, wm ?k)
    | Some (b, bw) \<Rightarrow> if wm ?k < bw then Some (?k, wm ?k) else acc"
  show ?case
  proof (cases "s \<le> maxSlot")
    case False
    then have "s = Suc maxSlot" using "1.prems"(1) by simp
    then show ?thesis using "1.prems"(3) by (simp add: selectSlot_from.simps less_Suc_eq_le)
  next
    case True
    have uk: "unat ?k = s"
      using True "1.prems"(2) by (simp add: unsigned_of_nat take_bit_nat_eq_self)
    have grow: "unat j < Suc s \<longleftrightarrow> unat j < s \<or> j = ?k" for j :: u64
      using uk unsigned_word_eqI [of j ?k] by (auto simp: less_Suc_eq)
    have le: "j \<le> ?k" if "unat j < s" for j :: u64 using uk that by (simp add: word_le_nat_alt)
    note unf = selectSlot_from.simps [of used wm now q maxSlot s acc]
    note ck = slot_candidate_def [of used wm now q ?k]
    consider (skip) "\<not> ?c ?k" | (stop) "?c ?k" "wm ?k = 0" | (go) "?c ?k" "wm ?k \<noteq> 0" by blast
    then show ?thesis
    proof cases
      case skip
      have "best_upto ?c wm (\<lambda>j. unat j < Suc s) acc"
        by (rule best_upto_skip [OF "1.prems"(3) grow skip])
      then show ?thesis
        using "1.IH"(1,2) skip True "1.prems"(2,4) by (cases "used ?k") (auto simp: unf ck Let_def)
    next
      case stop
      have acc0: "?acc = Some (?k, 0)"
        using "1.prems"(4) stop by (auto split: option.splits simp: word_neq_0_conv)
      have "best_upto ?c wm (\<lambda>j. unat j \<le> maxSlot) (Some (?k, 0))"
        by (rule best_upto_zero [OF "1.prems"(3,4) stop])
           (use uk True in \<open>auto simp: word_le_nat_alt\<close>)
      then show ?thesis
        using acc0 stop True by (simp add: unf ck Let_def)
    next
      case go
      have "best_upto ?c wm (\<lambda>j. unat j < Suc s) ?acc"
        by (rule best_upto_add [OF "1.prems"(3) grow go(1) le])
      moreover have "bw \<noteq> 0" if "?acc = Some (b, bw)" for b bw
        using that "1.prems"(4) go(2) by (auto split: option.splits if_splits)
      ultimately show ?thesis
        using "1.IH"(3) go True "1.prems"(2) by (simp add: unf ck Let_def)
    qed
  qed
qed

section \<open>Fields of an identifier\<close>

lemmas mask_word = mask_eq_exp_minus_1 [where 'a = u64, symmetric]

lemma le_mask_bits:
  assumes "(s :: u64) \<le> mask k" and "k < 64" and "bit s i"
  shows "i < k"
proof -
  have "uint s \<le> mask k"
    using assms(1,2) by (simp add: word_le_def uint_mask_eq min_def)
  then have "uint s < 2 ^ k" by (simp add: mask_eq_exp_minus_1)
  then have "s AND mask k = s" by (simp add: mask_eq_iff)
  then have "bit (s AND mask k) i" using assms(3) by simp
  then show ?thesis by (simp add: bit_simps)
qed

lemma split_fields:
  fixes hi lo :: u64
  assumes "\<And>i. bit lo i \<Longrightarrow> i < k" and "\<And>i. bit hi i \<Longrightarrow> i < m" and "m + k \<le> 64"
  shows "(push_bit k hi OR lo) AND mask k = lo" and "drop_bit k (push_bit k hi OR lo) AND mask m = hi"
proof -
  show "(push_bit k hi OR lo) AND mask k = lo"
    by (rule bit_eqI) (use assms(1) in \<open>auto simp: bit_simps\<close>)
  show "drop_bit k (push_bit k hi OR lo) AND mask m = hi"
    by (rule bit_eqI) (use assms in \<open>fastforce simp: bit_simps dest: bit_imp_possible_bit\<close>)
qed

lemma Compose_bits:
  assumes "ComposeWorkerID cluster slot cb sb = Inr w" and "unat cb + unat sb < 2 ^ 64"
  shows "unat cb + unat sb \<le> 63" 
    "w = push_bit (unat sb) (ucast cluster) OR slot"
    "bit slot i \<Longrightarrow> i < unat sb" "bit (ucast cluster :: u64) j \<Longrightarrow> j < unat cb"
proof -
  have g: "\<not> cb + sb > 63" "ucast cluster \<le> (mask (unat cb) :: u64)" "slot \<le> mask (unat sb)"
     "w = push_bit (unat sb) (ucast cluster) OR slot"
    using assms(1) by (auto simp: ComposeWorkerID_def mask_word split: if_splits)
  have "unat (cb + sb) = unat cb + unat sb" using assms(2) by (simp add: unat_word_ariths)
  then show le: "unat cb + unat sb \<le> 63" using g(1) by (simp add: word_less_nat_alt)
  show "w = push_bit (unat sb) (ucast cluster) OR slot" by (rule g(4))
  show "bit slot i \<Longrightarrow> i < unat sb" using le_mask_bits [OF g(3)] le by simp
  show "bit (ucast cluster :: u64) j \<Longrightarrow> j < unat cb" using le_mask_bits [OF g(2)] le by simp
qed

lemma ucast_down_up: "ucast (ucast (c :: u32) :: u64) = c"
  by (rule bit_eqI) (auto simp: bit_simps)

lemma Decode_Compose:
  assumes "ComposeWorkerID cluster slot cb sb = Inr w" and "unat cb + unat sb < 2 ^ 64"
  shows "DecodeWorkerID w cb sb = (cluster, slot)"
proof -
  have "w AND mask (unat sb) = slot" "drop_bit (unat sb) w AND mask (unat cb) = ucast cluster"
    using split_fields [of slot "unat sb" "ucast cluster" "unat cb"] Compose_bits [OF assms] by auto
  then show ?thesis
    by (simp add: DecodeWorkerID_def mask_word Let_def ucast_down_up)
qed

lemma compose_fields:
  assumes "node_inv n"
  shows "drop_bit 32 (compose n) = lastTime n" "drop_bit 15 (compose n) AND mask 17 = nodeID n"
    "compose n AND mask 15 = nstep n"
proof -
  have t: "bit (lastTime n) i \<Longrightarrow> i < 32" and i: "bit (nodeID n) i \<Longrightarrow> i < 17" and s: "bit (nstep n) i \<Longrightarrow> i < 15" for i
    using assms bit_small [of "lastTime n" 32] bit_small [of "nodeID n" 17] bit_small [of "nstep n" 15]
    by (auto simp: node_inv_def word_le_nat_alt)
  show "drop_bit 32 (compose n) = lastTime n"
    by (rule bit_eqI) (use t i s in \<open>fastforce simp: bit_simps compose_def layout_consts\<close>)
  show "drop_bit 15 (compose n) AND mask 17 = nodeID n"
    by (rule bit_eqI) (use t i s in \<open>fastforce simp: bit_simps compose_def layout_consts\<close>)
  show "compose n AND mask 15 = nstep n"
    by (rule bit_eqI) (use t i s in \<open>fastforce simp: bit_simps compose_def layout_consts\<close>)
qed
section \<open>Properties\<close>

text \<open>
  Property C24.  Slot selection refuses exactly when no slot qualifies, and otherwise returns the free
  slot whose watermark is oldest, the smallest index on ties.  A chosen slot that was used before
  has been silent for the whole quarantine: its watermark plus the quarantine does not exceed the
  current second, computed without wrap-around, so a watermark in the future disqualifies.
\<close>

theorem selectSlot_oldest_quarantined:
  assumes "maxSlot < 2 ^ 64 - 1" and "selectSlot used wm now q maxSlot = (b, found)"
  shows "(found \<longleftrightarrow> (\<exists>k \<le> maxSlot. slot_candidate used wm now q k)) \<and>
    (found \<longrightarrow> b \<le> maxSlot \<and> \<not> used b \<and> (wm b = 0 \<or> unat (wm b) + unat q \<le> unat now) \<and>
      (\<forall>k \<le> maxSlot. slot_candidate used wm now q k \<longrightarrow> wm b < wm k \<or> wm b = wm k \<and> b \<le> k))"
proof -
  let ?r = "selectSlot_from used wm now q (unat maxSlot) 0 None"
  have "unat maxSlot < unat (2 ^ 64 - 1 :: u64)" using assms(1) by (simp only: word_less_nat_alt)
  then have max: "Suc (unat maxSlot) < 2 ^ 64" by simp
  have best: "best_upto (slot_candidate used wm now q) wm (\<lambda>k. k \<le> maxSlot) ?r"
    using selectSlot_from_best [of 0 "unat maxSlot" used wm now q None] max
    by (simp add: best_upto_def word_le_nat_alt)
  show ?thesis
  proof (cases ?r)
    case None
    then show ?thesis using best assms(2) by (auto simp: selectSlot_def best_upto_def)
  next
    case (Some p)
    then have "b = fst p" "found" using assms(2) by (auto simp: selectSlot_def split: prod.splits)
    moreover have "wm k = 0 \<or> unat (wm k) + unat q \<le> unat now" if "slot_candidate used wm now q k" for k
      using that
      by (auto simp: slot_candidate_def slot_quarantined_def word_less_nat_alt unat_sub_if' split: if_splits)
    ultimately show ?thesis
      using best Some by (cases p) (auto simp: best_upto_def slot_candidate_def)
  qed
qed

theorem selectSlot_oldest_quarantined_witness:
  "selectSlot (\<lambda>k. k = 0) (\<lambda>k. if k = 1 then 90 else if k = 2 then 40 else 50) 100 30 3 = (2, True) \<and>
   slot_candidate (\<lambda>k. k = 0) (\<lambda>k. if k = 1 then 90 else if k = 2 then 40 else 50) 100 30 2"
  using selectSlot_oldest_quarantined [of 3 "\<lambda>k. k = 0"
      "\<lambda>k. if k = 1 then 90 else if k = 2 then 40 else 50" 100 30 2 True]
  by (simp add: selectSlot_def selectSlot_from.simps slot_quarantined_def slot_candidate_def)

text \<open>
  An identifier decodes to what it was made of: composing a cluster and a slot in range
  gives a worker id of 17 bits, and the identifier a node with that worker id composes decodes to its
  second, its cluster, its slot and its step.
\<close>

lemma DecodeID_compose:
  assumes "ComposeWorkerID cluster slot ClusterBits SlotBits = Inr w"
    and "node_inv n" and "nodeID n = w"
  shows "DecodeID (compose n) = (lastTime n, cluster, slot, nstep n)"
proof -
  have "DecodeWorkerID w ClusterBits SlotBits = (cluster, slot)"
    by (rule Decode_Compose [OF assms(1)]) (simp add: ClusterBits_def SlotBits_def)
  moreover have "WorkerOf (compose n) = w"
    using compose_fields(2) [OF assms(2)] assms(3)
    by (simp add: WorkerOf_def NodeMask_def layout_consts mask_eq_exp_minus_1)
  ultimately show ?thesis
    using compose_fields(1,3) [OF assms(2)] by (simp add: DecodeID_def layout_consts mask_eq_exp_minus_1)
qed

text \<open>
  For every layout the checks accept, splitting the composed worker id gives back the
  cluster and the slot.  An accepted pair never spills into a neighbouring field.
\<close>

lemma ComposeWorkerID_roundtrip:
  assumes "ComposeWorkerID cluster slot cb sb = Inr w" and "unat cb + unat sb < 2 ^ 64"
  shows "DecodeWorkerID w cb sb = (cluster, slot) \<and> unat w < 2 ^ (unat cb + unat sb)"
proof -
  have "bit w i \<Longrightarrow> i < unat cb + unat sb" for i
    using Compose_bits [OF assms] by (fastforce simp: bit_simps)
  then have "take_bit (unat cb + unat sb) w = w"
    by (intro bit_eqI) (auto simp: bit_simps)
  then have "unat w = take_bit (unat cb + unat sb) (unat w)"
    by (metis unsigned_take_bit_eq)
  then have "unat w < 2 ^ (unat cb + unat sb)"
    by (metis take_bit_nat_less_exp)
  then show ?thesis using Decode_Compose [OF assms] by simp
qed

end
