(* ===== verification/AllocEtcd.thy ===== *)
theory AllocEtcd
  imports SnowflakeAlloc
begin

text \<open>
  The etcd store as the worker-id allocator uses it: keys with a value, an attached lease and the
  revisions of their creation and last change; transactions that compare and then read, put and
  delete at one new revision; leases whose end removes their keys.  The keys are those of one pool,
  that is one kind and cluster: a constructor for each key function of \<open>allocator.go\<close>.  Decimal
  numbers are \<open>Dec\<close>, any other text is \<open>Text\<close>.
\<close>

section \<open>Keys and values\<close>

datatype etcd_key = slotKey u64 | affinityKey string | releasedKey string | watermarkKey u64 | watermarkMsKey u64
  | legacyIDKey u64 | legacyNodeKey string | legacyGuardKey u64 | legacyGuardMsKey u64

datatype etcd_val = Dec u64 | Text string

record kv =
  kv_value :: etcd_val
  kv_lease :: nat
  kv_create :: nat
  kv_mod :: nat

text \<open>\<open>ek_granted\<close> and \<open>ek_fenced\<close> are history variables: the holder a lease was granted to, and the
  holders that have closed, all their generators fenced.\<close>

record etcd =
  ek_kvs :: "(etcd_key \<times> kv) list"
  ek_rev :: nat
  ek_leases :: "nat list"
  ek_nextLease :: nat
  ek_granted :: "nat \<Rightarrow> string"
  ek_fenced :: "string list"

definition get :: "etcd \<Rightarrow> etcd_key \<Rightarrow> kv option" where
  "get db k = map_of (ek_kvs db) k"

definition put :: "nat \<Rightarrow> etcd_key \<Rightarrow> etcd_val \<Rightarrow> nat \<Rightarrow> etcd \<Rightarrow> etcd" where
  "put rv k v l db =
     db \<lparr>ek_kvs := (k, \<lparr>kv_value = v, kv_lease = l,
                       kv_create = (case get db k of None \<Rightarrow> rv | Some x \<Rightarrow> kv_create x), kv_mod = rv\<rparr>) #
                   filter (\<lambda>(k', _). k' \<noteq> k) (ek_kvs db),
         ek_rev := rv\<rparr>"

definition del :: "nat \<Rightarrow> etcd_key \<Rightarrow> etcd \<Rightarrow> etcd" where
  "del rv k db =
     (if get db k = None then db
      else db \<lparr>ek_kvs := filter (\<lambda>(k', _). k' \<noteq> k) (ek_kvs db), ek_rev := rv\<rparr>)"

text \<open>A lease is granted under a new number; its end, by expiry or revocation, removes its keys.\<close>

definition grant :: "string \<Rightarrow> etcd \<Rightarrow> nat \<times> etcd" where
  "grant holder db =
     (let l = ek_nextLease db in
      (l, db \<lparr>ek_leases := l # ek_leases db, ek_nextLease := Suc l, ek_granted := (ek_granted db)(l := holder)\<rparr>))"

definition end_lease :: "nat \<Rightarrow> etcd \<Rightarrow> etcd" where
  "end_lease l db =
     db \<lparr>ek_kvs := filter (\<lambda>(_, x). kv_lease x = 0 \<or> kv_lease x \<noteq> l) (ek_kvs db),
         ek_leases := filter (\<lambda>m. m \<noteq> l) (ek_leases db),
         ek_rev := (if list_ex (\<lambda>(_, x). kv_lease x \<noteq> 0 \<and> kv_lease x = l) (ek_kvs db) then Suc (ek_rev db) else ek_rev db)\<rparr>"

section \<open>Transactions\<close>

text \<open>A missing key compares with revision and lease 0 and with no value at all.\<close>

datatype etcd_cmp = CreateRevision etcd_key nat | CreatePositive etcd_key | ValueIs etcd_key etcd_val
  | LeaseIs etcd_key nat | ModRevision etcd_key nat

fun holds :: "etcd \<Rightarrow> etcd_cmp \<Rightarrow> bool" where
  "holds db (CreateRevision k n) = ((case get db k of None \<Rightarrow> 0 | Some x \<Rightarrow> kv_create x) = n)"
| "holds db (CreatePositive k) = (case get db k of None \<Rightarrow> False | Some x \<Rightarrow> kv_create x > 0)"
| "holds db (ValueIs k v) = (case get db k of None \<Rightarrow> False | Some x \<Rightarrow> kv_value x = v)"
| "holds db (LeaseIs k l) = ((case get db k of None \<Rightarrow> 0 | Some x \<Rightarrow> kv_lease x) = l)"
| "holds db (ModRevision k n) = ((case get db k of None \<Rightarrow> 0 | Some x \<Rightarrow> kv_mod x) = n)"

datatype etcd_op = OpPut etcd_key etcd_val nat | OpDelete etcd_key | OpGet etcd_key
  | OpTxn "etcd_cmp list" "etcd_op list" "etcd_op list"

datatype etcd_resp = RespPut | RespDelete | RespGet "kv option" | RespTxn bool "etcd_resp list"

text \<open>\<open>None\<close> is the error of a put on a lease that does not exist; it undoes the whole transaction.\<close>

fun exec_op :: "nat \<Rightarrow> etcd_op \<Rightarrow> etcd \<Rightarrow> (etcd_resp \<times> etcd) option"
and exec_ops :: "nat \<Rightarrow> etcd_op list \<Rightarrow> etcd \<Rightarrow> (etcd_resp list \<times> etcd) option" where
  "exec_op rv (OpPut k v l) db =
     (if l \<noteq> 0 \<and> l \<notin> set (ek_leases db) then None else Some (RespPut, put rv k v l db))"
| "exec_op rv (OpDelete k) db = Some (RespDelete, del rv k db)"
| "exec_op rv (OpGet k) db = Some (RespGet (get db k), db)"
| "exec_op rv (OpTxn cmps thens elses) db =
     (if list_all (holds db) cmps
      then map_option (\<lambda>(rs, db'). (RespTxn True rs, db')) (exec_ops rv thens db)
      else map_option (\<lambda>(rs, db'). (RespTxn False rs, db')) (exec_ops rv elses db))"
| "exec_ops rv [] db = Some ([], db)"
| "exec_ops rv (op # ops) db =
     (case exec_op rv op db of None \<Rightarrow> None
      | Some (r, db1) \<Rightarrow> map_option (\<lambda>(rs, db2). (r # rs, db2)) (exec_ops rv ops db1))"

record txn_resp =
  tr_succeeded :: bool
  tr_responses :: "etcd_resp list"
  tr_revision :: nat

definition txn :: "etcd_cmp list \<Rightarrow> etcd_op list \<Rightarrow> etcd_op list \<Rightarrow> etcd \<Rightarrow> (txn_resp \<times> etcd) option" where
  "txn cmps thens elses db =
     (let b = list_all (holds db) cmps in
      map_option (\<lambda>(rs, db'). (\<lparr>tr_succeeded = b, tr_responses = rs, tr_revision = ek_rev db'\<rparr>, db'))
        (exec_ops (Suc (ek_rev db)) (if b then thens else elses) db))"

definition inner_get :: "txn_resp \<Rightarrow> kv option" where
  "inner_get t = (case tr_responses t of RespTxn _ [RespGet x] # _ \<Rightarrow> x | _ \<Rightarrow> None)"

definition inner_succeeded :: "txn_resp \<Rightarrow> bool" where
  "inner_succeeded t = (case tr_responses t of RespTxn b _ # _ \<Rightarrow> b | _ \<Rightarrow> False)"

section \<open>Calls\<close>

text \<open>What happens to one request besides the request: the changes others make before it, and whether
  it runs, never arrives or runs with its answer lost.\<close>

datatype call_fate = CallRuns | CallFails | CallLost

record etcd_call =
  ec_others :: "etcd \<Rightarrow> etcd"
  ec_fate :: call_fate

definition ecall :: "etcd_call \<Rightarrow> (etcd \<Rightarrow> ('a \<times> etcd) option) \<Rightarrow> etcd \<Rightarrow> 'a option \<times> etcd" where
  "ecall c f db =
     (let db0 = ec_others c db in
      case ec_fate c of CallFails \<Rightarrow> (None, db0)
      | fate \<Rightarrow> (case f db0 of None \<Rightarrow> (None, db0)
                 | Some (a, db1) \<Rightarrow> (if fate = CallRuns then Some a else None, db1)))"

definition Get :: "etcd_key \<Rightarrow> etcd \<Rightarrow> ((kv option \<times> nat) \<times> etcd) option" where
  "Get k db = Some ((get db k, ek_rev db), db)"

definition GetAll :: "etcd \<Rightarrow> ((etcd_key \<times> kv) list \<times> etcd) option" where
  "GetAll db = Some (ek_kvs db, db)"

definition Grant :: "string \<Rightarrow> etcd \<Rightarrow> (nat \<times> etcd) option" where
  "Grant holder db = Some (grant holder db)"

definition Revoke :: "nat \<Rightarrow> etcd \<Rightarrow> (unit \<times> etcd) option" where
  "Revoke l db = (if l \<in> set (ek_leases db) then Some ((), end_lease l db) else None)"

definition TimeToLive :: "nat \<Rightarrow> etcd \<Rightarrow> (bool \<times> etcd) option" where
  "TimeToLive l db = Some (l \<in> set (ek_leases db), db)"

definition KeepAlive :: "nat \<Rightarrow> etcd \<Rightarrow> (unit \<times> etcd) option" where
  "KeepAlive l db = Some ((), db)"

end
