(* ===== verification/Allocator.thy ===== *)
theory Allocator
  imports AllocEtcd
begin

text \<open>
  The worker-id allocator (\<open>allocator.go\<close>, \<open>cache.go\<close>): claiming a slot, the handle with its watermark
  writes, reclaiming, the local cache and the graceful close.  Every operation threads a \<open>world\<close>: the
  etcd store, the cache file of the process, and how many requests, clock readings and file writes it
  has made; \<open>alloc_env\<close> says what each of them meets.  Log lines are left out.  A context that ends the
  claiming loop is the number of rounds it allows.
\<close>

section \<open>Options\<close>

datatype alloc_error = ErrNoSlotAvailable | ErrInvalidOptions | ErrEtcd | ErrCtx | ErrFloorUnreadable | ErrLayout | ErrPanic

record Options =
  op_LeaseTTL :: int
  op_ClusterID :: u32
  op_ClusterBits :: u64
  op_SlotBits :: u64
  op_MaxSlot :: u64
  op_Quarantine :: int
  op_FenceAfter :: int
  op_CachePath :: string
  op_LegacyPrefix :: string

record resolvedOptions =
  ro_ttl :: int
  ro_cluster :: u32
  ro_clusterBits :: u64
  ro_slotBits :: u64
  ro_maxSlot :: u64
  ro_quarantine :: int
  ro_fenceAfter :: int
  ro_cachePath :: string
  ro_legacy :: string

definition defaultLeaseTTL :: int where "defaultLeaseTTL = 60"
definition defaultQuarantine :: int where "defaultQuarantine = 4 * 3600 * 1000000000"
definition defaultFenceAfter :: int where "defaultFenceAfter = 2 * 3600 * 1000000000"

definition resolve :: "Options \<Rightarrow> alloc_error + resolvedOptions" where
  "resolve opts =
     (let ttl = (if op_LeaseTTL opts \<le> 0 then defaultLeaseTTL else op_LeaseTTL opts);
          cb = (if op_ClusterBits opts = 0 then ClusterBits else op_ClusterBits opts);
          sb = (if op_SlotBits opts = 0 then SlotBits else op_SlotBits opts) in
      if cb + sb > 63 then Inl ErrInvalidOptions
      else if ucast (op_ClusterID opts) > push_bit (unat cb) (1 :: u64) - 1 then Inl ErrInvalidOptions
      else
        let slotCap = push_bit (unat sb) 1 - 1;
            ms = (if op_MaxSlot opts = 0 then slotCap else op_MaxSlot opts) in
        if ms > slotCap then Inl ErrInvalidOptions
        else
          let q = (if op_Quarantine opts \<le> 0 then defaultQuarantine else op_Quarantine opts);
              f = (if op_FenceAfter opts \<le> 0 then defaultFenceAfter else op_FenceAfter opts) in
          if f > q div 2 then Inl ErrInvalidOptions
          else Inr \<lparr>ro_ttl = ttl, ro_cluster = op_ClusterID opts, ro_clusterBits = cb, ro_slotBits = sb, ro_maxSlot = ms,
                    ro_quarantine = q, ro_fenceAfter = f, ro_cachePath = op_CachePath opts, ro_legacy = op_LegacyPrefix opts\<rparr>)"

definition legacyMirror :: "resolvedOptions \<Rightarrow> bool" where
  "legacyMirror r \<longleftrightarrow> ro_cluster r = 0 \<and> ro_legacy r \<noteq> ''''"

section \<open>World\<close>

record cacheRecord =
  ca_kind :: string
  ca_cluster :: u32
  ca_slot :: u64
  ca_uuid :: string
  ca_incarnation :: nat
  ca_lastWatermark :: u64
  ca_lastWatermarkMs :: u64
  ca_localHighWaterSec :: u64
  ca_localHighWaterMs :: u64
  ca_lastAckWall :: int

record alloc_env =
  ae_calls :: "nat \<Rightarrow> etcd_call"
  ae_clock :: "nat \<Rightarrow> reading"
  ae_diskOk :: "nat \<Rightarrow> bool"

record world =
  wo_etcd :: etcd
  wo_calls :: nat
  wo_reads :: nat
  wo_disk :: "cacheRecord option"
  wo_writes :: nat

definition request :: "alloc_env \<Rightarrow> (etcd \<Rightarrow> ('a \<times> etcd) option) \<Rightarrow> world \<Rightarrow> 'a option \<times> world" where
  "request env f w =
     (case ecall (ae_calls env (wo_calls w)) f (wo_etcd w) of
        (a, db) \<Rightarrow> (a, w \<lparr>wo_etcd := db, wo_calls := Suc (wo_calls w)\<rparr>))"

definition read_clock :: "alloc_env \<Rightarrow> world \<Rightarrow> reading \<times> world" where
  "read_clock env w = (ae_clock env (wo_reads w), w \<lparr>wo_reads := Suc (wo_reads w)\<rparr>)"

definition readCacheFile :: "world \<Rightarrow> cacheRecord option" where
  "readCacheFile w =
     (case wo_disk w of None \<Rightarrow> None
      | Some c \<Rightarrow> if ca_uuid c = '''' \<or> ca_kind c = '''' then None else Some c)"

definition writeCacheFile :: "alloc_env \<Rightarrow> cacheRecord \<Rightarrow> world \<Rightarrow> bool \<times> world" where
  "writeCacheFile env c w =
     (let ok = ae_diskOk env (wo_writes w); w1 = w \<lparr>wo_writes := Suc (wo_writes w)\<rparr> in
      (ok, if ok then w1 \<lparr>wo_disk := Some c\<rparr> else w1))"

section \<open>Reading slots and watermarks\<close>

definition scanUsedSlots :: "alloc_env \<Rightarrow> resolvedOptions \<Rightarrow> world \<Rightarrow> (u64 \<Rightarrow> bool) option \<times> world" where
  "scanUsedSlots env r w =
     (case request env GetAll w of (None, w1) \<Rightarrow> (None, w1)
      | (Some kvs, w1) \<Rightarrow>
        let used = (\<lambda>s. list_ex (\<lambda>(k, _). k = slotKey s) kvs) in
        if ro_cluster r \<noteq> 0 \<or> ro_legacy r = '''' then (Some used, w1)
        else (case request env GetAll w1 of (None, w2) \<Rightarrow> (None, w2)
          | (Some ids, w2) \<Rightarrow>
            (case request env GetAll w2 of (None, w3) \<Rightarrow> (None, w3)
             | (Some nodes, w3) \<Rightarrow>
               (Some (\<lambda>s. used s \<or> list_ex (\<lambda>(k, _). k = legacyIDKey s) ids \<or>
                  list_ex (\<lambda>(k, x). (case k of legacyNodeKey _ \<Rightarrow> kv_value x = Dec s | _ \<Rightarrow> False)) nodes), w3))))"

fun watermark_slot :: "etcd_key \<Rightarrow> u64 option" where
  "watermark_slot (watermarkKey s) = Some s"
| "watermark_slot _ = None"

fun legacyGuard_slot :: "etcd_key \<Rightarrow> u64 option" where
  "legacyGuard_slot (legacyGuardKey s) = Some s"
| "legacyGuard_slot _ = None"

fun legacyGuardMs_slot :: "etcd_key \<Rightarrow> u64 option" where
  "legacyGuardMs_slot (legacyGuardMsKey s) = Some s"
| "legacyGuardMs_slot _ = None"

definition sec_pairs :: "(etcd_key \<Rightarrow> u64 option) \<Rightarrow> u64 \<Rightarrow> (etcd_key \<times> kv) list \<Rightarrow> (u64 \<times> u64) list" where
  "sec_pairs family divisor kvs =
     List.map_filter (\<lambda>(k, x). case (family k, kv_value x) of (Some s, Dec v) \<Rightarrow> Some (s, v div divisor) | _ \<Rightarrow> None) kvs"

definition scanSecMap ::
  "alloc_env \<Rightarrow> (etcd_key \<Rightarrow> u64 option) \<Rightarrow> u64 \<Rightarrow> world \<Rightarrow> (u64 \<times> u64) list option \<times> world" where
  "scanSecMap env family divisor w =
     (case request env GetAll w of (None, w1) \<Rightarrow> (None, w1)
      | (Some kvs, w1) \<Rightarrow> (Some (sec_pairs family divisor kvs), w1))"

definition since_epoch :: "(u64 \<times> u64) list \<Rightarrow> (u64 \<times> u64) list" where
  "since_epoch ps = map (\<lambda>(s, v). (s, v - Epoch)) (filter (\<lambda>(s, v). v > Epoch) ps)"

definition scanWatermarks :: "alloc_env \<Rightarrow> resolvedOptions \<Rightarrow> world \<Rightarrow> (u64 \<rightharpoonup> u64) option \<times> world" where
  "scanWatermarks env r w =
     (case scanSecMap env watermark_slot 1 w of (None, w1) \<Rightarrow> (None, w1)
      | (Some ps, w1) \<Rightarrow>
        if ro_cluster r \<noteq> 0 \<or> ro_legacy r = '''' then (Some (map_of ps), w1)
        else (case scanSecMap env legacyGuard_slot 1 w1 of (None, w2) \<Rightarrow> (None, w2)
          | (Some legacySec, w2) \<Rightarrow>
            (case scanSecMap env legacyGuardMs_slot 1000 w2 of (None, w3) \<Rightarrow> (None, w3)
             | (Some legacyMs, w3) \<Rightarrow>
               (Some (mergeWatermarks (Some (mergeWatermarks (Some (map_of ps)) legacySec)) (since_epoch legacyMs)), w3))))"

definition readUintRev :: "alloc_env \<Rightarrow> etcd_key \<Rightarrow> world \<Rightarrow> (u64 \<times> nat) option \<times> world" where
  "readUintRev env k w =
     (case request env (Get k) w of (None, w1) \<Rightarrow> (None, w1)
      | (Some (None, _), w1) \<Rightarrow> (Some (0, 0), w1)
      | (Some (Some x, _), w1) \<Rightarrow>
          (case kv_value x of Dec v \<Rightarrow> (Some (v, kv_mod x), w1) | Text _ \<Rightarrow> (None, w1)))"

definition readUint :: "alloc_env \<Rightarrow> etcd_key \<Rightarrow> world \<Rightarrow> u64 option \<times> world" where
  "readUint env k w = (case readUintRev env k w of (a, w1) \<Rightarrow> (map_option fst a, w1))"

definition readWatermarkFloor :: "alloc_env \<Rightarrow> resolvedOptions \<Rightarrow> u64 \<Rightarrow> world \<Rightarrow> (u64 \<times> nat) option \<times> world" where
  "readWatermarkFloor env r slot w =
     (case readUintRev env (watermarkKey slot) w of (None, w1) \<Rightarrow> (None, w1)
      | (Some (floor, rv), w1) \<Rightarrow>
        if ro_cluster r = 0 \<and> ro_legacy r \<noteq> ''''
        then (case readUint env (legacyGuardKey slot) w1 of (None, w2) \<Rightarrow> (None, w2)
              | (Some legacy, w2) \<Rightarrow> (Some (if legacy > floor then legacy else floor, rv), w2))
        else (Some (floor, rv), w1))"

definition watermarkFloorReadAttempts :: nat where "watermarkFloorReadAttempts = 3"

fun floor_attempts :: "nat \<Rightarrow> alloc_env \<Rightarrow> resolvedOptions \<Rightarrow> u64 \<Rightarrow> world \<Rightarrow> (u64 \<times> nat) option \<times> world" where
  "floor_attempts 0 env r slot w = (None, w)"
| "floor_attempts (Suc n) env r slot w =
     (case readWatermarkFloor env r slot w of (Some x, w1) \<Rightarrow> (Some x, w1)
      | (None, w1) \<Rightarrow> floor_attempts n env r slot w1)"

definition readWatermarkFloorRetry :: "alloc_env \<Rightarrow> resolvedOptions \<Rightarrow> u64 \<Rightarrow> world \<Rightarrow> (u64 \<times> nat) option \<times> world" where
  "readWatermarkFloorRetry env r slot w = floor_attempts watermarkFloorReadAttempts env r slot w"

section \<open>Claiming a slot\<close>

record claim =
  cl_lease :: nat
  cl_slot :: u64
  cl_uuid :: string
  cl_incarnation :: nat
  cl_reused :: bool

text \<open>The six comparisons and the operations of the reuse transaction.\<close>

definition reuse_cmps :: "string \<Rightarrow> u64 \<Rightarrow> nat \<Rightarrow> etcd_val \<Rightarrow> etcd_cmp list" where
  "reuse_cmps host slot predLease predUUID =
     [ValueIs (affinityKey host) (Dec slot), LeaseIs (affinityKey host) predLease,
      CreatePositive (releasedKey host), LeaseIs (releasedKey host) predLease,
      ValueIs (slotKey slot) predUUID, LeaseIs (slotKey slot) predLease]"

definition reuse_ops :: "resolvedOptions \<Rightarrow> string \<Rightarrow> u64 \<Rightarrow> string \<Rightarrow> nat \<Rightarrow> etcd_op list" where
  "reuse_ops r host slot uuid lease =
     [OpPut (slotKey slot) (Text uuid) lease, OpPut (affinityKey host) (Dec slot) lease, OpDelete (releasedKey host)] @
     (if legacyMirror r then [OpPut (legacyIDKey slot) (Text host) lease] else [])"

definition tryReuse ::
  "alloc_env \<Rightarrow> string \<Rightarrow> string \<Rightarrow> nat \<Rightarrow> resolvedOptions \<Rightarrow> world \<Rightarrow> (alloc_error + claim option) \<times> world" where
  "tryReuse env host uuid lease r w =
     (case request env (txn [] [OpGet (affinityKey host), OpGet (releasedKey host)] []) w of
        (None, w1) \<Rightarrow> (Inl ErrEtcd, w1)
      | (Some rd, w1) \<Rightarrow>
        (case tr_responses rd of
           [RespGet (Some a), RespGet (Some m)] \<Rightarrow>
             let predLease = kv_lease a in
             if predLease = 0 \<or> kv_lease m \<noteq> predLease then (Inr None, w1)
             else (case kv_value a of Text _ \<Rightarrow> (Inr None, w1)
               | Dec slot \<Rightarrow>
                 if slot > ro_maxSlot r then (Inr None, w1)
                 else (case request env (Get (slotKey slot)) w1 of
                     (None, w2) \<Rightarrow> (Inl ErrEtcd, w2)
                   | (Some (None, _), w2) \<Rightarrow> (Inr None, w2)
                   | (Some (Some s, _), w2) \<Rightarrow>
                     if kv_lease s \<noteq> predLease then (Inr None, w2)
                     else (case request env (txn (reuse_cmps host slot predLease (kv_value s))
                                                (reuse_ops r host slot uuid lease) []) w2 of
                         (None, w3) \<Rightarrow> (Inl ErrEtcd, w3)
                       | (Some t, w3) \<Rightarrow>
                         if \<not> tr_succeeded t then (Inr None, w3)
                         else (Inr (Some \<lparr>cl_lease = lease, cl_slot = slot, cl_uuid = uuid,
                                          cl_incarnation = tr_revision t, cl_reused = True\<rparr>), w3))))
         | _ \<Rightarrow> (Inr None, w1)))"

definition claim_cmps :: "resolvedOptions \<Rightarrow> u64 \<Rightarrow> etcd_cmp list" where
  "claim_cmps r slot =
     CreateRevision (slotKey slot) 0 # (if legacyMirror r then [CreateRevision (legacyIDKey slot) 0] else [])"

definition claim_ops :: "resolvedOptions \<Rightarrow> string \<Rightarrow> u64 \<Rightarrow> string \<Rightarrow> nat \<Rightarrow> etcd_op list" where
  "claim_ops r host slot uuid lease =
     [OpPut (slotKey slot) (Text uuid) lease, OpPut (affinityKey host) (Dec slot) lease] @
     (if legacyMirror r then [OpPut (legacyIDKey slot) (Text host) lease] else [])"

definition revoke :: "alloc_env \<Rightarrow> nat \<Rightarrow> world \<Rightarrow> world" where
  "revoke env l w = snd (request env (Revoke l) w)"

definition lookup0 :: "(u64 \<rightharpoonup> u64) \<Rightarrow> u64 \<Rightarrow> u64" where
  "lookup0 m s = (case m s of None \<Rightarrow> 0 | Some v \<Rightarrow> v)"

fun claim_loop ::
  "nat \<Rightarrow> alloc_env \<Rightarrow> string \<Rightarrow> string \<Rightarrow> nat \<Rightarrow> resolvedOptions \<Rightarrow> world \<Rightarrow> (alloc_error + claim) \<times> world" where
  "claim_loop 0 env host uuid lease r w = (Inl ErrCtx, revoke env lease w)"
| "claim_loop (Suc left) env host uuid lease r w =
     (case scanUsedSlots env r w of (None, w1) \<Rightarrow> (Inl ErrEtcd, revoke env lease w1)
      | (Some used, w1) \<Rightarrow>
        (case scanWatermarks env r w1 of (None, w2) \<Rightarrow> (Inl ErrEtcd, revoke env lease w2)
         | (Some wm, w2) \<Rightarrow>
           (case read_clock env w2 of (rd, w3) \<Rightarrow>
            (case selectSlot used (lookup0 wm) (NowEpochSec rd) (word_of_int (ro_quarantine r div 1000000000)) (ro_maxSlot r) of
               (slot, ok) \<Rightarrow>
               if \<not> ok then (Inl ErrNoSlotAvailable, revoke env lease w3)
               else (case request env (txn (claim_cmps r slot) (claim_ops r host slot uuid lease) []) w3 of
                   (None, w4) \<Rightarrow> (Inl ErrEtcd, revoke env lease w4)
                 | (Some t, w4) \<Rightarrow>
                   if tr_succeeded t
                   then (Inr \<lparr>cl_lease = lease, cl_slot = slot, cl_uuid = uuid, cl_incarnation = tr_revision t,
                              cl_reused = False\<rparr>, w4)
                   else claim_loop left env host uuid lease r w4)))))"

definition allocate ::
  "nat \<Rightarrow> alloc_env \<Rightarrow> string \<Rightarrow> string \<Rightarrow> string \<Rightarrow> resolvedOptions \<Rightarrow> world \<Rightarrow> (alloc_error + claim) \<times> world" where
  "allocate rounds env kind host uuid r w =
     (if kind = '''' \<or> CHR ''/'' \<in> set kind \<or> CHR '' '' \<in> set kind then (Inl ErrInvalidOptions, w)
      else if host = '''' \<or> CHR ''/'' \<in> set host then (Inl ErrInvalidOptions, w)
      else case request env (Grant uuid) w of (None, w1) \<Rightarrow> (Inl ErrEtcd, w1)
      | (Some lease, w1) \<Rightarrow>
        (case tryReuse env host uuid lease r w1 of
           (Inl e, w2) \<Rightarrow> (Inl e, revoke env lease w2)
         | (Inr (Some c), w2) \<Rightarrow> (Inr c, w2)
         | (Inr None, w2) \<Rightarrow> claim_loop rounds env host uuid lease r w2))"

section \<open>The handle\<close>

text \<open>The fence clock is shared with the node: an acknowledgement reaches the copy the node has.\<close>

record Handle =
  h_kind :: string
  h_slot :: u64
  h_worker :: u64
  h_uuid :: string
  h_guardEpochSec :: u64
  h_r :: resolvedOptions
  h_host :: string
  h_lease :: nat
  h_incarnation :: nat
  h_registered :: bool
  h_needReclaim :: bool
  h_fence :: FenceClock
  h_guardWritten :: u64
  h_guardRev :: nat
  h_msWritten :: u64
  h_msRev :: nat
  h_cache :: cacheRecord
  h_cacheDirty :: bool
  h_cacheWrittenInc :: nat
  h_watermarkDegraded :: bool
  h_node :: "Node option"
  h_closing :: bool
  h_lost :: bool

definition guardLeadSec :: u64 where "guardLeadSec = 2"

definition newHandle ::
  "alloc_env \<Rightarrow> string \<Rightarrow> string \<Rightarrow> resolvedOptions \<Rightarrow> u64 \<Rightarrow> u64 \<Rightarrow> string \<Rightarrow> world \<Rightarrow> Handle option \<times> world" where
  "newHandle env kind host r worker slot uuid w =
     (case read_clock env w of (origin, w1) \<Rightarrow>
      (map_option (\<lambda>fence.
         \<lparr>h_kind = kind, h_slot = slot, h_worker = worker, h_uuid = uuid, h_guardEpochSec = 0, h_r = r, h_host = host,
          h_lease = 0, h_incarnation = 0, h_registered = False, h_needReclaim = False, h_fence = fence,
          h_guardWritten = 0, h_guardRev = 0, h_msWritten = 0, h_msRev = 0,
          h_cache = \<lparr>ca_kind = kind, ca_cluster = ro_cluster r, ca_slot = slot, ca_uuid = uuid, ca_incarnation = 0,
                     ca_lastWatermark = 0, ca_lastWatermarkMs = 0, ca_localHighWaterSec = 0, ca_localHighWaterMs = 0,
                     ca_lastAckWall = 0\<rparr>,
          h_cacheDirty = False, h_cacheWrittenInc = 0, h_watermarkDegraded = False, h_node = None,
          h_closing = False, h_lost = False\<rparr>) (NewFenceClock (ro_fenceAfter r) origin), w1))"

definition fenceAll :: "Handle \<Rightarrow> world \<Rightarrow> Handle \<times> world" where
  "fenceAll h w =
     (h \<lparr>h_node := map_option Fence (h_node h)\<rparr>,
      w \<lparr>wo_etcd := (wo_etcd w) \<lparr>ek_fenced := h_uuid h # ek_fenced (wo_etcd w)\<rparr>\<rparr>)"

definition markLost :: "Handle \<Rightarrow> world \<Rightarrow> Handle \<times> world" where
  "markLost h w =
     (if h_lost h then (h, w) else case fenceAll h w of (h1, w1) \<Rightarrow> (h1 \<lparr>h_lost := True\<rparr>, w1))"

definition onOwnershipLost :: "Handle \<Rightarrow> world \<Rightarrow> Handle \<times> world" where
  "onOwnershipLost h w = (if h_closing h then (h, w) else markLost h w)"

section \<open>The local cache\<close>

definition writeCacheLocked :: "alloc_env \<Rightarrow> Handle \<Rightarrow> world \<Rightarrow> Handle \<times> world" where
  "writeCacheLocked env h w =
     (case writeCacheFile env (h_cache h) w of (ok, w1) \<Rightarrow>
        if \<not> ok then (h, w1)
        else (h \<lparr>h_cacheDirty := False, h_cacheWrittenInc := ca_incarnation (h_cache h)\<rparr>, w1))"

definition flushCacheLocked :: "alloc_env \<Rightarrow> Handle \<Rightarrow> world \<Rightarrow> Handle \<times> world" where
  "flushCacheLocked env h w =
     (if ro_cachePath (h_r h) = '''' \<or> \<not> h_cacheDirty h then (h, w) else writeCacheLocked env h w)"

definition noteLocalHighWaterLocked :: "alloc_env \<Rightarrow> u64 \<Rightarrow> u64 \<Rightarrow> Handle \<Rightarrow> world \<Rightarrow> Handle \<times> world" where
  "noteLocalHighWaterLocked env sec ms h w =
     (if ro_cachePath (h_r h) = '''' then (h, w)
      else
        let c = h_cache h; s = sec > ca_localHighWaterSec c; m = ms > ca_localHighWaterMs c;
            c1 = (if s then c \<lparr>ca_localHighWaterSec := sec\<rparr> else c);
            c2 = (if m then c1 \<lparr>ca_localHighWaterMs := ms\<rparr> else c1) in
        if \<not> (s \<or> m) then (h, w)
        else let h1 = h \<lparr>h_cache := c2, h_cacheDirty := True\<rparr> in
          if h_watermarkDegraded h then writeCacheLocked env h1 w else (h1, w))"

definition noteWatermarkWriteFailedLocked :: "alloc_env \<Rightarrow> Handle \<Rightarrow> world \<Rightarrow> Handle \<times> world" where
  "noteWatermarkWriteFailedLocked env h w = flushCacheLocked env (h \<lparr>h_watermarkDegraded := True\<rparr>) w"

definition ackLocked :: "alloc_env \<Rightarrow> Handle \<Rightarrow> world \<Rightarrow> Handle \<times> world" where
  "ackLocked env h w =
     (case read_clock env w of (r1, w1) \<Rightarrow> (case read_clock env w1 of (r2, w2) \<Rightarrow>
      let h1 = h \<lparr>h_fence := Ack (h_fence h) r1 r2, h_node := map_option (atomic_step (AAck r1 r2)) (h_node h),
                  h_watermarkDegraded := False\<rparr> in
      if ro_cachePath (h_r h) = '''' then (h1, w2)
      else
        let h2 = h1 \<lparr>h_cache := (h_cache h1) \<lparr>ca_incarnation := h_incarnation h1, ca_lastWatermark := h_guardWritten h1,
                       ca_lastWatermarkMs := h_msWritten h1,
                       ca_lastAckWall := gt_wall (LastAckWall (h_fence h1)) div 1000000\<rparr>, h_cacheDirty := True\<rparr> in
        if h_incarnation h2 \<noteq> h_cacheWrittenInc h2 then writeCacheLocked env h2 w2 else (h2, w2)))"

definition floorFromCache :: "Handle \<Rightarrow> u64 \<Rightarrow> world \<Rightarrow> u64" where
  "floorFromCache h slot w =
     (if ro_cachePath (h_r h) = '''' then 0
      else case readCacheFile w of None \<Rightarrow> 0
        | Some c \<Rightarrow>
          if ca_kind c \<noteq> h_kind h \<or> ca_cluster c \<noteq> ro_cluster (h_r h) \<or> ca_slot c \<noteq> slot then 0
          else if ca_localHighWaterSec c > ca_lastWatermark c then ca_localHighWaterSec c else ca_lastWatermark c)"

section \<open>Watermarks\<close>

datatype put_result = PutErr | PutNotOwned | PutOk u64

definition put_ops :: "etcd_key \<Rightarrow> etcd_key option \<Rightarrow> u64 \<Rightarrow> etcd_op list" where
  "put_ops k legacy target =
     OpPut k (Dec target) 0 # (case legacy of None \<Rightarrow> [] | Some lk \<Rightarrow> [OpPut lk (Dec target) 0])"

fun put_attempts ::
  "nat \<Rightarrow> alloc_env \<Rightarrow> Handle \<Rightarrow> etcd_key \<Rightarrow> etcd_key option \<Rightarrow> u64 \<Rightarrow> nat \<Rightarrow> world \<Rightarrow> put_result \<times> nat \<times> world" where
  "put_attempts 0 env h k legacy target rv w = (PutErr, rv, w)"
| "put_attempts (Suc left) env h k legacy target rv w =
     (case request env (txn [ValueIs (slotKey (h_slot h)) (Text (h_uuid h))]
                            [OpTxn [ModRevision k rv] (put_ops k legacy target) [OpGet k]] []) w of
        (None, w1) \<Rightarrow> (PutErr, rv, w1)
      | (Some t, w1) \<Rightarrow>
        if \<not> tr_succeeded t then (PutNotOwned, rv, w1)
        else if inner_succeeded t then (PutOk target, tr_revision t, w1)
        else case inner_get t of None \<Rightarrow> put_attempts left env h k legacy target 0 w1
          | Some x \<Rightarrow>
            (case kv_value x of Text _ \<Rightarrow> (PutErr, kv_mod x, w1)
             | Dec stored \<Rightarrow>
               if stored \<ge> target then (PutOk stored, kv_mod x, w1)
               else put_attempts left env h k legacy target (kv_mod x) w1))"

definition putWatermarkLocked ::
  "alloc_env \<Rightarrow> Handle \<Rightarrow> etcd_key \<Rightarrow> etcd_key option \<Rightarrow> u64 \<Rightarrow> nat \<Rightarrow> world \<Rightarrow> put_result \<times> nat \<times> world" where
  "putWatermarkLocked env h k legacy target rv w = put_attempts 2 env h k legacy target rv w"

definition guard_target :: "Handle \<Rightarrow> reading \<Rightarrow> u64" where
  "guard_target h rd =
     (let now = NowEpochSec rd;
          t = (case h_node h of None \<Rightarrow> now | Some n \<Rightarrow> if HighWaterEpochSec n > now then HighWaterEpochSec n else now);
          t1 = t + guardLeadSec in
      if t1 < h_guardWritten h then h_guardWritten h else t1)"

definition advanceGuard :: "alloc_env \<Rightarrow> Handle \<Rightarrow> world \<Rightarrow> bool \<times> Handle \<times> world" where
  "advanceGuard env h w =
     (case read_clock env w of (rd, w1) \<Rightarrow>
      let target = guard_target h rd in
      (case noteLocalHighWaterLocked env target 0 h w1 of (h1, w2) \<Rightarrow>
       let legacy = (if legacyMirror (h_r h) then Some (legacyGuardKey (h_slot h)) else None) in
       (case putWatermarkLocked env h1 (watermarkKey (h_slot h)) legacy target (h_guardRev h1) w2 of (res, rv, w3) \<Rightarrow>
        let h2 = h1 \<lparr>h_guardRev := rv\<rparr> in
        (case res of
           PutErr \<Rightarrow> (False, noteWatermarkWriteFailedLocked env h2 w3)
         | PutNotOwned \<Rightarrow> (False, noteWatermarkWriteFailedLocked env (h2 \<lparr>h_needReclaim := True\<rparr>) w3)
         | PutOk persisted \<Rightarrow>
             let h3 = (if persisted > target
                       then h2 \<lparr>h_node := map_option (\<lambda>n. SetGuardTime n persisted) (h_node h2)\<rparr> else h2) in
             (True, ackLocked env (h3 \<lparr>h_guardWritten := persisted\<rparr>) w3)))))"

definition Handle_NewNode :: "alloc_env \<Rightarrow> Handle \<Rightarrow> world \<Rightarrow> (Node option \<times> Handle) \<times> world" where
  "Handle_NewNode env h w =
     (case read_clock env w of (r1, w1) \<Rightarrow> (case read_clock env w1 of (r2, w2) \<Rightarrow>
      (case NewNode (h_worker h) r1 r2 of None \<Rightarrow> ((None, h), w2)
       | Some n \<Rightarrow>
         let floor = (if h_guardWritten h > h_guardEpochSec h then h_guardWritten h else h_guardEpochSec h);
             n1 = (if floor > 0 then SetGuardTime n floor else n);
             n2 = SetFenceClock n1 (Some (h_fence h)) in
         (case advanceGuard env (h \<lparr>h_node := Some n2\<rparr>) w2 of (_, h1, w3) \<Rightarrow> ((h_node h1, h1), w3)))))"

definition SyncWatermark :: "alloc_env \<Rightarrow> Handle \<Rightarrow> world \<Rightarrow> bool \<times> Handle \<times> world" where
  "SyncWatermark env h w =
     (case advanceGuard env h w of (_, h1, w1) \<Rightarrow>
      (case read_clock env w1 of (r1, w2) \<Rightarrow> (case read_clock env w2 of (r2, w3) \<Rightarrow>
        (\<not> fst (Stale (h_fence h1) r1 r2), h1, w3))))"

definition readMsWatermarkRaw :: "alloc_env \<Rightarrow> Handle \<Rightarrow> world \<Rightarrow> u64 option \<times> world" where
  "readMsWatermarkRaw env h w =
     (case readUint env (watermarkMsKey (h_slot h)) w of (None, w1) \<Rightarrow> (None, w1)
      | (Some ms, w1) \<Rightarrow>
        if legacyMirror (h_r h)
        then (case readUint env (legacyGuardMsKey (h_slot h)) w1 of (None, w2) \<Rightarrow> (None, w2)
              | (Some legacy, w2) \<Rightarrow> (Some (if legacy > ms then legacy else ms), w2))
        else (Some ms, w1))"

definition ReadMsWatermark :: "alloc_env \<Rightarrow> Handle \<Rightarrow> world \<Rightarrow> u64 option \<times> world" where
  "ReadMsWatermark env h w =
     (case readMsWatermarkRaw env h w of
        (None, w1) \<Rightarrow> (if \<not> h_registered h \<and> h_msWritten h > 0 then Some (h_msWritten h) else None, w1)
      | (Some ms, w1) \<Rightarrow> (Some (if h_msWritten h > ms then h_msWritten h else ms), w1))"

definition PutMsWatermark :: "alloc_env \<Rightarrow> u64 \<Rightarrow> Handle \<Rightarrow> world \<Rightarrow> bool \<times> Handle \<times> world" where
  "PutMsWatermark env ms0 h w =
     (let ms = (if ms0 < h_msWritten h then h_msWritten h else ms0) in
      (case noteLocalHighWaterLocked env 0 ms h w of (h1, w1) \<Rightarrow>
       let legacy = (if legacyMirror (h_r h) then Some (legacyGuardMsKey (h_slot h)) else None) in
       (case putWatermarkLocked env h1 (watermarkMsKey (h_slot h)) legacy ms (h_msRev h1) w1 of (res, rv, w2) \<Rightarrow>
        let h2 = h1 \<lparr>h_msRev := rv\<rparr> in
        (case res of
           PutErr \<Rightarrow> (False, noteWatermarkWriteFailedLocked env h2 w2)
         | PutNotOwned \<Rightarrow> (False, noteWatermarkWriteFailedLocked env (h2 \<lparr>h_needReclaim := True\<rparr>) w2)
         | PutOk persisted \<Rightarrow> (True, ackLocked env (h2 \<lparr>h_msWritten := persisted\<rparr>) w2)))))"

section \<open>Starting\<close>

definition cache_age :: "reading \<Rightarrow> cacheRecord \<Rightarrow> int" where
  "cache_age rd c = time_Sub (time_Now rd) (time_UnixNano (ca_lastAckWall c * 1000000))"

text \<open>The handle of a process that starts from its cache: the floor is the larger of the two recorded
  positions plus the lead.\<close>

definition boot_from_cache ::
  "alloc_env \<Rightarrow> string \<Rightarrow> string \<Rightarrow> resolvedOptions \<Rightarrow> cacheRecord \<Rightarrow> world \<Rightarrow> (alloc_error + Handle) \<times> world" where
  "boot_from_cache env kind host r c w =
     (case ComposeWorkerID (ro_cluster r) (ca_slot c) (ro_clusterBits r) (ro_slotBits r) of
        Inl _ \<Rightarrow> (Inl ErrLayout, w)
      | Inr worker \<Rightarrow>
        (case newHandle env kind host r worker (ca_slot c) (ca_uuid c) w of
           (None, w1) \<Rightarrow> (Inl ErrPanic, w1)
         | (Some h, w1) \<Rightarrow>
           (case read_clock env w1 of (r1, w2) \<Rightarrow> (case read_clock env w2 of (r2, w3) \<Rightarrow>
            let floor = (if ca_localHighWaterSec c > ca_lastWatermark c then ca_localHighWaterSec c else ca_lastWatermark c) in
            (Inr (h \<lparr>h_incarnation := ca_incarnation c, h_guardEpochSec := floor + guardLeadSec, h_guardWritten := floor,
                     h_msWritten := (if ca_localHighWaterMs c > ca_lastWatermarkMs c then ca_localHighWaterMs c
                                     else ca_lastWatermarkMs c),
                     h_cache := c,
                     h_fence := SeedAck (h_fence h) (time_UnixNano (ca_lastAckWall c * 1000000)) r1 r2,
                     h_needReclaim := True, h_watermarkDegraded := True\<rparr>), w3)))))"

definition boot_from_claim ::
  "alloc_env \<Rightarrow> string \<Rightarrow> string \<Rightarrow> resolvedOptions \<Rightarrow> claim \<Rightarrow> world \<Rightarrow> (alloc_error + Handle) \<times> world" where
  "boot_from_claim env kind host r c w =
     (case ComposeWorkerID (ro_cluster r) (cl_slot c) (ro_clusterBits r) (ro_slotBits r) of
        Inl _ \<Rightarrow> (Inl ErrLayout, revoke env (cl_lease c) w)
      | Inr worker \<Rightarrow>
        (case readWatermarkFloorRetry env r (cl_slot c) w of (fl, w1) \<Rightarrow>
         if fl = None \<and> cl_reused c then (Inl ErrFloorUnreadable, revoke env (cl_lease c) w1)
         else (case newHandle env kind host r worker (cl_slot c) (cl_uuid c) w1 of
             (None, w2) \<Rightarrow> (Inl ErrPanic, w2)
           | (Some h0, w2) \<Rightarrow>
             let h1 = h0 \<lparr>h_lease := cl_lease c, h_incarnation := cl_incarnation c, h_registered := True\<rparr>;
                 h2 = (case fl of
                         None \<Rightarrow> h1 \<lparr>h_guardEpochSec := floorFromCache h1 (cl_slot c) w2\<rparr>
                       | Some (floor, rv) \<Rightarrow> h1 \<lparr>h_guardWritten := floor, h_guardRev := rv, h_guardEpochSec := floor\<rparr>) in
             (case request env (KeepAlive (cl_lease c)) w2 of
                (None, w3) \<Rightarrow> (Inl ErrEtcd, revoke env (cl_lease c) w3)
              | (Some _, w3) \<Rightarrow>
                (case advanceGuard env h2 w3 of (_, h3, w4) \<Rightarrow> (Inr h3, w4))))))"

definition AllocateWithKeepAlive ::
  "nat \<Rightarrow> alloc_env \<Rightarrow> string \<Rightarrow> string \<Rightarrow> string \<Rightarrow> Options \<Rightarrow> world \<Rightarrow> (alloc_error + Handle) \<times> world" where
  "AllocateWithKeepAlive rounds env kind hostname uuid opts w =
     (case resolve opts of Inl e \<Rightarrow> (Inl e, w)
      | Inr r \<Rightarrow>
        (case allocate rounds env kind hostname uuid r w of
           (Inr c, w1) \<Rightarrow> boot_from_claim env kind hostname r c w1
         | (Inl e, w1) \<Rightarrow>
           if e = ErrNoSlotAvailable \<or> e = ErrInvalidOptions \<or> ro_cachePath r = '''' then (Inl e, w1)
           else case readCacheFile w1 of None \<Rightarrow> (Inl e, w1)
             | Some c \<Rightarrow>
               (case read_clock env w1 of (rd, w2) \<Rightarrow>
                let age = cache_age rd c in
                if ca_kind c \<noteq> kind \<or> ca_cluster c \<noteq> ro_cluster r \<or> ca_slot c > ro_maxSlot r \<or> age < 0 \<or> age \<ge> ro_fenceAfter r
                then (Inl e, w2)
                else boot_from_cache env kind hostname r c w2)))"

section \<open>Reclaiming\<close>

text \<open>What the loop holds besides the handle: whether it has a keep-alive stream and a watch.\<close>

record loopState =
  ls_ka :: bool
  ls_watch :: bool
  ls_ticks :: nat

definition refloorFromWatermark :: "alloc_env \<Rightarrow> Handle \<Rightarrow> world \<Rightarrow> Handle \<times> world" where
  "refloorFromWatermark env h w =
     (case readWatermarkFloor env (h_r h) (h_slot h) w of (None, w1) \<Rightarrow> (h, w1)
      | (Some (floor, rv), w1) \<Rightarrow>
        (case readMsWatermarkRaw env h w1 of (ms, w2) \<Rightarrow>
         (h \<lparr>h_guardWritten := (if floor > h_guardWritten h then floor else h_guardWritten h), h_guardRev := rv,
             h_msWritten := (case ms of None \<Rightarrow> h_msWritten h | Some m \<Rightarrow> if m > h_msWritten h then m else h_msWritten h),
             h_node := (if floor > 0 then map_option (\<lambda>n. SetGuardTime n floor) (h_node h) else h_node h)\<rparr>, w2)))"

definition reclaim_puts :: "Handle \<Rightarrow> nat \<Rightarrow> etcd_op list" where
  "reclaim_puts h lease =
     [OpPut (slotKey (h_slot h)) (Text (h_uuid h)) lease, OpPut (affinityKey (h_host h)) (Dec (h_slot h)) lease] @
     (if legacyMirror (h_r h) then [OpPut (legacyIDKey (h_slot h)) (Text (h_host h)) lease] else [])"

text \<open>The transaction did not attach the slot: look who has it.\<close>

definition reclaim_lost :: "alloc_env \<Rightarrow> nat \<Rightarrow> Handle \<Rightarrow> loopState \<Rightarrow> world \<Rightarrow> Handle \<times> loopState \<times> world" where
  "reclaim_lost env lease h st w =
     (case request env (Get (slotKey (h_slot h))) (revoke env lease w) of
        (Some (Some x, _), w1) \<Rightarrow>
          if kv_value x \<noteq> Text (h_uuid h) then (case onOwnershipLost h w1 of (h1, w2) \<Rightarrow> (h1, st, w2))
          else (h, st, w1)
      | (_, w1) \<Rightarrow> (h, st, w1))"

definition reclaim_attached ::
  "alloc_env \<Rightarrow> nat \<Rightarrow> txn_resp \<Rightarrow> Handle \<Rightarrow> loopState \<Rightarrow> world \<Rightarrow> Handle \<times> loopState \<times> world" where
  "reclaim_attached env lease t h st w =
     (let h1 = h \<lparr>h_lease := lease, h_incarnation := tr_revision t, h_needReclaim := False, h_registered := True\<rparr> in
      (case read_clock env w of (r1, w1) \<Rightarrow> (case read_clock env w1 of (r2, w2) \<Rightarrow>
       (case (if tr_succeeded t \<or> fst (Stale (h_fence h1) r1 r2) then refloorFromWatermark env h1 w2 else (h1, w2)) of
          (h2, w3) \<Rightarrow>
          (case request env (KeepAlive lease) w3 of (ka, w4) \<Rightarrow>
             (h2, st \<lparr>ls_ka := (ka \<noteq> None), ls_watch := True\<rparr>, w4))))))"

definition reclaim_attach :: "alloc_env \<Rightarrow> Handle \<Rightarrow> loopState \<Rightarrow> world \<Rightarrow> Handle \<times> loopState \<times> world" where
  "reclaim_attach env h st w =
     (case request env (Grant (h_uuid h)) w of (None, w1) \<Rightarrow> (h, st, w1)
      | (Some lease, w1) \<Rightarrow>
        let sKey = slotKey (h_slot h); puts = reclaim_puts h lease in
        (case request env (txn [CreateRevision sKey 0] puts [OpTxn [ValueIs sKey (Text (h_uuid h))] puts []]) w1 of
           (None, w2) \<Rightarrow> (h, st, revoke env lease w2)
         | (Some t, w2) \<Rightarrow>
           if \<not> tr_succeeded t \<and> \<not> inner_succeeded t then reclaim_lost env lease h st w2
           else reclaim_attached env lease t h st w2))"

definition reclaim :: "alloc_env \<Rightarrow> Handle \<Rightarrow> loopState \<Rightarrow> world \<Rightarrow> Handle \<times> loopState \<times> world" where
  "reclaim env h st w =
     (case request env (Get (slotKey (h_slot h))) w of (None, w1) \<Rightarrow> (h, st, w1)
      | (Some (None, _), w1) \<Rightarrow> reclaim_attach env h st w1
      | (Some (Some x, _), w1) \<Rightarrow>
        if kv_value x \<noteq> Text (h_uuid h) then (case onOwnershipLost h w1 of (h1, w2) \<Rightarrow> (h1, st, w2))
        else if h_lease h \<noteq> 0 \<and> kv_lease x = h_lease h
        then (case request env (TimeToLive (h_lease h)) w1 of
            (Some True, w2) \<Rightarrow>
              (case (if ls_ka st then (Some (), w2) else request env (KeepAlive (h_lease h)) w2) of (ka, w3) \<Rightarrow>
                (h \<lparr>h_needReclaim := False, h_registered := True\<rparr>,
                 st \<lparr>ls_ka := (ka \<noteq> None), ls_watch := True\<rparr>, w3))
          | (_, w2) \<Rightarrow> reclaim_attach env h st w2)
        else reclaim_attach env h st w1)"

definition rewatch :: "alloc_env \<Rightarrow> Handle \<Rightarrow> loopState \<Rightarrow> world \<Rightarrow> Handle \<times> loopState \<times> world" where
  "rewatch env h st w =
     (case request env (Get (slotKey (h_slot h))) w of
        (None, w1) \<Rightarrow> (h, st, w1)
      | (Some (Some x, _), w1) \<Rightarrow>
          if kv_value x \<noteq> Text (h_uuid h) \<or> kv_lease x \<noteq> h_lease h then (h \<lparr>h_needReclaim := True\<rparr>, st, w1)
          else (h, st \<lparr>ls_watch := True\<rparr>, w1)
      | (Some (None, _), w1) \<Rightarrow> (h \<lparr>h_needReclaim := True\<rparr>, st, w1))"

section \<open>The loop\<close>

datatype watch_event = WatchDelete | WatchPut etcd_val nat

datatype loop_event = KeepAliveMessage | KeepAliveEnded | Tick | WatchEnded | WatchEvents "watch_event list"

text \<open>The events of one watch response; the second component says that the loop returns.\<close>

fun watch_events :: "alloc_env \<Rightarrow> watch_event list \<Rightarrow> Handle \<Rightarrow> loopState \<Rightarrow> world \<Rightarrow> (Handle \<times> loopState \<times> world) \<times> bool" where
  "watch_events env [] h st w = ((h, st, w), False)"
| "watch_events env (WatchDelete # evs) h st w =
     (case reclaim env (h \<lparr>h_needReclaim := True\<rparr>) st w of (h1, st1, w1) \<Rightarrow> watch_events env evs h1 st1 w1)"
| "watch_events env (WatchPut v l # evs) h st w =
     (if v \<noteq> Text (h_uuid h) \<or> l \<noteq> h_lease h
      then (case onOwnershipLost h w of (h1, w1) \<Rightarrow> ((h1, st, w1), True))
      else watch_events env evs h st w)"

definition reclaimRetryTicks :: nat where "reclaimRetryTicks = 2"

definition run_event :: "alloc_env \<Rightarrow> loop_event \<Rightarrow> Handle \<Rightarrow> loopState \<Rightarrow> world \<Rightarrow> (Handle \<times> loopState \<times> world) \<times> bool" where
  "run_event env ev h st w =
     (case ev of
        KeepAliveMessage \<Rightarrow> ((h, st, w), h_lost h)
      | KeepAliveEnded \<Rightarrow>
          if h_closing h then ((h, st, w), True)
          else (case reclaim env (h \<lparr>h_needReclaim := True\<rparr>) (st \<lparr>ls_ka := False\<rparr>) w of (h1, st1, w1) \<Rightarrow>
                  ((h1, st1, w1), h_lost h1))
      | Tick \<Rightarrow>
          if h_closing h then ((h, st, w), True)
          else
            let st1 = st \<lparr>ls_ticks := Suc (ls_ticks st)\<rparr> in
            if h_needReclaim h
            then if ls_ticks st1 mod reclaimRetryTicks = 0
                 then (case reclaim env h st1 w of (h1, st2, w1) \<Rightarrow> ((h1, st2, w1), h_lost h1))
                 else ((h, st1, w), h_lost h)
            else (case (if ls_watch st1 then (h, st1, w) else rewatch env h st1 w) of (h1, st2, w1) \<Rightarrow>
                  (case advanceGuard env h1 w1 of (_, h2, w2) \<Rightarrow>
                   if h_needReclaim h2
                   then (case reclaim env h2 st2 w2 of (h3, st3, w3) \<Rightarrow> ((h3, st3, w3), h_lost h3))
                   else ((h2, st2, w2), h_lost h2)))
      | WatchEnded \<Rightarrow>
          if h_closing h then ((h, st, w), True) else ((h, st \<lparr>ls_watch := False\<rparr>, w), False)
      | WatchEvents evs \<Rightarrow>
          if h_closing h then ((h, st, w), True)
          else (case watch_events env evs h st w of ((h1, st1, w1), stop) \<Rightarrow> ((h1, st1, w1), stop \<or> h_lost h1)))"

text \<open>The loop over the events it meets, until it returns.\<close>

fun run :: "alloc_env \<Rightarrow> loop_event list \<Rightarrow> Handle \<Rightarrow> loopState \<Rightarrow> world \<Rightarrow> Handle \<times> loopState \<times> world" where
  "run env [] h st w = (h, st, w)"
| "run env (ev # evs) h st w =
     (case run_event env ev h st w of ((h1, st1, w1), stop) \<Rightarrow>
        if stop then (h1, st1, w1) else run env evs h1 st1 w1)"

section \<open>Close\<close>

definition release_txn :: "Handle \<Rightarrow> etcd \<Rightarrow> (txn_resp \<times> etcd) option" where
  "release_txn h = txn [ValueIs (slotKey (h_slot h)) (Text (h_uuid h))]
     [OpPut (releasedKey (h_host h)) (Text ''released'') (h_lease h)] []"

definition Handle_Close :: "alloc_env \<Rightarrow> Handle \<Rightarrow> world \<Rightarrow> Handle \<times> world" where
  "Handle_Close env h w =
     (if h_closing h then (h, w)
      else (case fenceAll (h \<lparr>h_closing := True\<rparr>) w of (h1, w1) \<Rightarrow>
        (case (if h_registered h1
               then (case advanceGuard env h1 w1 of (ok, h2, w2) \<Rightarrow>
                  if h_lease h2 \<noteq> 0 \<and> ok then (h2, snd (request env (release_txn h2) w2)) else (h2, w2))
               else (h1, w1)) of
           (h3, w3) \<Rightarrow> flushCacheLocked env h3 w3)))"

end
