(* ===== verification/AllocProtocol.thy ===== *)
theory AllocProtocol
  imports Allocator
begin

text \<open>
  The protocol the allocators of a pool follow on etcd, as a step relation, and its invariant: a slot
  key always names the holder its lease was granted to, a released marker sits on a lease of a closed
  holder, watermarks have no lease.  A slot passes from one holder to another only when its lease has
  ended or the holder has closed, and no watermark ever falls.
\<close>

section \<open>Reads after writes\<close>

lemma map_of_filter_key: "map_of (filter (\<lambda>(k', _). k' \<noteq> k) xs) k' = (if k' = k then None else map_of xs k')"
  by (induction xs) auto

lemma get_put [simp]:
  "get (put n k v l db) k' =
     (if k' = k then Some \<lparr>kv_value = v, kv_lease = l, kv_create = (case get db k of None \<Rightarrow> n | Some x \<Rightarrow> kv_create x), kv_mod = n\<rparr>
      else get db k')"
  unfolding get_def put_def by (auto simp: map_of_filter_key)

lemma get_del [simp]: "get (del n k db) k' = (if k' = k then None else get db k')"
  unfolding get_def del_def by (auto simp: map_of_filter_key get_def)

lemma put_frame [simp]:
  "ek_leases (put n k v l db) = ek_leases db" "ek_nextLease (put n k v l db) = ek_nextLease db"
  "ek_granted (put n k v l db) = ek_granted db" "ek_fenced (put n k v l db) = ek_fenced db"
  "ek_rev (put n k v l db) = n"
  unfolding put_def by simp_all

lemma del_frame [simp]:
  "ek_leases (del n k db) = ek_leases db" "ek_nextLease (del n k db) = ek_nextLease db"
  "ek_granted (del n k db) = ek_granted db" "ek_fenced (del n k db) = ek_fenced db"
  "ek_rev (del n k db) = (if get db k = None then ek_rev db else n)"
  unfolding del_def by simp_all

lemma grant_frame [simp]:
  "get (snd (grant u db)) k = get db k" "ek_fenced (snd (grant u db)) = ek_fenced db" "ek_rev (snd (grant u db)) = ek_rev db"
  unfolding grant_def get_def by (simp_all add: Let_def)

section \<open>Invariant\<close>

fun unleased :: "etcd_key \<Rightarrow> bool" where
  "unleased (watermarkKey s) = True"
| "unleased (watermarkMsKey s) = True"
| "unleased (legacyGuardKey s) = True"
| "unleased (legacyGuardMsKey s) = True"
| "unleased _ = False"

definition key_ok :: "etcd \<Rightarrow> etcd_key \<Rightarrow> kv \<Rightarrow> bool" where
  "key_ok db k x \<longleftrightarrow>
     0 < kv_create x \<and> kv_create x \<le> kv_mod x \<and> kv_mod x \<le> ek_rev db \<and>
     (if unleased k then kv_lease x = 0 \<and> (\<exists>t. kv_value x = Dec t)
      else kv_lease x \<noteq> 0 \<and> kv_lease x \<in> set (ek_leases db)) \<and>
     (case k of slotKey s \<Rightarrow> kv_value x = Text (ek_granted db (kv_lease x))
      | releasedKey host \<Rightarrow> ek_granted db (kv_lease x) \<in> set (ek_fenced db)
      | _ \<Rightarrow> True)"

definition etcd_inv :: "etcd \<Rightarrow> bool" where
  "etcd_inv db \<longleftrightarrow>
     (\<forall>k x. get db k = Some x \<longrightarrow> key_ok db k x) \<and>
     (\<forall>l \<in> set (ek_leases db). 0 < l \<and> l < ek_nextLease db) \<and> 0 < ek_nextLease db \<and>
     distinct (map fst (ek_kvs db))"

definition watermark_of :: "etcd \<Rightarrow> u64 \<Rightarrow> u64" where
  "watermark_of db s = (case get db (watermarkKey s) of Some x \<Rightarrow> (case kv_value x of Dec v \<Rightarrow> v | Text _ \<Rightarrow> 0) | None \<Rightarrow> 0)"

definition holder_of :: "etcd \<Rightarrow> u64 \<Rightarrow> string option" where
  "holder_of db s = (case get db (slotKey s) of Some x \<Rightarrow> (case kv_value x of Text u \<Rightarrow> Some u | Dec _ \<Rightarrow> None) | None \<Rightarrow> None)"

text \<open>Which operations the protocol allows: puts on leases of the holder they name, markers of closed
  holders only, watermarks without a lease.\<close>

fun op_ok :: "etcd \<Rightarrow> etcd_op \<Rightarrow> bool" where
  "op_ok db (OpPut k v l) =
     (if unleased k then l = 0 \<and> (case v of Dec _ \<Rightarrow> True | Text _ \<Rightarrow> False)
      else l \<noteq> 0 \<and>
        (case k of slotKey s \<Rightarrow> v = Text (ek_granted db l)
         | releasedKey host \<Rightarrow> ek_granted db l \<in> set (ek_fenced db)
         | _ \<Rightarrow> True))"
| "op_ok db (OpDelete k) = (case k of releasedKey _ \<Rightarrow> True | _ \<Rightarrow> False)"
| "op_ok db (OpGet k) = True"
| "op_ok db (OpTxn cmps thens elses) = (list_all (op_ok db) thens \<and> list_all (op_ok db) elses)"

definition hands_over :: "etcd \<Rightarrow> etcd \<Rightarrow> bool" where
  "hands_over db db' \<longleftrightarrow>
     (\<forall>s u u'. holder_of db s = Some u \<longrightarrow> holder_of db' s = Some u' \<longrightarrow> u' = u \<or> u \<in> set (ek_fenced db)) \<and>
     (\<forall>s. watermark_of db s \<le> watermark_of db' s)"

inductive alloc_step :: "etcd \<Rightarrow> etcd \<Rightarrow> bool" where
  step_grant: "alloc_step db (snd (grant u db))"
| step_lease_ends: "alloc_step db (end_lease l db)"
| step_fence: "alloc_step db (db \<lparr>ek_fenced := u # ek_fenced db\<rparr>)"
| step_txn: "list_all (op_ok db) ops \<Longrightarrow> exec_ops (Suc (ek_rev db)) ops db = Some (rs, db') \<Longrightarrow> hands_over db db' \<Longrightarrow>
     alloc_step db db'"

definition empty_etcd :: "etcd \<Rightarrow> bool" where
  "empty_etcd db \<longleftrightarrow> ek_kvs db = [] \<and> ek_leases db = [] \<and> 0 < ek_nextLease db"

lemma key_ok_later:
  assumes "key_ok db k x" and "ek_rev db \<le> ek_rev db'" and "kv_lease x \<in> set (ek_leases db) \<Longrightarrow> kv_lease x \<in> set (ek_leases db')"
    and "kv_lease x \<noteq> 0 \<Longrightarrow> ek_granted db' (kv_lease x) = ek_granted db (kv_lease x)" and "set (ek_fenced db) \<subseteq> set (ek_fenced db')"
  shows "key_ok db' k x"
  using assms unfolding key_ok_def by (cases k) (auto split: if_splits)

lemma distinct_put: "distinct (map fst (ek_kvs db)) \<Longrightarrow> distinct (map fst (ek_kvs (put n k v l db)))"
  unfolding put_def by (auto simp: distinct_map_filter)

lemma distinct_del: "distinct (map fst (ek_kvs db)) \<Longrightarrow> distinct (map fst (ek_kvs (del n k db)))"
  unfolding del_def by (auto simp: distinct_map_filter)

text \<open>Within a transaction the revision of the store is the old one or already the new one.\<close>

lemma put_inv:
  assumes I: "etcd_inv db" and n: "ek_rev db \<le> n" "0 < n" and ok: "op_ok db (OpPut k v l)" and l: "l = 0 \<or> l \<in> set (ek_leases db)"
  shows "etcd_inv (put n k v l db)"
proof -
  have "key_ok (put n k v l db) k' x" if "get (put n k v l db) k' = Some x" for k' x
  proof (cases "k' = k")
    case True
    have c: "0 < (case get db k of None \<Rightarrow> n | Some x \<Rightarrow> kv_create x) \<and> (case get db k of None \<Rightarrow> n | Some x \<Rightarrow> kv_create x) \<le> n"
    proof (cases "get db k")
      case (Some y)
      then have "key_ok db k y" using I unfolding etcd_inv_def by blast
      then show ?thesis using Some n unfolding key_ok_def by simp
    qed (use n in simp)
    have x: "kv_value x = v" "kv_lease x = l" "kv_mod x = n"
        "kv_create x = (case get db k of None \<Rightarrow> n | Some x \<Rightarrow> kv_create x)" using that True by auto
    show ?thesis using ok l c unfolding key_ok_def x True put_frame by (cases k; cases v) simp_all
  next
    case False
    then have "key_ok db k' x" using that I unfolding etcd_inv_def by simp
    then show ?thesis by (rule key_ok_later) (use n in simp_all)
  qed
  then have "\<forall>k' x. get (put n k v l db) k' = Some x \<longrightarrow> key_ok (put n k v l db) k' x" by blast
  moreover have "distinct (map fst (ek_kvs (put n k v l db)))" by (rule distinct_put) (use I in \<open>simp add: etcd_inv_def\<close>)
  moreover have "(\<forall>l \<in> set (ek_leases db). 0 < l \<and> l < ek_nextLease db) \<and> 0 < ek_nextLease db"
    using I unfolding etcd_inv_def by simp
  ultimately show ?thesis unfolding etcd_inv_def put_frame by (intro conjI) simp_all
qed

lemma del_inv:
  assumes I: "etcd_inv db" and n: "ek_rev db \<le> n"
  shows "etcd_inv (del n k db)"
proof -
  have "key_ok (del n k db) k' x" if "get (del n k db) k' = Some x" for k' x
  proof -
    have "get db k' = Some x" using that by (simp split: if_splits)
    then have "key_ok db k' x" using I unfolding etcd_inv_def by blast
    then show ?thesis by (rule key_ok_later) (use n in simp_all)
  qed
  then have "\<forall>k' x. get (del n k db) k' = Some x \<longrightarrow> key_ok (del n k db) k' x" by blast
  moreover have "distinct (map fst (ek_kvs (del n k db)))" by (rule distinct_del) (use I in \<open>simp add: etcd_inv_def\<close>)
  moreover have "(\<forall>l \<in> set (ek_leases db). 0 < l \<and> l < ek_nextLease db) \<and> 0 < ek_nextLease db"
    using I unfolding etcd_inv_def by simp
  ultimately show ?thesis unfolding etcd_inv_def del_frame by (intro conjI) simp_all
qed

definition framed :: "nat \<Rightarrow> etcd \<Rightarrow> etcd \<Rightarrow> bool" where
  "framed n db db' \<longleftrightarrow> ek_leases db' = ek_leases db \<and> ek_nextLease db' = ek_nextLease db \<and>
     ek_granted db' = ek_granted db \<and> ek_fenced db' = ek_fenced db \<and> (ek_rev db' = ek_rev db \<or> ek_rev db' = n)"

lemma framed_trans: "framed n a b \<Longrightarrow> framed n b c \<Longrightarrow> framed n a c"
  unfolding framed_def by (elim conjE disjE) simp_all

lemma framed_basic: "framed n db db" "framed n db (put n k v l db)" "framed n db (del n k db)"
  unfolding framed_def by simp_all

lemma exec_ops_Cons:
  assumes "exec_ops n (op # ops) db = Some (rs, db')"
  obtains r1 db1 rs1 where "exec_op n op db = Some (r1, db1)" "exec_ops n ops db1 = Some (rs1, db')" "rs = r1 # rs1"
  using assms by (auto split: option.splits)

lemma exec_op_Txn:
  assumes "exec_op n (OpTxn cmps thens elses) db = Some (r, db')"
  obtains rs where "list_all (holds db) cmps" "exec_ops n thens db = Some (rs, db')" "r = RespTxn True rs"
    | rs where "\<not> list_all (holds db) cmps" "exec_ops n elses db = Some (rs, db')" "r = RespTxn False rs"
  using assms by (auto split: if_splits)

lemma exec_frame:
  "exec_op n op db = Some (r, db') \<Longrightarrow> framed n db db'"
  "exec_ops n ops db = Some (rs, db') \<Longrightarrow> framed n db db'"
proof (induction n op db and n ops db arbitrary: r db' and rs db' rule: exec_op_exec_ops.induct)
  case (4 n cmps thens elses db)
  show ?case using "4.prems" by (cases rule: exec_op_Txn) (use "4.IH" in blast)+
next
  case (6 n op ops db)
  show ?case using "6.prems"
  proof (rule exec_ops_Cons)
    fix r1 db1 rs1 assume E: "exec_op n op db = Some (r1, db1)" "exec_ops n ops db1 = Some (rs1, db')"
    show ?thesis by (rule framed_trans [OF "6.IH"(1) [OF E(1)] "6.IH"(2) [OF E(1) refl E(2)]])
  qed
qed (auto simp: framed_basic split: if_splits)

lemma op_ok_frame: "ek_granted db' = ek_granted db \<Longrightarrow> ek_fenced db' = ek_fenced db \<Longrightarrow> op_ok db' op = op_ok db op"
  by (induction db op rule: op_ok.induct) (auto simp: list_all_iff split: etcd_key.splits)

lemma exec_inv:
  "exec_op n op db = Some (r, db') \<Longrightarrow> etcd_inv db \<Longrightarrow> ek_rev db \<le> n \<Longrightarrow> 0 < n \<Longrightarrow> op_ok db op \<Longrightarrow> etcd_inv db'"
  "exec_ops n ops db = Some (rs, db') \<Longrightarrow> etcd_inv db \<Longrightarrow> ek_rev db \<le> n \<Longrightarrow> 0 < n \<Longrightarrow> list_all (op_ok db) ops \<Longrightarrow> etcd_inv db'"
proof (induction n op db and n ops db arbitrary: r db' and rs db' rule: exec_op_exec_ops.induct)
  case (1 n k v l db)
  have l: "l = 0 \<or> l \<in> set (ek_leases db)" and db': "db' = put n k v l db" using "1.prems"(1) by (auto split: if_splits)
  show ?case unfolding db' by (rule put_inv [OF "1.prems"(2,3,4,5) l])
next
  case (2 n k db)
  then show ?case using del_inv [of db n k] by simp
next
  case (4 n cmps thens elses db)
  have ok: "list_all (op_ok db) thens" "list_all (op_ok db) elses" using "4.prems"(5) by simp_all
  show ?case using "4.prems"(1)
  proof (cases rule: exec_op_Txn)
    case (1 rs)
    show ?thesis by (rule "4.IH"(1) [OF 1(1,2) "4.prems"(2,3,4) ok(1)])
  next
    case (2 rs)
    show ?thesis by (rule "4.IH"(2) [OF 2(1,2) "4.prems"(2,3,4) ok(2)])
  qed
next
  case (6 n op ops db)
  show ?case using "6.prems"(1)
  proof (rule exec_ops_Cons)
    fix r1 db1 rs1 assume E: "exec_op n op db = Some (r1, db1)" "exec_ops n ops db1 = Some (rs1, db')"
    have fr: "framed n db db1" by (rule exec_frame(1) [OF E(1)])
    have ok: "op_ok db op" "list_all (op_ok db) ops" using "6.prems"(5) by simp_all
    have i1: "etcd_inv db1" by (rule "6.IH"(1) [OF E(1) "6.prems"(2,3,4) ok(1)])
    have "op_ok db1 = op_ok db" by (rule ext, rule op_ok_frame) (use fr in \<open>simp_all add: framed_def\<close>)
    then have ok1: "list_all (op_ok db1) ops" using ok(2) by simp
    have r: "ek_rev db1 \<le> n" using fr "6.prems"(3) unfolding framed_def by auto
    show ?thesis by (rule "6.IH"(2) [OF E(1) refl E(2) i1 r "6.prems"(4) ok1])
  qed
qed auto

lemma get_end_lease:
  assumes "etcd_inv db"
  shows "get (end_lease l db) k = (case get db k of None \<Rightarrow> None | Some x \<Rightarrow> if kv_lease x = 0 \<or> kv_lease x \<noteq> l then Some x else None)"
proof -
  have *: "map_of (filter (\<lambda>(_, x). kv_lease x = 0 \<or> kv_lease x \<noteq> l) xs) k =
      (case map_of xs k of None \<Rightarrow> None | Some x \<Rightarrow> if kv_lease x = 0 \<or> kv_lease x \<noteq> l then Some x else None)"
    if "distinct (map fst xs)" for xs
    using that
  proof (induction xs)
    case (Cons p xs)
    have "map_of xs (fst p) = None" using Cons.prems by (simp add: map_of_eq_None_iff)
    then show ?case using Cons by (cases p) (auto split: option.splits)
  qed simp
  have "distinct (map fst (ek_kvs db))" using assms unfolding etcd_inv_def by simp
  from * [OF this] show ?thesis unfolding get_def end_lease_def by simp
qed

lemma end_lease_frame [simp]:
  "ek_granted (end_lease l db) = ek_granted db" "ek_fenced (end_lease l db) = ek_fenced db"
  "ek_nextLease (end_lease l db) = ek_nextLease db" "set (ek_leases (end_lease l db)) = set (ek_leases db) - {l}"
  "ek_rev db \<le> ek_rev (end_lease l db)"
  unfolding end_lease_def by auto

lemma end_lease_inv:
  assumes "etcd_inv db"
  shows "etcd_inv (end_lease l db)"
  unfolding etcd_inv_def
proof (intro conjI allI impI)
  fix k x assume "get (end_lease l db) k = Some x"
  then have x: "get db k = Some x" "kv_lease x = 0 \<or> kv_lease x \<noteq> l"
    unfolding get_end_lease [OF assms] by (auto split: option.splits if_splits)
  have ok: "key_ok db k x" using assms x(1) unfolding etcd_inv_def by blast
  have nz: "0 \<notin> set (ek_leases db)" using assms unfolding etcd_inv_def by blast
  show "key_ok (end_lease l db) k x"
    by (rule key_ok_later [OF ok]) (use x(2) nz in auto)
next
  show "\<forall>m \<in> set (ek_leases (end_lease l db)). 0 < m \<and> m < ek_nextLease (end_lease l db)"
    using assms unfolding etcd_inv_def by simp
  show "0 < ek_nextLease (end_lease l db)" using assms unfolding etcd_inv_def by simp
  have "distinct (map fst (ek_kvs db))" using assms unfolding etcd_inv_def by simp
  then show "distinct (map fst (ek_kvs (end_lease l db)))" unfolding end_lease_def by (simp add: distinct_map_filter)
qed

lemma grant_inv:
  assumes "etcd_inv db"
  shows "etcd_inv (snd (grant u db))"
  unfolding etcd_inv_def
proof (intro conjI allI impI)
  fix k x assume "get (snd (grant u db)) k = Some x"
  then have ok: "key_ok db k x" using assms unfolding etcd_inv_def by simp
  have "kv_lease x < ek_nextLease db" if "kv_lease x \<noteq> 0"
    using ok that assms unfolding key_ok_def etcd_inv_def by (auto split: if_splits)
  then show "key_ok (snd (grant u db)) k x"
    by (intro key_ok_later [OF ok]) (auto simp: grant_def Let_def)
qed (use assms in \<open>auto simp: grant_def Let_def etcd_inv_def\<close>)

lemma fence_inv:
  assumes "etcd_inv db"
  shows "etcd_inv (db \<lparr>ek_fenced := u # ek_fenced db\<rparr>)"
  unfolding etcd_inv_def
proof (intro conjI allI impI)
  fix k x assume "get (db \<lparr>ek_fenced := u # ek_fenced db\<rparr>) k = Some x"
  then have ok: "key_ok db k x" using assms unfolding etcd_inv_def get_def by simp
  show "key_ok (db \<lparr>ek_fenced := u # ek_fenced db\<rparr>) k x" by (rule key_ok_later [OF ok]) auto
qed (use assms in \<open>simp_all add: etcd_inv_def\<close>)

lemma alloc_step_inv: "alloc_step db db' \<Longrightarrow> etcd_inv db \<Longrightarrow> etcd_inv db'"
proof (induction rule: alloc_step.induct)
  case (step_txn db ops rs db')
  show ?case by (rule exec_inv(2) [OF step_txn(2,4) _ _ step_txn(1)]) simp_all
qed (simp_all add: grant_inv end_lease_inv fence_inv)

lemma empty_inv: "empty_etcd db \<Longrightarrow> etcd_inv db"
  unfolding empty_etcd_def etcd_inv_def get_def by simp

interpretation al: invariant_system empty_etcd alloc_step etcd_inv
  by unfold_locales (simp_all add: empty_inv alloc_step_inv)

section \<open>What later states keep\<close>

lemma exec_changes:
  "exec_op n op db = Some (r, db') \<Longrightarrow> get db' k = get db k \<or> get db' k = None \<or> (\<exists>x. get db' k = Some x \<and> kv_mod x = n)"
  "exec_ops n ops db = Some (rs, db') \<Longrightarrow> get db' k = get db k \<or> get db' k = None \<or> (\<exists>x. get db' k = Some x \<and> kv_mod x = n)"
proof (induction n op db and n ops db arbitrary: r db' and rs db' rule: exec_op_exec_ops.induct)
  case (4 n cmps thens elses db)
  show ?case using "4.prems" by (cases rule: exec_op_Txn) (use "4.IH" in blast)+
next
  case (6 n op ops db)
  show ?case using "6.prems"
  proof (rule exec_ops_Cons)
    fix r1 db1 rs1 assume E: "exec_op n op db = Some (r1, db1)" "exec_ops n ops db1 = Some (rs1, db')"
    show ?thesis using "6.IH"(1) [OF E(1)] "6.IH"(2) [OF E(1) refl E(2)] by fastforce
  qed
qed (auto split: if_splits)

definition later :: "etcd \<Rightarrow> etcd \<Rightarrow> bool" where
  "later db db' \<longleftrightarrow>
     ek_rev db \<le> ek_rev db' \<and> ek_nextLease db \<le> ek_nextLease db' \<and>
     (\<forall>l < ek_nextLease db. ek_granted db' l = ek_granted db l) \<and> set (ek_fenced db) \<subseteq> set (ek_fenced db') \<and>
     (\<forall>s. watermark_of db s \<le> watermark_of db' s) \<and>
     (\<forall>k x. get db' k = Some x \<longrightarrow> kv_mod x \<le> ek_rev db \<longrightarrow> get db k = Some x)"

lemma later_refl: "later db db"
  unfolding later_def by simp

lemma later_trans:
  assumes ab: "later a b" and bc: "later b c"
  shows "later a c"
  unfolding later_def
proof (intro conjI allI impI)
  show "ek_rev a \<le> ek_rev c" and "ek_nextLease a \<le> ek_nextLease c" and "set (ek_fenced a) \<subseteq> set (ek_fenced c)"
    using ab bc unfolding later_def by auto
  fix l s k x
  show "ek_granted c l = ek_granted a l" if "l < ek_nextLease a" using ab bc that unfolding later_def by auto
  show "watermark_of a s \<le> watermark_of c s" using ab bc unfolding later_def by (meson order_trans)
  show "get a k = Some x" if "get c k = Some x" "kv_mod x \<le> ek_rev a"
  proof -
    have "get b k = Some x" using bc that ab unfolding later_def by (meson order_trans)
    then show ?thesis using ab that(2) unfolding later_def by blast
  qed
qed

lemma watermark_end_lease: "etcd_inv db \<Longrightarrow> watermark_of (end_lease l db) s = watermark_of db s"
  unfolding watermark_of_def get_end_lease
  by (auto split: option.splits simp: etcd_inv_def key_ok_def)

lemma alloc_step_later:
  assumes "alloc_step db db'" and I: "etcd_inv db"
  shows "later db db'"
  using assms(1)
proof cases
  case (step_grant u)
  then show ?thesis unfolding later_def watermark_of_def by (auto simp: grant_def Let_def get_def)
next
  case (step_lease_ends l)
  have "get db k = Some x" if "get (end_lease l db) k = Some x" for k x
    using that unfolding get_end_lease [OF I] by (auto split: option.splits if_splits)
  then show ?thesis unfolding step_lease_ends later_def watermark_end_lease [OF I] by simp
next
  case (step_fence u)
  then show ?thesis unfolding later_def watermark_of_def by (auto simp: get_def)
next
  case (step_txn ops rs)
  have f: "framed (Suc (ek_rev db)) db db'" by (rule exec_frame(2) [OF step_txn(2)])
  have "get db k = Some x" if "get db' k = Some x" "kv_mod x \<le> ek_rev db" for k x
    using exec_changes(2) [OF step_txn(2), of k] that by auto
  then show ?thesis using f step_txn(3) unfolding later_def framed_def hands_over_def by auto
qed

lemma alloc_steps_later:
  assumes "alloc_step\<^sup>*\<^sup>* db db'" and "etcd_inv db"
  shows "later db db' \<and> etcd_inv db'"
  using assms
proof (induction rule: rtranclp_induct)
  case base
  then show ?case using later_refl by blast
next
  case (step y z)
  then have y: "later db y" "etcd_inv y" by blast+
  show ?case using later_trans [OF y(1) alloc_step_later [OF step(2) y(2)]] alloc_step_inv [OF step(2) y(2)] by blast
qed

lemma alloc_step_hands_over:
  assumes "alloc_step db db'" and I: "etcd_inv db"
  shows "hands_over db db'"
  using assms(1)
proof cases
  case (step_grant u)
  then show ?thesis unfolding hands_over_def holder_of_def watermark_of_def by simp
next
  case (step_lease_ends l)
  have "holder_of (end_lease l db) s = Some u' \<Longrightarrow> holder_of db s = Some u'" for s u'
    unfolding holder_of_def get_end_lease [OF I] by (auto split: option.splits if_splits)
  then show ?thesis unfolding step_lease_ends hands_over_def watermark_end_lease [OF I] by force
next
  case (step_fence u)
  then show ?thesis unfolding hands_over_def holder_of_def watermark_of_def by (simp add: get_def)
qed simp

end
