(* ===== verification/AllocSteps.thy ===== *)
theory AllocSteps
  imports AllocProtocol
begin

text \<open>
  The operations of \<open>Allocator\<close> change etcd by steps of the protocol only.
\<close>

section \<open>Worlds\<close>

text \<open>The other processes of the pool follow the protocol; the clock of this one does not step back
  and is far from the end of its range.\<close>

definition follows :: "alloc_env \<Rightarrow> bool" where
  "follows env \<longleftrightarrow> (\<forall>n db. etcd_inv db \<longrightarrow> alloc_step\<^sup>*\<^sup>* db (ec_others (ae_calls env n) db))"

definition steady :: "alloc_env \<Rightarrow> bool" where
  "steady env \<longleftrightarrow>
     (\<forall>i j. i \<le> j \<longrightarrow> NowEpochSec (ae_clock env i) \<le> NowEpochSec (ae_clock env j)) \<and>
     (\<forall>i. unat (NowEpochSec (ae_clock env i)) < 2 ^ 62)"

abbreviation world_inv :: "world \<Rightarrow> bool" where
  "world_inv w \<equiv> etcd_inv (wo_etcd w)"

definition reach :: "world \<Rightarrow> world \<Rightarrow> bool" where
  "reach w w' \<longleftrightarrow> alloc_step\<^sup>*\<^sup>* (wo_etcd w) (wo_etcd w') \<and> wo_reads w \<le> wo_reads w'"

lemma reach_refl [simp, intro]: "reach w w"
  unfolding reach_def by simp

lemma reach_trans [trans]: "reach w1 w2 \<Longrightarrow> reach w2 w3 \<Longrightarrow> reach w1 w3"
  unfolding reach_def by auto

lemma reach_inv: "reach w w' \<Longrightarrow> world_inv w \<Longrightarrow> world_inv w'"
  and reach_later: "reach w w' \<Longrightarrow> world_inv w \<Longrightarrow> later (wo_etcd w) (wo_etcd w')"
  unfolding reach_def using alloc_steps_later by blast+

lemma reach_same: "wo_etcd w' = wo_etcd w \<Longrightarrow> wo_reads w \<le> wo_reads w' \<Longrightarrow> reach w w'"
  unfolding reach_def by simp

lemma read_clock_reach: "read_clock env w = (rd, w') \<Longrightarrow> reach w w'"
  unfolding read_clock_def by (auto intro: reach_same)

section \<open>Requests\<close>

lemma request_reach:
  assumes F: "follows env" and I: "world_inv w" and E: "request env f w = (a, w')"
    and step: "\<And>db b db'. alloc_step\<^sup>*\<^sup>* (wo_etcd w) db \<Longrightarrow> etcd_inv db \<Longrightarrow> f db = Some (b, db') \<Longrightarrow> alloc_step\<^sup>*\<^sup>* db db'"
  shows "reach w w'"
proof -
  define db0 where "db0 = ec_others (ae_calls env (wo_calls w)) (wo_etcd w)"
  have s0: "alloc_step\<^sup>*\<^sup>* (wo_etcd w) db0" using F I unfolding follows_def db0_def by blast
  have i0: "etcd_inv db0" using alloc_steps_later [OF s0 I] by blast
  have "wo_etcd w' = db0 \<or> (\<exists>b. f db0 = Some (b, wo_etcd w'))" and r: "wo_reads w' = wo_reads w"
    using E unfolding request_def ecall_def Let_def db0_def [symmetric]
    by (auto split: call_fate.splits option.splits prod.splits if_splits)
  then have "alloc_step\<^sup>*\<^sup>* db0 (wo_etcd w')" using step [OF s0 i0] by blast
  then show ?thesis using s0 r unfolding reach_def by auto
qed

text \<open>An answer comes from a state on the way.\<close>

lemma request_answer:
  assumes F: "follows env" and I: "world_inv w" and E: "request env f w = (Some a, w')"
  obtains db where "alloc_step\<^sup>*\<^sup>* (wo_etcd w) db" "etcd_inv db" "f db = Some (a, wo_etcd w')"
proof -
  define db0 where "db0 = ec_others (ae_calls env (wo_calls w)) (wo_etcd w)"
  have s0: "alloc_step\<^sup>*\<^sup>* (wo_etcd w) db0" using F I unfolding follows_def db0_def by blast
  have i0: "etcd_inv db0" using alloc_steps_later [OF s0 I] by blast
  have "f db0 = Some (a, wo_etcd w')"
    using E unfolding request_def ecall_def Let_def db0_def [symmetric]
    by (auto split: call_fate.splits option.splits prod.splits if_splits)
  then show ?thesis using that s0 i0 by blast
qed

definition read_only :: "(etcd \<Rightarrow> ('a \<times> etcd) option) \<Rightarrow> bool" where
  "read_only f \<longleftrightarrow> (\<forall>db b db'. f db = Some (b, db') \<longrightarrow> db' = db)"

lemma read_only_calls [simp, intro]:
  "read_only (Get k)" "read_only GetAll" "read_only (TimeToLive l)" "read_only (KeepAlive l)"
  "read_only (txn [] [OpGet k1, OpGet k2] [])"
  unfolding read_only_def Get_def GetAll_def TimeToLive_def KeepAlive_def txn_def by simp_all

lemma request_read: "follows env \<Longrightarrow> world_inv w \<Longrightarrow> read_only f \<Longrightarrow> request env f w = (a, w') \<Longrightarrow> reach w w'"
  unfolding read_only_def by (rule request_reach) blast+

lemma request_grant: "follows env \<Longrightarrow> world_inv w \<Longrightarrow> request env (Grant u) w = (a, w') \<Longrightarrow> reach w w'"
  by (rule request_reach) (auto simp: Grant_def intro!: r_into_rtranclp, metis snd_conv step_grant)

lemma request_revoke: "follows env \<Longrightarrow> world_inv w \<Longrightarrow> request env (Revoke l) w = (a, w') \<Longrightarrow> reach w w'"
  by (rule request_reach) (auto simp: Revoke_def split: if_splits intro: r_into_rtranclp [of alloc_step, OF step_lease_ends])

lemma revoke_reach: "follows env \<Longrightarrow> world_inv w \<Longrightarrow> reach w (revoke env l w)"
  unfolding revoke_def by (cases "request env (Revoke l) w") (simp add: request_revoke)

definition leased :: "world \<Rightarrow> nat \<Rightarrow> string \<Rightarrow> bool" where
  "leased w l u \<longleftrightarrow> l \<noteq> 0 \<and> l < ek_nextLease (wo_etcd w) \<and> ek_granted (wo_etcd w) l = u"

lemma leased_later: "leased w l u \<Longrightarrow> later (wo_etcd w) db \<Longrightarrow> ek_granted db l = u \<and> l < ek_nextLease db"
  unfolding leased_def later_def by auto

lemma leased_reach: "leased w l u \<Longrightarrow> reach w w' \<Longrightarrow> world_inv w \<Longrightarrow> leased w' l u"
  using leased_later [of w l u "wo_etcd w'"] reach_later [of w w'] unfolding leased_def by blast

lemma grant_leased:
  assumes "follows env" "world_inv w" "request env (Grant u) w = (Some l, w')"
  shows "leased w' l u"
  using assms
proof (rule request_answer)
  fix db assume I: "etcd_inv db" and "Grant u db = Some (l, wo_etcd w')"
  then have g: "grant u db = (l, wo_etcd w')" unfolding Grant_def by simp
  then have w': "wo_etcd w' = snd (grant u db)" and "l = fst (grant u db)" by simp_all
  moreover have "0 < ek_nextLease db" using I unfolding etcd_inv_def by simp
  ultimately show ?thesis unfolding leased_def w' by (simp add: grant_def Let_def)
qed

section \<open>Transactions\<close>

lemma txn_step:
  assumes "txn cmps thens elses db = Some (t, db')"
    and "list_all (holds db) cmps \<Longrightarrow> list_all (op_ok db) thens"
    and "\<not> list_all (holds db) cmps \<Longrightarrow> list_all (op_ok db) elses" and "hands_over db db'"
  shows "alloc_step db db'"
proof -
  let ?ops = "if list_all (holds db) cmps then thens else elses"
  obtain rs where "exec_ops (Suc (ek_rev db)) ?ops db = Some (rs, db')"
    using assms(1) unfolding txn_def Let_def by auto
  moreover have "list_all (op_ok db) ?ops" using assms(2,3) by simp
  ultimately show ?thesis using assms(4) by (intro step_txn)
qed

lemma txn_idle: "txn cmps thens [] db = Some (t, db') \<Longrightarrow> \<not> list_all (holds db) cmps \<Longrightarrow> db' = db"
  unfolding txn_def by auto

lemma txn_ran:
  "txn cmps thens [] db = Some (t, db') \<Longrightarrow> tr_succeeded t \<longleftrightarrow> list_all (holds db) cmps"
  "txn cmps thens [] db = Some (t, db') \<Longrightarrow> tr_revision t = ek_rev db'"
  unfolding txn_def Let_def by auto

lemma hands_over_refl [simp]: "hands_over db db"
  unfolding hands_over_def by simp

lemma create_zero: "etcd_inv db \<Longrightarrow> holds db (CreateRevision k 0) \<longleftrightarrow> get db k = None"
  unfolding etcd_inv_def key_ok_def by (cases "get db k") auto

lemma claim_step:
  assumes I: "etcd_inv db" and E: "txn (claim_cmps r slot) (claim_ops r host slot uuid lease) [] db = Some (t, db')"
    and l: "lease \<noteq> 0" "ek_granted db lease = uuid"
  shows "alloc_step\<^sup>*\<^sup>* db db'" and "tr_succeeded t \<Longrightarrow> holder_of db' slot = Some uuid"
    and "tr_succeeded t \<Longrightarrow> get db (slotKey slot) = None"
proof -
  have g: "get db (slotKey slot) = None" if "list_all (holds db) (claim_cmps r slot)"
    using that create_zero [OF I] unfolding claim_cmps_def by simp
  then show "tr_succeeded t \<Longrightarrow> get db (slotKey slot) = None" using txn_ran(1) [OF E] by simp
  have ops: "list_all (op_ok db) (claim_ops r host slot uuid lease)" using l unfolding claim_ops_def by simp
  have get': "get db' (slotKey s) = (if s = slot then get db' (slotKey slot) else get db (slotKey s))"
      "get db' (watermarkKey s) = get db (watermarkKey s)" "holder_of db' slot = Some uuid"
    if "list_all (holds db) (claim_cmps r slot)" for s
    using E that unfolding txn_def claim_ops_def Let_def holder_of_def by (auto split: if_splits)
  show h: "tr_succeeded t \<Longrightarrow> holder_of db' slot = Some uuid" using get' txn_ran(1) [OF E] by simp
  show "alloc_step\<^sup>*\<^sup>* db db'"
  proof (cases "list_all (holds db) (claim_cmps r slot)")
    case True
    have "hands_over db db'"
      unfolding hands_over_def watermark_of_def get'(2) [OF True]
    proof (intro conjI allI impI)
      fix s u u' assume "holder_of db s = Some u" "holder_of db' s = Some u'"
      then show "u' = u \<or> u \<in> set (ek_fenced db)"
        using g [OF True] get'(1) [OF True, of s] unfolding holder_of_def by (cases "s = slot") auto
    qed simp
    from txn_step [OF E _ _ this] ops show ?thesis by auto
  qed (use txn_idle [OF E] in simp)
qed

lemma reuse_step:
  assumes I: "etcd_inv db"
    and E: "txn (reuse_cmps host slot predLease predUUID) (reuse_ops r host slot uuid lease) [] db = Some (t, db')"
    and l: "lease \<noteq> 0" "ek_granted db lease = uuid" "predLease \<noteq> 0"
  shows "alloc_step\<^sup>*\<^sup>* db db'" and "tr_succeeded t \<Longrightarrow> holder_of db' slot = Some uuid"
    and "tr_succeeded t \<Longrightarrow> \<exists>u. predUUID = Text u \<and> holder_of db slot = Some u \<and> u \<in> set (ek_fenced db)"
proof -
  have pred: "predUUID = Text (ek_granted db predLease)" "holder_of db slot = Some (ek_granted db predLease)"
      "ek_granted db predLease \<in> set (ek_fenced db)"
    if "list_all (holds db) (reuse_cmps host slot predLease predUUID)"
  proof -
    have c: "holds db (CreatePositive (releasedKey host))" "holds db (LeaseIs (releasedKey host) predLease)"
        "holds db (ValueIs (slotKey slot) predUUID)" "holds db (LeaseIs (slotKey slot) predLease)"
      using that unfolding reuse_cmps_def list_all_iff by (simp_all del: holds.simps)
    obtain x where x: "get db (slotKey slot) = Some x" "kv_value x = predUUID" "kv_lease x = predLease"
      using c(3,4) by (cases "get db (slotKey slot)") auto
    obtain m where m: "get db (releasedKey host) = Some m" "kv_lease m = predLease"
      using c(1,2) by (cases "get db (releasedKey host)") auto
    have "key_ok db (slotKey slot) x" "key_ok db (releasedKey host) m" using I x(1) m(1) unfolding etcd_inv_def by blast+
    then show "predUUID = Text (ek_granted db predLease)" "ek_granted db predLease \<in> set (ek_fenced db)"
        "holder_of db slot = Some (ek_granted db predLease)"
      using x m unfolding key_ok_def holder_of_def by auto
  qed
  have ops: "list_all (op_ok db) (reuse_ops r host slot uuid lease)" using l unfolding reuse_ops_def by simp
  have get': "get db' (slotKey s) = (if s = slot then get db' (slotKey slot) else get db (slotKey s))"
      "get db' (watermarkKey s) = get db (watermarkKey s)" "holder_of db' slot = Some uuid"
    if "list_all (holds db) (reuse_cmps host slot predLease predUUID)" for s
    using E that unfolding txn_def reuse_ops_def Let_def holder_of_def by (auto split: if_splits)
  show "tr_succeeded t \<Longrightarrow> holder_of db' slot = Some uuid" using get' txn_ran(1) [OF E] by simp
  show "tr_succeeded t \<Longrightarrow> \<exists>u. predUUID = Text u \<and> holder_of db slot = Some u \<and> u \<in> set (ek_fenced db)"
    using pred txn_ran(1) [OF E] by simp
  show "alloc_step\<^sup>*\<^sup>* db db'"
  proof (cases "list_all (holds db) (reuse_cmps host slot predLease predUUID)")
    case True
    have "hands_over db db'"
      unfolding hands_over_def watermark_of_def get'(2) [OF True]
    proof (intro conjI allI impI)
      fix s u u' assume "holder_of db s = Some u" "holder_of db' s = Some u'"
      then show "u' = u \<or> u \<in> set (ek_fenced db)"
        using pred(2,3) [OF True] get'(1) [OF True, of s] unfolding holder_of_def by (cases "s = slot") auto
    qed simp
    from txn_step [OF E _ _ this] ops show ?thesis by auto
  qed (use txn_idle [OF E] in simp)
qed

lemma holder_valueIs: "holds db (ValueIs (slotKey s) (Text u)) \<longleftrightarrow> holder_of db s = Some u"
  unfolding holder_of_def by (auto split: option.splits etcd_val.splits)

definition reclaim_txn :: "Handle \<Rightarrow> nat \<Rightarrow> etcd \<Rightarrow> (txn_resp \<times> etcd) option" where
  "reclaim_txn h lease =
     txn [CreateRevision (slotKey (h_slot h)) 0] (reclaim_puts h lease)
       [OpTxn [ValueIs (slotKey (h_slot h)) (Text (h_uuid h))] (reclaim_puts h lease) []]"

lemma reclaim_step:
  assumes I: "etcd_inv db" and E: "reclaim_txn h lease db = Some (t, db')"
    and l: "lease \<noteq> 0" "ek_granted db lease = h_uuid h"
  shows "alloc_step\<^sup>*\<^sup>* db db'"
    and "tr_succeeded t \<or> inner_succeeded t \<Longrightarrow> holder_of db' (h_slot h) = Some (h_uuid h)"
    and "holder_of db (h_slot h) = None \<or> holder_of db (h_slot h) = Some (h_uuid h) \<or> db' = db"
proof -
  let ?s = "slotKey (h_slot h)"
  have ops: "list_all (op_ok db) (reclaim_puts h lease)" using l unfolding reclaim_puts_def by simp
  have put: "get d (slotKey s) = (if s = h_slot h then get d ?s else get db (slotKey s))"
      "get d (watermarkKey s) = get db (watermarkKey s)" "holder_of d (h_slot h) = Some (h_uuid h)"
    if "exec_ops n (reclaim_puts h lease) db = Some (rs, d)" for n rs d s
    using that unfolding reclaim_puts_def holder_of_def by (auto split: if_splits)
  have over: "hands_over db d" if e: "exec_ops n (reclaim_puts h lease) db = Some (rs, d)"
    and c: "holder_of db (h_slot h) = None \<or> holder_of db (h_slot h) = Some (h_uuid h)" for n rs d
    unfolding hands_over_def watermark_of_def put(2) [OF e]
  proof (intro conjI allI impI)
    fix s u u' assume "holder_of db s = Some u" "holder_of d s = Some u'"
    then show "u' = u \<or> u \<in> set (ek_fenced db)"
      using c put(1) [OF e, of s] put(3) [OF e] unfolding holder_of_def by (cases "s = h_slot h") auto
  qed simp
  have none: "holds db (CreateRevision ?s 0) \<Longrightarrow> holder_of db (h_slot h) = None"
    using create_zero [OF I] unfolding holder_of_def by simp
  consider (created) rs where "holder_of db (h_slot h) = None" "exec_ops (Suc (ek_rev db)) (reclaim_puts h lease) db = Some (rs, db')"
    | (attached) rs where "holder_of db (h_slot h) = Some (h_uuid h)" "exec_ops (Suc (ek_rev db)) (reclaim_puts h lease) db = Some (rs, db')"
    | (taken) "db' = db" "\<not> tr_succeeded t" "\<not> inner_succeeded t"
  proof (cases "holds db (CreateRevision ?s 0)")
    case True
    then have "\<exists>rs. exec_ops (Suc (ek_rev db)) (reclaim_puts h lease) db = Some (rs, db')"
      using E unfolding reclaim_txn_def txn_def Let_def by (auto simp del: holds.simps)
    then show ?thesis using none [OF True] created by blast
  next
    case False
    show ?thesis
    proof (cases "holds db (ValueIs ?s (Text (h_uuid h)))")
      case True
      then have "\<exists>rs. exec_ops (Suc (ek_rev db)) (reclaim_puts h lease) db = Some (rs, db')"
        using E False unfolding reclaim_txn_def txn_def Let_def by (auto simp del: holds.simps split: option.splits)
      then show ?thesis using attached True holder_valueIs by blast
    next
      case F: False
      then have "db' = db" "\<not> tr_succeeded t" "\<not> inner_succeeded t"
        using E False unfolding reclaim_txn_def txn_def Let_def by (auto simp del: holds.simps simp: inner_succeeded_def)
      then show ?thesis using taken by blast
    qed
  qed
  note three = this
  have step: "alloc_step db db'" if "hands_over db db'"
    using txn_step [OF E [unfolded reclaim_txn_def] _ _ that] ops by simp
  show "alloc_step\<^sup>*\<^sup>* db db'" by (cases rule: three) (use step over in auto)
  show "holder_of db' (h_slot h) = Some (h_uuid h)" if "tr_succeeded t \<or> inner_succeeded t"
    by (cases rule: three) (use that put(3) in auto)
  show "holder_of db (h_slot h) = None \<or> holder_of db (h_slot h) = Some (h_uuid h) \<or> db' = db"
    by (cases rule: three) auto
qed

lemma release_step:
  assumes E: "release_txn h db = Some (t, db')" and l: "h_lease h \<noteq> 0" "ek_granted db (h_lease h) = h_uuid h"
    and f: "h_uuid h \<in> set (ek_fenced db)"
  shows "alloc_step\<^sup>*\<^sup>* db db'"
proof -
  have "get db' (slotKey s) = get db (slotKey s)" "get db' (watermarkKey s) = get db (watermarkKey s)" for s
    using E unfolding release_txn_def txn_def Let_def by (auto simp del: holds.simps split: if_splits)
  then have "hands_over db db'" unfolding hands_over_def holder_of_def watermark_of_def by simp
  from txn_step [OF E [unfolded release_txn_def] _ _ this] l f show ?thesis by auto
qed

section \<open>Watermark writes\<close>

definition wm_key :: "etcd_key \<Rightarrow> etcd_key option \<Rightarrow> bool" where
  "wm_key k legacy \<longleftrightarrow>
     (\<exists>s. k = watermarkKey s \<or> k = watermarkMsKey s) \<and>
     (\<forall>lk. legacy = Some lk \<longrightarrow> (\<exists>s. lk = legacyGuardKey s \<or> lk = legacyGuardMsKey s))"

text \<open>Under revision \<open>rv\<close> the second watermark holds at most \<open>b\<close>.\<close>

definition synced :: "etcd \<Rightarrow> etcd_key \<Rightarrow> nat \<Rightarrow> u64 \<Rightarrow> bool" where
  "synced db k rv b \<longleftrightarrow>
     (\<forall>s x v. k = watermarkKey s \<longrightarrow> get db k = Some x \<longrightarrow> kv_mod x = rv \<longrightarrow> kv_value x = Dec v \<longrightarrow> v \<le> b)"

lemma synced_later: "synced db k rv b \<Longrightarrow> rv \<le> ek_rev db \<Longrightarrow> later db db' \<Longrightarrow> synced db' k rv b"
  unfolding synced_def later_def by blast

definition known :: "etcd_key \<Rightarrow> nat \<Rightarrow> etcd \<Rightarrow> bool" where
  "known k rv db \<longleftrightarrow> (\<forall>s. k = watermarkKey s \<longrightarrow> rv \<le> ek_rev db)"

lemma known_wm [simp]: "known (watermarkKey s) rv db \<longleftrightarrow> rv \<le> ek_rev db" "known (watermarkMsKey s) rv db"
  unfolding known_def by simp_all

lemma known_synced_later: "synced db k rv b \<Longrightarrow> known k rv db \<Longrightarrow> later db db' \<Longrightarrow> synced db' k rv b \<and> known k rv db'"
  unfolding synced_def known_def later_def by (blast intro: order_trans)

lemma synced_mono: "synced db k rv b \<Longrightarrow> b \<le> b' \<Longrightarrow> synced db k rv b'"
  unfolding synced_def by (blast intro: order_trans)

definition put_txn :: "Handle \<Rightarrow> etcd_key \<Rightarrow> etcd_key option \<Rightarrow> u64 \<Rightarrow> nat \<Rightarrow> etcd \<Rightarrow> (txn_resp \<times> etcd) option" where
  "put_txn h k legacy target rv =
     txn [ValueIs (slotKey (h_slot h)) (Text (h_uuid h))]
       [OpTxn [ModRevision k rv] (put_ops k legacy target) [OpGet k]] []"

lemma put_step:
  assumes I: "etcd_inv db" and E: "put_txn h k legacy target rv db = Some (t, db')" and k: "wm_key k legacy"
    and s: "synced db k rv target"
  shows "alloc_step\<^sup>*\<^sup>* db db'"
    and "tr_succeeded t \<Longrightarrow> holder_of db' (h_slot h) = Some (h_uuid h)"
    and "tr_succeeded t \<Longrightarrow> inner_succeeded t \<Longrightarrow> \<exists>x. get db' k = Some x \<and> kv_value x = Dec target \<and> kv_mod x = tr_revision t"
    and "tr_succeeded t \<Longrightarrow> \<not> inner_succeeded t \<Longrightarrow> db' = db \<and> inner_get t = get db k"
    and "tr_revision t = ek_rev db'"
proof -
  have ops: "list_all (op_ok db) [OpTxn [ModRevision k rv] (put_ops k legacy target) [OpGet k]]"
    using k unfolding put_ops_def wm_key_def by (auto split: option.splits)
  have slots: "get db' (slotKey s) = get db (slotKey s)" for s
    using E k unfolding put_txn_def txn_def Let_def put_ops_def wm_key_def
    by (auto simp del: holds.simps split: if_splits option.splits)
  have own: "tr_succeeded t \<longleftrightarrow> holder_of db (h_slot h) = Some (h_uuid h)"
    using txn_ran(1) [OF E [unfolded put_txn_def]] holder_valueIs [of db "h_slot h" "h_uuid h"] by (simp del: holds.simps)
  then show "tr_succeeded t \<Longrightarrow> holder_of db' (h_slot h) = Some (h_uuid h)" using slots unfolding holder_of_def by simp
  show rv: "tr_revision t = ek_rev db'" using txn_ran(2) [OF E [unfolded put_txn_def]] .
  have wrote: "(\<forall>s. watermarkKey s \<noteq> k \<longrightarrow> get db' (watermarkKey s) = get db (watermarkKey s)) \<and>
      (\<exists>x. get db' k = Some x \<and> kv_value x = Dec target \<and> kv_mod x = ek_rev db')"
    if "holds db (ModRevision k rv)" "tr_succeeded t"
    using E that k own unfolding put_txn_def txn_def Let_def put_ops_def wm_key_def holder_valueIs [symmetric]
    by (auto simp del: holds.simps split: if_splits option.splits)
  have idle: "db' = db \<and> (tr_succeeded t \<longrightarrow> \<not> inner_succeeded t \<and> inner_get t = get db k)"
    if "\<not> (holds db (ModRevision k rv) \<and> tr_succeeded t)"
    using E that own unfolding put_txn_def txn_def Let_def holder_valueIs [symmetric] inner_get_def inner_succeeded_def
    by (auto simp del: holds.simps split: if_splits option.splits)
  show "tr_succeeded t \<Longrightarrow> inner_succeeded t \<Longrightarrow> \<exists>x. get db' k = Some x \<and> kv_value x = Dec target \<and> kv_mod x = tr_revision t"
    using wrote idle rv by auto
  have ran: "inner_succeeded t" if "holds db (ModRevision k rv)" "tr_succeeded t"
    using E that own unfolding put_txn_def txn_def Let_def holder_valueIs [symmetric] inner_succeeded_def
    by (auto simp del: holds.simps split: if_splits option.splits)
  show "tr_succeeded t \<Longrightarrow> \<not> inner_succeeded t \<Longrightarrow> db' = db \<and> inner_get t = get db k" using idle ran by blast
  have wm: "watermark_of db s \<le> watermark_of db' s" for s
  proof (cases "holds db (ModRevision k rv) \<and> tr_succeeded t \<and> k = watermarkKey s")
    case True
    have "watermark_of db s \<le> target"
      using True s unfolding watermark_of_def synced_def by (auto split: option.splits etcd_val.splits)
    then show ?thesis using True wrote unfolding watermark_of_def by auto
  next
    case False
    then show ?thesis using wrote idle unfolding watermark_of_def by (metis order_refl)
  qed
  have "hands_over db db'" using slots wm unfolding hands_over_def holder_of_def by auto
  from txn_step [OF E [unfolded put_txn_def] _ _ this] ops show "alloc_step\<^sup>*\<^sup>* db db'" by auto
qed

definition put_post :: "Handle \<Rightarrow> etcd_key \<Rightarrow> u64 \<Rightarrow> put_result \<Rightarrow> nat \<Rightarrow> etcd \<Rightarrow> bool" where
  "put_post h k target res rv db \<longleftrightarrow>
     known k rv db \<and>
     (case res of
        PutOk p \<Rightarrow> target \<le> p \<and> holder_of db (h_slot h) = Some (h_uuid h) \<and>
          (\<exists>x. get db k = Some x \<and> kv_value x = Dec p \<and> kv_mod x = rv)
      | _ \<Rightarrow> synced db k rv target)"

lemma get_mod_le: "etcd_inv db \<Longrightarrow> get db k = Some x \<Longrightarrow> kv_mod x \<le> ek_rev db"
  unfolding etcd_inv_def key_ok_def by blast

lemma put_attempts_ok:
  assumes "follows env" "world_inv w" "wm_key k legacy" "synced (wo_etcd w) k rv target" "known k rv (wo_etcd w)"
    and "put_attempts n env h k legacy target rv w = (res, rv', w')"
  shows "reach w w' \<and> put_post h k target res rv' (wo_etcd w')"
  using assms
proof (induction n arbitrary: rv w)
  case 0
  then show ?case by (simp add: put_post_def)
next
  case (Suc n)
  note F = Suc.prems(1) and I = Suc.prems(2) and K = Suc.prems(3) and S = Suc.prems(4) and R = Suc.prems(5)
  obtain a w1 where q: "request env (put_txn h k legacy target rv) w = (a, w1)" by fastforce
  have sync: "synced db k rv target" if "alloc_step\<^sup>*\<^sup>* (wo_etcd w) db" for db
    using known_synced_later [OF S R] alloc_steps_later [OF that I] by blast
  have r1: "reach w w1"
    by (rule request_reach [OF F I q]) (use put_step(1) [OF _ _ K] sync in blast)
  have I1: "world_inv w1" using reach_inv [OF r1 I] .
  have L1: "later (wo_etcd w) (wo_etcd w1)" using reach_later [OF r1 I] .
  have E: "(case a of None \<Rightarrow> (PutErr, rv, w1)
      | Some t \<Rightarrow>
        if \<not> tr_succeeded t then (PutNotOwned, rv, w1)
        else if inner_succeeded t then (PutOk target, tr_revision t, w1)
        else case inner_get t of None \<Rightarrow> put_attempts n env h k legacy target 0 w1
          | Some x \<Rightarrow>
            (case kv_value x of Text _ \<Rightarrow> (PutErr, kv_mod x, w1)
             | Dec stored \<Rightarrow>
               if stored \<ge> target then (PutOk stored, kv_mod x, w1)
               else put_attempts n env h k legacy target (kv_mod x) w1)) = (res, rv', w')"
    using Suc.prems(6) q unfolding put_txn_def by simp
  show ?case
  proof (cases a)
    case None
    then show ?thesis using E r1 known_synced_later [OF S R L1] by (auto simp: put_post_def)
  next
    case (Some t)
    obtain db where db: "alloc_step\<^sup>*\<^sup>* (wo_etcd w) db" "etcd_inv db" "put_txn h k legacy target rv db = Some (t, wo_etcd w1)"
      using request_answer [OF F I q [unfolded Some]] by blast
    note P = put_step [OF db(2,3) K sync [OF db(1)]]
    consider "\<not> tr_succeeded t" | "tr_succeeded t" "inner_succeeded t" | "tr_succeeded t" "\<not> inner_succeeded t" by blast
    then show ?thesis
    proof cases
      case 1
      then show ?thesis using E Some r1 known_synced_later [OF S R L1] by (auto simp: put_post_def)
    next
      case 2
      then show ?thesis using E Some r1 P(2,3,5) by (auto simp: put_post_def known_def)
    next
      case 3
      have g: "inner_get t = get (wo_etcd w1) k" using P(4) [OF 3] by simp
      show ?thesis
      proof (cases "get (wo_etcd w1) k")
        case None
        have "synced (wo_etcd w1) k 0 target" using None unfolding synced_def by auto
        from Suc.IH [OF F I1 K this] show ?thesis using E Some 3 None g r1 reach_trans by (auto simp: known_def)
      next
        case x: (Some x)
        have m: "known k (kv_mod x) (wo_etcd w1)" using get_mod_le [OF I1 x] unfolding known_def by simp
        show ?thesis
        proof (cases "kv_value x")
          case (Text u)
          then have "synced (wo_etcd w1) k (kv_mod x) target" using x unfolding synced_def by auto
          then show ?thesis using E Some 3 x g Text r1 m by (auto simp: put_post_def)
        next
          case (Dec v)
          show ?thesis
          proof (cases "target \<le> v")
            case True
            then show ?thesis using E Some 3 x g Dec r1 m P(2) by (auto simp: put_post_def)
          next
            case False
            then have "synced (wo_etcd w1) k (kv_mod x) target" using x Dec unfolding synced_def by auto
            from Suc.IH [OF F I1 K this m] show ?thesis using E Some 3 x g Dec False r1 reach_trans by auto
          qed
        qed
      qed
    qed
  qed
qed

section \<open>Handles\<close>

text \<open>The part of a handle the protocol depends on.\<close>

definition hview :: "Handle \<Rightarrow> u64 \<times> string \<times> nat \<times> nat \<times> u64 \<times> u64 option \<times> bool" where
  "hview h = (h_slot h, h_uuid h, h_lease h, h_guardRev h, h_guardWritten h, map_option lastTime (h_node h), h_closing h)"

definition handle_ok :: "alloc_env \<Rightarrow> Handle \<Rightarrow> world \<Rightarrow> bool" where
  "handle_ok env h w \<longleftrightarrow>
     h_guardRev h \<le> ek_rev (wo_etcd w) \<and>
     (\<forall>i \<ge> wo_reads w. synced (wo_etcd w) (watermarkKey (h_slot h)) (h_guardRev h) (guard_target h (ae_clock env i))) \<and>
     (h_lease h \<noteq> 0 \<longrightarrow> leased w (h_lease h) (h_uuid h)) \<and>
     (h_closing h \<longrightarrow> h_uuid h \<in> set (ek_fenced (wo_etcd w)))"

lemma guard_target_view:
  "guard_target h rd =
     (let now = NowEpochSec rd;
          t = (case map_option lastTime (h_node h) of None \<Rightarrow> now | Some hw \<Rightarrow> if hw > now then hw else now) + guardLeadSec in
      if t < h_guardWritten h then h_guardWritten h else t)"
  unfolding guard_target_def Let_def HighWaterEpochSec_def by (cases "h_node h") simp_all

lemma handle_ok_view:
  assumes "handle_ok env h w" and "hview h' = hview h"
  shows "handle_ok env h' w"
proof -
  have v: "h_slot h' = h_slot h" "h_uuid h' = h_uuid h" "h_lease h' = h_lease h" "h_guardRev h' = h_guardRev h"
      "h_guardWritten h' = h_guardWritten h" "map_option lastTime (h_node h') = map_option lastTime (h_node h)"
      "h_closing h' = h_closing h"
    using assms(2) unfolding hview_def by simp_all
  have "guard_target h' rd = guard_target h rd" for rd unfolding guard_target_view v ..
  then show ?thesis using assms(1) v unfolding handle_ok_def by simp
qed

lemma handle_ok_reach:
  assumes "handle_ok env h w" and r: "reach w w'" and I: "world_inv w"
  shows "handle_ok env h w'"
proof -
  have L: "later (wo_etcd w) (wo_etcd w')" using reach_later [OF r I] .
  show ?thesis unfolding handle_ok_def
  proof (intro conjI allI impI)
    show "h_guardRev h \<le> ek_rev (wo_etcd w')" using assms(1) L unfolding handle_ok_def later_def by linarith
    show "leased w' (h_lease h) (h_uuid h)" if "h_lease h \<noteq> 0"
      using leased_reach [OF _ r I] assms(1) that unfolding handle_ok_def by blast
    show "h_uuid h \<in> set (ek_fenced (wo_etcd w'))" if "h_closing h" using assms(1) L that unfolding handle_ok_def later_def by blast
    fix i assume "wo_reads w' \<le> i"
    then have "wo_reads w \<le> i" using r unfolding reach_def by simp
    then show "synced (wo_etcd w') (watermarkKey (h_slot h)) (h_guardRev h) (guard_target h (ae_clock env i))"
      using synced_later [OF _ _ L] assms(1) unfolding handle_ok_def by blast
  qed
qed

section \<open>Cache writes and acknowledgements\<close>

text \<open>The fields only \<open>reclaim\<close> and \<open>Close\<close> change, or nobody.\<close>

definition hid :: "Handle \<Rightarrow> string \<times> u64 \<times> u64 \<times> string \<times> u64 \<times> resolvedOptions \<times> string \<times> nat \<times> bool" where
  "hid h = (h_kind h, h_slot h, h_worker h, h_uuid h, h_guardEpochSec h, h_r h, h_host h, h_lease h, h_closing h)"

definition quiet :: "Handle \<Rightarrow> world \<Rightarrow> Handle \<Rightarrow> world \<Rightarrow> bool" where
  "quiet h w h' w' \<longleftrightarrow> hview h' = hview h \<and> hid h' = hid h \<and> wo_etcd w' = wo_etcd w \<and> wo_reads w \<le> wo_reads w'"

lemma quiet_refl [simp]: "quiet h w h w"
  unfolding quiet_def by simp

lemma quiet_trans: "quiet h1 w1 h2 w2 \<Longrightarrow> quiet h2 w2 h3 w3 \<Longrightarrow> quiet h1 w1 h3 w3"
  unfolding quiet_def by simp

lemma quiet_reach: "quiet h w h' w' \<Longrightarrow> reach w w'"
  unfolding quiet_def by (simp add: reach_same)

lemma quiet_ok: "handle_ok env h w \<Longrightarrow> world_inv w \<Longrightarrow> quiet h w h' w' \<Longrightarrow> handle_ok env h' w'"
  by (rule handle_ok_view [OF handle_ok_reach [OF _ quiet_reach]]) (auto simp: quiet_def)

lemma writeCacheLocked_quiet: "writeCacheLocked env h w = (h', w') \<Longrightarrow> quiet h w h' w'"
  unfolding writeCacheLocked_def writeCacheFile_def quiet_def hview_def hid_def by (auto simp: Let_def split: if_splits)

lemma flushCacheLocked_quiet: "flushCacheLocked env h w = (h', w') \<Longrightarrow> quiet h w h' w'"
  unfolding flushCacheLocked_def by (auto split: if_splits intro: writeCacheLocked_quiet)

lemma quiet_upd:
  "quiet h w (h \<lparr>h_cache := c, h_cacheDirty := b\<rparr>) w" "quiet h w (h \<lparr>h_watermarkDegraded := b\<rparr>) w"
  "quiet h w (h \<lparr>h_needReclaim := b\<rparr>) w" "quiet h w (h \<lparr>h_needReclaim := b, h_registered := b'\<rparr>) w"
  unfolding quiet_def hview_def hid_def by simp_all

lemma noteLocalHighWaterLocked_quiet: "noteLocalHighWaterLocked env s m h w = (h', w') \<Longrightarrow> quiet h w h' w'"
  unfolding noteLocalHighWaterLocked_def Let_def
  by (auto split: if_splits intro: quiet_trans [OF quiet_upd(1) writeCacheLocked_quiet] quiet_upd(1))

lemma noteWatermarkWriteFailedLocked_quiet: "noteWatermarkWriteFailedLocked env h w = (h', w') \<Longrightarrow> quiet h w h' w'"
  unfolding noteWatermarkWriteFailedLocked_def by (blast intro: quiet_trans quiet_upd(2) flushCacheLocked_quiet)

lemma ackLocked_quiet:
  assumes "ackLocked env h w = (h', w')"
  shows "quiet h w h' w'"
proof -
  obtain r1 w1 where r1: "read_clock env w = (r1, w1)" by fastforce
  obtain r2 w2 where r2: "read_clock env w1 = (r2, w2)" by fastforce
  define h1 where "h1 = h \<lparr>h_fence := Ack (h_fence h) r1 r2, h_node := map_option (atomic_step (AAck r1 r2)) (h_node h),
                  h_watermarkDegraded := False\<rparr>"
  have q1: "quiet h w h1 w2"
    using r1 r2 unfolding h1_def quiet_def hview_def hid_def read_clock_def by (auto simp: option.map_comp comp_def)
  have E: "(if ro_cachePath (h_r h) = '''' then (h1, w2)
      else
        let h2 = h1 \<lparr>h_cache := (h_cache h1) \<lparr>ca_incarnation := h_incarnation h1, ca_lastWatermark := h_guardWritten h1,
                       ca_lastWatermarkMs := h_msWritten h1,
                       ca_lastAckWall := gt_wall (LastAckWall (h_fence h1)) div 1000000\<rparr>, h_cacheDirty := True\<rparr> in
        if h_incarnation h2 \<noteq> h_cacheWrittenInc h2 then writeCacheLocked env h2 w2 else (h2, w2)) = (h', w')"
    using assms r1 r2 unfolding ackLocked_def h1_def by (simp add: Let_def)
  have "quiet h1 w2 h' w'"
    using E unfolding Let_def
    by (auto split: if_splits intro: quiet_trans [OF quiet_upd(1) writeCacheLocked_quiet] quiet_upd(1))
  then show ?thesis using quiet_trans q1 by blast
qed

lemma guard_target_ge: "h_guardWritten h \<le> guard_target h rd"
  unfolding guard_target_def Let_def by auto

lemma guard_target_mono:
  assumes "NowEpochSec rd \<le> NowEpochSec rd'" and "unat (NowEpochSec rd') < 2 ^ 63"
  shows "guard_target h rd \<le> guard_target h rd'"
proof -
  have m: "a + guardLeadSec \<le> b + guardLeadSec" if "a \<le> b" "unat b < 2 ^ 63" for a b
  proof -
    have "unat (b + guardLeadSec) = unat b + 2" "unat (a + guardLeadSec) = unat a + 2"
      using that unfolding guardLeadSec_def word_le_nat_alt by (simp_all add: unat_word_ariths)
    then show ?thesis using that(1) unfolding word_le_nat_alt by simp
  qed
  have m1: "NowEpochSec rd + guardLeadSec \<le> NowEpochSec rd' + guardLeadSec" using m assms by blast
  have m2: "hw + guardLeadSec \<le> NowEpochSec rd' + guardLeadSec" if "hw \<le> NowEpochSec rd'" for hw using m that assms by blast
  have clip: "(if t < g then g else t) \<le> (if t' < g then g else t')" if "t \<le> t'" for t t' g :: u64 using that by auto
  show ?thesis
    unfolding guard_target_view Let_def
    by (rule clip) (use assms(1) m1 m2 in \<open>auto split: option.splits simp: not_less\<close>)
qed

lemma steady_target: "steady env \<Longrightarrow> i \<le> j \<Longrightarrow> guard_target h (ae_clock env i) \<le> guard_target h (ae_clock env j)"
  unfolding steady_def by (rule guard_target_mono) (auto intro: less_trans [of _ "2 ^ 62"])

lemma guard_target_cong:
  "h_guardWritten h' = h_guardWritten h \<Longrightarrow> map_option lastTime (h_node h') = map_option lastTime (h_node h) \<Longrightarrow>
     guard_target h' rd = guard_target h rd"
  unfolding guard_target_view by (simp only:)

lemma advanceGuard_ok:
  assumes F: "follows env" and S: "steady env" and I: "world_inv w" and H: "handle_ok env h w"
    and E: "advanceGuard env h w = (b, h', w')"
  shows "reach w w'" and "handle_ok env h' w'" and "hid h' = hid h"
    and "b \<Longrightarrow> holder_of (wo_etcd w') (h_slot h) = Some (h_uuid h) \<and> watermark_of (wo_etcd w') (h_slot h) = h_guardWritten h' \<and>
           guard_target h (ae_clock env (wo_reads w)) \<le> h_guardWritten h'"
proof -
  let ?rd = "ae_clock env (wo_reads w)" and ?k = "watermarkKey (h_slot h)"
  define w1 where "w1 = w \<lparr>wo_reads := Suc (wo_reads w)\<rparr>"
  define target where "target = guard_target h ?rd"
  define legacy where "legacy = (if legacyMirror (h_r h) then Some (legacyGuardKey (h_slot h)) else None)"
  obtain h1 w2 where n: "noteLocalHighWaterLocked env target 0 h w1 = (h1, w2)" by fastforce
  have q: "quiet h w1 h1 w2" by (rule noteLocalHighWaterLocked_quiet [OF n])
  have r1: "reach w w1" unfolding w1_def by (rule reach_same) simp_all
  have r2: "reach w w2" using r1 quiet_reach [OF q] reach_trans by blast
  have I2: "world_inv w2" by (rule reach_inv [OF r2 I])
  have H2: "handle_ok env h1 w2" by (rule quiet_ok [OF handle_ok_reach [OF H r1 I] reach_inv [OF r1 I] q])
  have v: "h_slot h1 = h_slot h" "h_uuid h1 = h_uuid h" "h_guardRev h1 = h_guardRev h" "h_guardWritten h1 = h_guardWritten h"
      "map_option lastTime (h_node h1) = map_option lastTime (h_node h)" "hid h1 = hid h"
    using q unfolding quiet_def hview_def by simp_all
  obtain res rv w3 where p: "put_attempts 2 env h1 ?k legacy target (h_guardRev h1) w2 = (res, rv, w3)"
    using prod_cases3 by blast
  have sy: "synced (wo_etcd w2) ?k (h_guardRev h1) target"
  proof -
    have "synced (wo_etcd w) ?k (h_guardRev h) target" using H unfolding handle_ok_def target_def by blast
    moreover have "h_guardRev h \<le> ek_rev (wo_etcd w)" using H unfolding handle_ok_def by blast
    ultimately show ?thesis using synced_later reach_later [OF r2 I] v(3) by simp
  qed
  have "wm_key ?k legacy" unfolding wm_key_def legacy_def by simp
  moreover have "known ?k (h_guardRev h1) (wo_etcd w2)" using H2 unfolding handle_ok_def by simp
  ultimately have p3: "reach w2 w3" "put_post h1 ?k target res rv (wo_etcd w3)"
    using put_attempts_ok [OF F I2 _ sy _ p] by blast+
  have I3: "world_inv w3" by (rule reach_inv [OF p3(1) I2])
  have H3: "handle_ok env h1 w3" by (rule handle_ok_reach [OF H2 p3(1) I2])
  have lim: "wo_reads w \<le> wo_reads w3" using reach_trans [OF r2 p3(1)] unfolding reach_def by blast
  define h2 where "h2 = h1 \<lparr>h_guardRev := rv\<rparr>"
  have E': "(case res of
           PutErr \<Rightarrow> (False, noteWatermarkWriteFailedLocked env h2 w3)
         | PutNotOwned \<Rightarrow> (False, noteWatermarkWriteFailedLocked env (h2 \<lparr>h_needReclaim := True\<rparr>) w3)
         | PutOk persisted \<Rightarrow>
             let h3 = (if persisted > target
                       then h2 \<lparr>h_node := map_option (\<lambda>n. SetGuardTime n persisted) (h_node h2)\<rparr> else h2) in
             (True, ackLocked env (h3 \<lparr>h_guardWritten := persisted\<rparr>) w3)) = (b, h', w')"
    using E n p unfolding advanceGuard_def read_clock_def putWatermarkLocked_def h2_def target_def legacy_def w1_def
    by (simp add: Let_def)
  have all: "reach w w' \<and> handle_ok env h' w' \<and> hid h' = hid h \<and>
      (b \<longrightarrow> holder_of (wo_etcd w') (h_slot h) = Some (h_uuid h) \<and> watermark_of (wo_etcd w') (h_slot h) = h_guardWritten h' \<and>
           target \<le> h_guardWritten h')"
  proof (cases "\<exists>p. res = PutOk p")
    case False
    then obtain hx where hx: "hx = h2 \<or> hx = h2 \<lparr>h_needReclaim := True\<rparr>" "\<not> b" "noteWatermarkWriteFailedLocked env hx w3 = (h', w')"
      using E' by (cases res) auto
    have s3: "rv \<le> ek_rev (wo_etcd w3)" "synced (wo_etcd w3) ?k rv target"
      using p3(2) False unfolding put_post_def by (cases res; simp)+
    have "synced (wo_etcd w3) ?k rv (guard_target h2 (ae_clock env i))" if "wo_reads w3 \<le> i" for i
    proof -
      have "guard_target h2 (ae_clock env i) = guard_target h (ae_clock env i)"
        by (rule guard_target_cong) (simp_all add: h2_def v)
      then show ?thesis using synced_mono [OF s3(2)] steady_target [OF S, of "wo_reads w" i] lim that unfolding target_def by simp
    qed
    then have ok2: "handle_ok env h2 w3" using H3 s3(1) v(1) unfolding handle_ok_def by (simp add: h2_def)
    have "handle_ok env hx w3" using hx(1) quiet_ok [OF ok2 I3 quiet_upd(3)] ok2 by blast
    then have "handle_ok env h' w'" using quiet_ok I3 noteWatermarkWriteFailedLocked_quiet [OF hx(3)] by blast
    moreover have "reach w w'" using r2 p3(1) quiet_reach [OF noteWatermarkWriteFailedLocked_quiet [OF hx(3)]] reach_trans by blast
    moreover have "hid hx = hid h" using hx(1) v(6) unfolding hid_def h2_def by auto
    ultimately show ?thesis using hx(2) noteWatermarkWriteFailedLocked_quiet [OF hx(3)] unfolding quiet_def by simp
  next
    case True
    then obtain p where res: "res = PutOk p" by blast
    define h4 where "h4 = (if p > target then h2 \<lparr>h_node := map_option (\<lambda>n. SetGuardTime n p) (h_node h2)\<rparr> else h2) \<lparr>h_guardWritten := p\<rparr>"
    have b: b and a: "ackLocked env h4 w3 = (h', w')" using E' res unfolding h4_def by (simp_all add: Let_def)
    have v4: "h_guardRev h4 = rv" "h_guardWritten h4 = p" "h_slot h4 = h_slot h1" "h_lease h4 = h_lease h1" "h_uuid h4 = h_uuid h1"
        "h_closing h4 = h_closing h1" "hid h4 = hid h1"
      unfolding h4_def h2_def hid_def by auto
    have pp: "rv \<le> ek_rev (wo_etcd w3)" "target \<le> p" "holder_of (wo_etcd w3) (h_slot h) = Some (h_uuid h)"
        "\<exists>x. get (wo_etcd w3) ?k = Some x \<and> kv_value x = Dec p \<and> kv_mod x = rv"
      using p3(2) res v unfolding put_post_def by simp_all
    have wm: "watermark_of (wo_etcd w3) (h_slot h) = p" using pp(4) unfolding watermark_of_def by auto
    have "synced (wo_etcd w3) ?k rv p" using pp(4) unfolding synced_def by auto
    then have "synced (wo_etcd w3) ?k rv (guard_target h4 rd)" for rd using synced_mono guard_target_ge [of h4 rd] v4(2) by simp
    then have "handle_ok env h4 w3" using H3 pp(1) v4 v(1) unfolding handle_ok_def by simp
    then have "handle_ok env h' w'" using quiet_ok I3 ackLocked_quiet [OF a] by blast
    moreover have "reach w w'" using r2 p3(1) quiet_reach [OF ackLocked_quiet [OF a]] reach_trans by blast
    ultimately show ?thesis using ackLocked_quiet [OF a] pp wm v4 v(6) unfolding quiet_def hview_def by simp
  qed
  then show "reach w w'" "handle_ok env h' w'" "hid h' = hid h" by blast+
  show "holder_of (wo_etcd w') (h_slot h) = Some (h_uuid h) \<and> watermark_of (wo_etcd w') (h_slot h) = h_guardWritten h' \<and>
           guard_target h ?rd \<le> h_guardWritten h'" if b
    using all that unfolding target_def by blast
qed

section \<open>Reading\<close>

definition reads :: "(world \<Rightarrow> 'a \<times> world) \<Rightarrow> bool" where
  "reads m \<longleftrightarrow> (\<forall>w a w'. world_inv w \<longrightarrow> m w = (a, w') \<longrightarrow> reach w w')"

lemma reads_request: "follows env \<Longrightarrow> read_only f \<Longrightarrow> reads (request env f)"
  unfolding reads_def using request_read by blast

lemma reads_ret: "reads (\<lambda>w. (a, w))"
  unfolding reads_def by auto

lemma reads_bind:
  assumes "reads m" "\<And>a. reads (k a)"
  shows "reads (\<lambda>w. case m w of (a, w1) \<Rightarrow> k a w1)"
  unfolding reads_def
proof (intro allI impI)
  fix w c w' assume I: "world_inv w" and E: "(case m w of (a, w1) \<Rightarrow> k a w1) = (c, w')"
  obtain a w1 where m: "m w = (a, w1)" by fastforce
  have r: "reach w w1" using assms(1) I m unfolding reads_def by blast
  have "reach w1 w'" using assms(2) [of a] reach_inv [OF r I] E m unfolding reads_def by auto
  then show "reach w w'" using r reach_trans by blast
qed

lemma reads_clock: "reads (read_clock env)"
  unfolding reads_def using read_clock_reach by blast

lemma reads_option:
  "reads f \<Longrightarrow> (\<And>x. reads (g x)) \<Longrightarrow> reads (\<lambda>w. case a of None \<Rightarrow> f w | Some x \<Rightarrow> g x w)"
  by (cases a) simp_all

lemma reads_prod: "(\<And>x y. reads (f x y)) \<Longrightarrow> reads (\<lambda>w. case p of (x, y) \<Rightarrow> f x y w)"
  by (cases p) simp

lemma reads_val:
  "(\<And>v. reads (f v)) \<Longrightarrow> (\<And>v. reads (g v)) \<Longrightarrow> reads (\<lambda>w. case a of Dec v \<Rightarrow> f v w | Text v \<Rightarrow> g v w)"
  by (cases a) simp_all

lemma reads_if: "reads f \<Longrightarrow> reads g \<Longrightarrow> reads (\<lambda>w. if b then f w else g w)"
  by (cases b) simp_all

lemmas reads_intros = reads_ret reads_clock reads_request reads_option reads_prod reads_val reads_if read_only_calls

lemma reads_readUintRev: "follows env \<Longrightarrow> reads (readUintRev env k)"
  unfolding readUintRev_def by (intro reads_bind reads_intros)

lemma reads_readUint: "follows env \<Longrightarrow> reads (readUint env k)"
  unfolding readUint_def by (intro reads_bind reads_readUintRev reads_intros)

lemma reads_readWatermarkFloor: "follows env \<Longrightarrow> reads (readWatermarkFloor env r s)"
  unfolding readWatermarkFloor_def by (intro reads_bind reads_readUintRev reads_readUint reads_intros)

lemma reads_floor_attempts: "follows env \<Longrightarrow> reads (floor_attempts n env r s)"
proof (induction n)
  case 0
  have "floor_attempts 0 env r s = (\<lambda>w. (None, w))" by (rule ext) simp
  then show ?case by (simp only: reads_ret)
next
  case (Suc n)
  have "floor_attempts (Suc n) env r s =
      (\<lambda>w. case readWatermarkFloor env r s w of (a, w1) \<Rightarrow>
         (case a of None \<Rightarrow> floor_attempts n env r s w1 | Some x \<Rightarrow> (Some x, w1)))"
    by (rule ext) (simp split: option.splits prod.splits)
  then show ?case using Suc by (simp only:) (intro reads_bind reads_readWatermarkFloor reads_intros, simp_all)
qed

lemma reads_readMsWatermarkRaw: "follows env \<Longrightarrow> reads (readMsWatermarkRaw env h)"
  unfolding readMsWatermarkRaw_def by (intro reads_bind reads_readUint reads_intros)

lemma reads_scanUsedSlots: "follows env \<Longrightarrow> reads (scanUsedSlots env r)"
  unfolding scanUsedSlots_def Let_def by (intro reads_bind reads_intros)

lemma reads_scanSecMap: "follows env \<Longrightarrow> reads (scanSecMap env f d)"
  unfolding scanSecMap_def by (intro reads_bind reads_intros)

lemma reads_scanWatermarks: "follows env \<Longrightarrow> reads (scanWatermarks env r)"
  unfolding scanWatermarks_def by (intro reads_bind reads_scanSecMap reads_intros)

lemma readsD: "reads m \<Longrightarrow> world_inv w \<Longrightarrow> m w = (a, w') \<Longrightarrow> reach w w'"
  unfolding reads_def by blast

text \<open>A floor that has been read is not below any watermark stored before, and its revision is in
  step with it.\<close>

definition floor_ok :: "world \<Rightarrow> world \<Rightarrow> u64 \<Rightarrow> u64 \<Rightarrow> nat \<Rightarrow> bool" where
  "floor_ok w w' slot floor rv \<longleftrightarrow>
     rv \<le> ek_rev (wo_etcd w') \<and> synced (wo_etcd w') (watermarkKey slot) rv floor \<and> watermark_of (wo_etcd w) slot \<le> floor"

lemma readUintRev_floor:
  assumes F: "follows env" and I: "world_inv w" and E: "readUintRev env (watermarkKey s) w = (Some (v, rv), w')"
  shows "floor_ok w w' s v rv"
proof -
  obtain a w1 where q: "request env (Get (watermarkKey s)) w = (a, w1)" by fastforce
  then obtain x n where a: "a = Some (x, n)" and w1: "w1 = w'" using E unfolding readUintRev_def by (cases a) (auto split: option.splits etcd_val.splits)
  note q' = q [unfolded a w1]
  have r: "reach w w'" by (rule request_read [OF F I _ q']) simp
  have x: "x = get (wo_etcd w') (watermarkKey s)"
    using request_answer [OF F I q'] unfolding Get_def by blast
  have v: "case x of None \<Rightarrow> v = 0 \<and> rv = 0 | Some y \<Rightarrow> kv_value y = Dec v \<and> rv = kv_mod y"
    using E q a unfolding readUintRev_def by (auto split: option.splits etcd_val.splits)
  have "rv \<le> ek_rev (wo_etcd w')"
    using v x get_mod_le [OF reach_inv [OF r I]] by (auto split: option.splits)
  moreover have "watermark_of (wo_etcd w') s = v" using v x unfolding watermark_of_def by (auto split: option.splits)
  moreover have "synced (wo_etcd w') (watermarkKey s) rv v" using v x unfolding synced_def by (auto split: option.splits)
  moreover have "watermark_of (wo_etcd w) s \<le> watermark_of (wo_etcd w') s" using reach_later [OF r I] unfolding later_def by blast
  ultimately show ?thesis unfolding floor_ok_def by simp
qed

lemma floor_ok_reach:
  assumes "floor_ok w w1 s fl rv" "reach w1 w2" "world_inv w1"
  shows "floor_ok w w2 s fl rv"
proof -
  have L: "later (wo_etcd w1) (wo_etcd w2)" using reach_later assms(2,3) by blast
  then have "ek_rev (wo_etcd w1) \<le> ek_rev (wo_etcd w2)" unfolding later_def by blast
  then show ?thesis using assms(1) synced_later [OF _ _ L] unfolding floor_ok_def by auto
qed

lemma floor_ok_mono: "floor_ok w w' s fl rv \<Longrightarrow> fl \<le> fl' \<Longrightarrow> floor_ok w w' s fl' rv"
  unfolding floor_ok_def using synced_mono by auto

lemma floor_ok_before:
  assumes "floor_ok w1 w2 s fl rv" "reach w w1" "world_inv w"
  shows "floor_ok w w2 s fl rv"
  using assms(1) reach_later [OF assms(2,3)] unfolding floor_ok_def later_def by (meson order_trans)

lemma readWatermarkFloor_ok:
  assumes F: "follows env" and I: "world_inv w" and E: "readWatermarkFloor env r s w = (Some (fl, rv), w')"
  shows "floor_ok w w' s fl rv"
proof -
  obtain v w1 where q: "readUintRev env (watermarkKey s) w = (Some (v, rv), w1)"
    and rest: "(w' = w1 \<and> fl = v) \<or> (\<exists>l. readUint env (legacyGuardKey s) w1 = (Some l, w') \<and> fl = (if l > v then l else v))"
    using E unfolding readWatermarkFloor_def by (auto split: option.splits prod.splits if_splits)
  have r1: "reach w w1" by (rule readsD [OF reads_readUintRev [OF F] I q])
  note I1 = reach_inv [OF r1 I]
  have f: "floor_ok w w1 s v rv" by (rule readUintRev_floor [OF F I q])
  from rest show ?thesis
  proof
    assume "w' = w1 \<and> fl = v"
    then show ?thesis using f by simp
  next
    assume "\<exists>l. readUint env (legacyGuardKey s) w1 = (Some l, w') \<and> fl = (if l > v then l else v)"
    then obtain l where l: "readUint env (legacyGuardKey s) w1 = (Some l, w')" "fl = (if l > v then l else v)" by blast
    have "reach w1 w'" by (rule readsD [OF reads_readUint [OF F] I1 l(1)])
    then show ?thesis using floor_ok_mono [OF floor_ok_reach [OF f _ I1]] l(2) by auto
  qed
qed

lemma floor_attempts_ok:
  assumes F: "follows env" and "world_inv w" and "floor_attempts n env r s w = (Some (fl, rv), w')"
  shows "floor_ok w w' s fl rv"
  using assms(2,3)
proof (induction n arbitrary: w)
  case (Suc n)
  obtain a w1 where q: "readWatermarkFloor env r s w = (a, w1)" by fastforce
  have r: "reach w w1" by (rule readsD [OF reads_readWatermarkFloor [OF F] Suc.prems(1) q])
  show ?case
  proof (cases a)
    case None
    then have "floor_attempts n env r s w1 = (Some (fl, rv), w')" using Suc.prems(2) q by simp
    then show ?thesis using Suc.IH [OF reach_inv [OF r Suc.prems(1)]] floor_ok_before [OF _ r Suc.prems(1)] by blast
  next
    case (Some x)
    then show ?thesis using readWatermarkFloor_ok [OF F Suc.prems(1)] Suc.prems(2) q by simp
  qed
qed simp

end
