(* ===== verification/AllocClaim.thy ===== *)
theory AllocClaim
  imports AllocSteps
begin

text \<open>
  Claiming a slot and starting: \<open>allocate\<close> and \<open>AllocateWithKeepAlive\<close> follow the protocol, take a
  slot only when nobody holds it or its holder has closed, and a fresh claim waits out the quarantine.
\<close>

section \<open>Computations that follow the protocol\<close>

definition stable :: "(world \<Rightarrow> bool) \<Rightarrow> bool" where
  "stable P \<longleftrightarrow> (\<forall>w w'. world_inv w \<longrightarrow> P w \<longrightarrow> reach w w' \<longrightarrow> P w')"

definition keeps :: "(world \<Rightarrow> bool) \<Rightarrow> (world \<Rightarrow> 'a \<times> world) \<Rightarrow> ('a \<Rightarrow> world \<Rightarrow> bool) \<Rightarrow> bool" where
  "keeps P m Q \<longleftrightarrow> (\<forall>w a w'. world_inv w \<longrightarrow> P w \<longrightarrow> m w = (a, w') \<longrightarrow> reach w w' \<and> Q a w')"

lemma keepsD: "keeps P m Q \<Longrightarrow> world_inv w \<Longrightarrow> P w \<Longrightarrow> m w = (a, w') \<Longrightarrow> reach w w' \<and> Q a w'"
  unfolding keeps_def by blast

lemma keeps_ret: "(\<And>w. P w \<Longrightarrow> Q a w) \<Longrightarrow> keeps P (\<lambda>w. (a, w)) Q"
  unfolding keeps_def by auto

lemma keeps_reads: "reads m \<Longrightarrow> keeps P m (\<lambda>_ _. True)"
  unfolding keeps_def reads_def by blast

lemma keeps_bind:
  assumes "stable P" "keeps P m R" "\<And>a. keeps (\<lambda>w. P w \<and> R a w) (k a) Q"
  shows "keeps P (\<lambda>w. case m w of (a, w1) \<Rightarrow> k a w1) Q"
  unfolding keeps_def
proof (intro allI impI)
  fix w c w' assume I: "world_inv w" and P: "P w" and E: "(case m w of (a, w1) \<Rightarrow> k a w1) = (c, w')"
  obtain a w1 where m: "m w = (a, w1)" by fastforce
  have r: "reach w w1" "R a w1" using keepsD [OF assms(2) I P m] by blast+
  have "P w1" using assms(1) I P r(1) unfolding stable_def by blast
  then have "reach w1 w' \<and> Q c w'" using keepsD [OF assms(3) reach_inv [OF r(1) I]] r(2) E m by auto
  then show "reach w w' \<and> Q c w'" using r(1) reach_trans by blast
qed

lemma keeps_read:
  assumes "stable P" "reads m" "\<And>a. keeps P (k a) Q"
  shows "keeps P (\<lambda>w. case m w of (a, w1) \<Rightarrow> k a w1) Q"
  by (rule keeps_bind [OF assms(1) keeps_reads [OF assms(2)]]) (simp add: assms(3))

lemma keeps_pre: "keeps P m Q \<Longrightarrow> (\<And>w. P' w \<Longrightarrow> P w) \<Longrightarrow> keeps P' m Q"
  unfolding keeps_def by blast

lemma keeps_option:
  "(a = None \<Longrightarrow> keeps P f Q) \<Longrightarrow> (\<And>x. a = Some x \<Longrightarrow> keeps P (g x) Q) \<Longrightarrow>
     keeps P (\<lambda>w. case a of None \<Rightarrow> f w | Some x \<Rightarrow> g x w) Q"
  by (cases a) simp_all

lemma keeps_prod: "(\<And>x y. p = (x, y) \<Longrightarrow> keeps P (f x y) Q) \<Longrightarrow> keeps P (\<lambda>w. case p of (x, y) \<Rightarrow> f x y w) Q"
  by (cases p) simp

lemma keeps_val:
  "(\<And>v. a = Dec v \<Longrightarrow> keeps P (f v) Q) \<Longrightarrow> (\<And>v. a = Text v \<Longrightarrow> keeps P (g v) Q) \<Longrightarrow>
     keeps P (\<lambda>w. case a of Dec v \<Rightarrow> f v w | Text v \<Rightarrow> g v w) Q"
  by (cases a) simp_all

lemma keeps_if: "(b \<Longrightarrow> keeps P f Q) \<Longrightarrow> (\<not> b \<Longrightarrow> keeps P g Q) \<Longrightarrow> keeps P (\<lambda>w. if b then f w else g w) Q"
  by (cases b) simp_all

lemma keeps_request:
  assumes F: "follows env"
    and step: "\<And>w db b db'. world_inv w \<Longrightarrow> P w \<Longrightarrow> alloc_step\<^sup>*\<^sup>* (wo_etcd w) db \<Longrightarrow> etcd_inv db \<Longrightarrow> f db = Some (b, db') \<Longrightarrow>
        alloc_step\<^sup>*\<^sup>* db db' \<and> (\<forall>w'. wo_etcd w' = db' \<longrightarrow> wo_reads w' = wo_reads w \<longrightarrow> R (Some b) w')"
    and none: "\<And>w'. R None w'"
  shows "keeps P (request env f) R"
  unfolding keeps_def
proof (intro allI impI)
  fix w a w' assume I: "world_inv w" and P: "P w" and E: "request env f w = (a, w')"
  have "reach w w'" by (rule request_reach [OF F I E]) (use step [OF I P] in blast)
  moreover have "R a w'"
  proof (cases a)
    case (Some b)
    have "wo_reads w' = wo_reads w" using E unfolding request_def by (auto split: prod.splits)
    then show ?thesis using request_answer [OF F I E [unfolded Some]] step [OF I P] Some by metis
  qed (simp add: none)
  ultimately show "reach w w' \<and> R a w'" by blast
qed

section \<open>Claims\<close>

text \<open>The slot was taken at a state \<open>db\<close> on the way, where nobody held it or a closed holder did.\<close>

definition took :: "world \<Rightarrow> string \<Rightarrow> nat \<Rightarrow> claim \<Rightarrow> world \<Rightarrow> bool" where
  "took w0 uuid lease c w \<longleftrightarrow>
     cl_uuid c = uuid \<and> cl_lease c = lease \<and> holder_of (wo_etcd w) (cl_slot c) = Some uuid \<and>
     (\<exists>db. alloc_step\<^sup>*\<^sup>* (wo_etcd w0) db \<and> alloc_step\<^sup>*\<^sup>* db (wo_etcd w) \<and>
        (\<forall>u. holder_of db (cl_slot c) = Some u \<longrightarrow> cl_reused c \<and> u \<in> set (ek_fenced db)))"

definition ready :: "world \<Rightarrow> nat \<Rightarrow> string \<Rightarrow> world \<Rightarrow> bool" where
  "ready w0 lease uuid w \<longleftrightarrow> leased w lease uuid \<and> reach w0 w"

lemma stable_ready: "stable (ready w0 lease uuid)"
  unfolding stable_def ready_def using leased_reach reach_trans by blast

lemma ready_granted:
  "ready w0 lease uuid w \<Longrightarrow> world_inv w \<Longrightarrow> alloc_step\<^sup>*\<^sup>* (wo_etcd w) db \<Longrightarrow> lease \<noteq> 0 \<and> ek_granted db lease = uuid"
  unfolding ready_def using leased_later alloc_steps_later unfolding leased_def by blast

lemma ready_steps: "ready w0 lease uuid w \<Longrightarrow> alloc_step\<^sup>*\<^sup>* (wo_etcd w) db \<Longrightarrow> alloc_step\<^sup>*\<^sup>* (wo_etcd w0) db"
  unfolding ready_def reach_def by auto

lemma keeps_reuse_txn:
  assumes F: "follows env" and p: "predLease \<noteq> 0"
  shows "keeps (ready w0 lease uuid)
     (request env (txn (reuse_cmps host slot predLease predUUID) (reuse_ops r host slot uuid lease) []))
     (\<lambda>a w. \<forall>t. a = Some t \<longrightarrow> tr_succeeded t \<longrightarrow>
        took w0 uuid lease \<lparr>cl_lease = lease, cl_slot = slot, cl_uuid = uuid, cl_incarnation = tr_revision t, cl_reused = True\<rparr> w)"
proof (rule keeps_request [OF F])
  fix w db b db'
  assume I: "world_inv w" and P: "ready w0 lease uuid w" and s: "alloc_step\<^sup>*\<^sup>* (wo_etcd w) db" and "etcd_inv db"
    and "txn (reuse_cmps host slot predLease predUUID) (reuse_ops r host slot uuid lease) [] db = Some (b, db')"
  note step = reuse_step [OF this(4,5) _ _ p]
  have g: "lease \<noteq> 0" "ek_granted db lease = uuid" using ready_granted [OF P I s] by blast+
  have s0: "alloc_step\<^sup>*\<^sup>* (wo_etcd w0) db" by (rule ready_steps [OF P s])
  show "alloc_step\<^sup>*\<^sup>* db db' \<and> (\<forall>w'. wo_etcd w' = db' \<longrightarrow> wo_reads w' = wo_reads w \<longrightarrow>
      (\<forall>t. Some b = Some t \<longrightarrow> tr_succeeded t \<longrightarrow> took w0 uuid lease
        \<lparr>cl_lease = lease, cl_slot = slot, cl_uuid = uuid, cl_incarnation = tr_revision t, cl_reused = True\<rparr> w'))"
    using step(1) [OF g] step(2) [OF g] step(3) [OF g] s0 unfolding took_def by auto
qed simp

definition reuse_pair :: "etcd_resp list \<Rightarrow> bool" where
  "reuse_pair rs \<longleftrightarrow> (\<exists>a m. rs = [RespGet (Some a), RespGet (Some m)])"

lemma reuse_no_pair:
  "\<not> reuse_pair rs \<Longrightarrow> (case rs of [RespGet (Some a), RespGet (Some m)] \<Rightarrow> f a m | _ \<Rightarrow> g) = g"
  unfolding reuse_pair_def by (auto split: list.splits etcd_resp.splits option.splits)

lemma tryReuse_ok:
  assumes F: "follows env"
  shows "keeps (ready w0 lease uuid) (tryReuse env host uuid lease r)
     (\<lambda>res w. \<forall>c. res = Inr (Some c) \<longrightarrow> took w0 uuid lease c w \<and> cl_reused c)"
  unfolding tryReuse_def
proof (rule keeps_read [OF stable_ready reads_request [OF F]])
  show "read_only (txn [] [OpGet (affinityKey host), OpGet (releasedKey host)] [])" by simp
next
  fix a
  let ?k = "\<lambda>w1. (case a of None \<Rightarrow> (Inl ErrEtcd, w1)
      | Some rd \<Rightarrow>
        (case tr_responses rd of
           [RespGet (Some a), RespGet (Some m)] \<Rightarrow>
             let predLease = kv_lease a in
             if predLease = 0 \<or> kv_lease m \<noteq> predLease then (Inr None, w1)
             else (case kv_value a of Text _ \<Rightarrow> (Inr None, w1)
               | Dec slot \<Rightarrow>
                 if slot > ro_maxSlot r then (Inr None, w1)
                 else (case request env (Get (slotKey slot)) w1 of
                     (None, w2) \<Rightarrow> (Inl ErrEtcd, w2)
                   | (Some (None, _), w2) \<Rightarrow> (Inr None, w2)
                   | (Some (Some s, _), w2) \<Rightarrow>
                     if kv_lease s \<noteq> predLease then (Inr None, w2)
                     else (case request env (txn (reuse_cmps host slot predLease (kv_value s))
                                                (reuse_ops r host slot uuid lease) []) w2 of
                         (None, w3) \<Rightarrow> (Inl ErrEtcd, w3)
                       | (Some t, w3) \<Rightarrow>
                         if \<not> tr_succeeded t then (Inr None, w3)
                         else (Inr (Some \<lparr>cl_lease = lease, cl_slot = slot, cl_uuid = uuid,
                                          cl_incarnation = tr_revision t, cl_reused = True\<rparr>), w3))))
         | _ \<Rightarrow> (Inr None, w1)))"
  let ?Q = "\<lambda>res w. \<forall>c. res = Inr (Some c) \<longrightarrow> took w0 uuid lease c w \<and> cl_reused c"
  show "keeps (ready w0 lease uuid) ?k ?Q"
  proof (cases "\<exists>rd. a = Some rd \<and> reuse_pair (tr_responses rd)")
    case False
    then have "\<exists>e. (e = Inl ErrEtcd \<or> e = Inr None) \<and> ?k = (\<lambda>w. (e, w))" by (cases a) (auto simp: reuse_no_pair)
    then show ?thesis by (auto intro!: keeps_ret)
  next
    case True
    then obtain rd x m where rd: "a = Some rd" "tr_responses rd = [RespGet (Some x), RespGet (Some m)]"
      unfolding reuse_pair_def by blast
    show ?thesis unfolding rd Let_def option.case list.case etcd_resp.case
      by (intro keeps_if keeps_val keeps_read [OF stable_ready reads_request [OF F]] keeps_option keeps_prod
          keeps_bind [OF stable_ready keeps_reuse_txn [OF F]] keeps_ret read_only_calls) auto
  qed
qed

section \<open>Quarantine\<close>

lemma selected_from_candidate:
  "selectSlot_from used wm now q m s acc = Some (b, bw) \<Longrightarrow>
     (\<And>c cw. acc = Some (c, cw) \<Longrightarrow> slot_candidate used wm now q c) \<Longrightarrow> slot_candidate used wm now q b"
proof (induction used wm now q m s acc rule: selectSlot_from.induct)
  case (1 used wm now q m s acc)
  let ?k = "word_of_nat s :: u64"
  let ?acc = "case acc of None \<Rightarrow> Some (?k, wm ?k)
    | Some (b, bw) \<Rightarrow> if wm ?k < bw then Some (?k, wm ?k) else acc"
  note E = "1.prems"(1) [unfolded selectSlot_from.simps [of used wm now q m s]]
  show ?case
  proof (cases "m < s")
    case True
    then show ?thesis using E "1.prems"(2) by simp
  next
    case F: False
    show ?thesis
    proof (cases "used ?k \<or> slot_quarantined (wm ?k) now q")
      case True
      then have "selectSlot_from used wm now q m (s + 1) acc = Some (b, bw)" using E F by (cases "used ?k") (simp_all add: Let_def)
      then show ?thesis using "1.IH"(1,2) [OF F refl refl] True "1.prems"(2) by blast
    next
      case False
      then have k: "slot_candidate used wm now q ?k" unfolding slot_candidate_def by simp
      have acc: "slot_candidate used wm now q c" if "?acc = Some (c, cw)" for c cw
        using that k "1.prems"(2) by (auto split: option.splits if_splits)
      have E': "(if wm ?k = 0 then ?acc else selectSlot_from used wm now q m (s + 1) ?acc) = Some (b, bw)"
        using E F False by (simp add: Let_def)
      show ?thesis
      proof (cases "wm ?k = 0")
        case True
        then show ?thesis using E' acc by simp
      next
        case nz: False
        have "selectSlot_from used wm now q m (s + 1) ?acc = Some (b, bw)" using E' nz by simp
        then show ?thesis using "1.IH"(3) [OF F refl refl _ _ refl nz] False acc by blast
      qed
    qed
  qed
qed

lemma selected_candidate: "selectSlot used wm now q m = (b, True) \<Longrightarrow> \<not> used b \<and> (wm b = 0 \<or> unat (wm b) + unat q \<le> unat now)"
proof -
  assume "selectSlot used wm now q m = (b, True)"
  then obtain bw where "selectSlot_from used wm now q (unat m) 0 None = Some (b, bw)"
    unfolding selectSlot_def by (auto split: option.splits)
  from selected_from_candidate [OF this] have "slot_candidate used wm now q b" by simp
  then show ?thesis
    by (auto simp: slot_candidate_def slot_quarantined_def word_less_nat_alt unat_sub_if' split: if_splits)
qed

lemma sec_pairs_covers:
  "(case map_of kvs (watermarkKey s) of Some x \<Rightarrow> (case kv_value x of Dec v \<Rightarrow> v | Text _ \<Rightarrow> 0) | None \<Rightarrow> 0)
     \<le> lookup0 (map_of (sec_pairs watermark_slot 1 kvs)) s"
proof (induction kvs)
  case (Cons p kvs)
  obtain k x where p: "p = (k, x)" by fastforce
  have sp: "sec_pairs watermark_slot 1 (p # kvs) =
      (case (watermark_slot k, kv_value x) of (Some s, Dec v) \<Rightarrow> (s, v) # sec_pairs watermark_slot 1 kvs | _ \<Rightarrow> sec_pairs watermark_slot 1 kvs)"
    unfolding sec_pairs_def p by (auto simp: List.map_filter_def split: option.splits etcd_val.splits)
  show ?case using Cons unfolding p sp [unfolded p] lookup0_def by (cases k; cases "kv_value x") auto
qed (simp add: lookup0_def)

lemma merge_grows: "lookup0 d s \<le> lookup0 (mergeWatermarks (Some d) src) s"
proof -
  have "lookup0 d s \<le> lookup0 (fold (\<lambda>(slot, w) d. if w > (case d slot of None \<Rightarrow> 0 | Some v \<Rightarrow> v) then d(slot \<mapsto> w) else d) src d) s"
  proof (induction src arbitrary: d)
    case (Cons p src)
    obtain t v where p: "p = (t, v)" by fastforce
    have "lookup0 d s \<le> lookup0 (if v > (case d t of None \<Rightarrow> 0 | Some v \<Rightarrow> v) then d(t \<mapsto> v) else d) s"
      unfolding lookup0_def by (auto split: option.splits)
    also note Cons
    finally show ?case by (simp add: p)
  qed simp
  then show ?thesis unfolding mergeWatermarks_def by simp
qed

text \<open>The map covers every watermark stored before the scan.\<close>

definition covers :: "world \<Rightarrow> (u64 \<rightharpoonup> u64) \<Rightarrow> bool" where
  "covers w0 wm \<longleftrightarrow> (\<forall>s. watermark_of (wo_etcd w0) s \<le> lookup0 wm s)"

lemma covers_merge: "covers w0 d \<Longrightarrow> covers w0 (mergeWatermarks (Some d) src)"
  unfolding covers_def using merge_grows order_trans by metis

lemma scanSecMap_covers:
  assumes F: "follows env" and I0: "world_inv w0"
  shows "keeps (reach w0) (scanSecMap env watermark_slot 1) (\<lambda>a w. \<forall>ps. a = Some ps \<longrightarrow> covers w0 (map_of ps))"
proof -
  have "keeps (reach w0) (request env GetAll) (\<lambda>a w. \<forall>kvs. a = Some kvs \<longrightarrow> covers w0 (map_of (sec_pairs watermark_slot 1 kvs)))"
  proof (rule keeps_request [OF F])
    fix w db b db'
    assume "reach w0 w" "alloc_step\<^sup>*\<^sup>* (wo_etcd w) db" and G: "GetAll db = Some (b, db')"
    then have "alloc_step\<^sup>*\<^sup>* (wo_etcd w0) db" unfolding reach_def by auto
    then have "watermark_of (wo_etcd w0) s \<le> watermark_of db s" for s
      using alloc_steps_later I0 unfolding later_def by blast
    moreover have "watermark_of db s \<le> lookup0 (map_of (sec_pairs watermark_slot 1 b)) s" for s
      using sec_pairs_covers [of b s] G unfolding watermark_of_def get_def GetAll_def by auto
    ultimately have "covers w0 (map_of (sec_pairs watermark_slot 1 b))" unfolding covers_def using order_trans by blast
    then show "alloc_step\<^sup>*\<^sup>* db db' \<and> (\<forall>w'. wo_etcd w' = db' \<longrightarrow> wo_reads w' = wo_reads w \<longrightarrow>
        (\<forall>kvs. Some b = Some kvs \<longrightarrow> covers w0 (map_of (sec_pairs watermark_slot 1 kvs))))"
      using G unfolding GetAll_def by simp
  qed simp
  moreover have "stable (reach w0)" unfolding stable_def using reach_trans by blast
  ultimately show ?thesis unfolding scanSecMap_def
    by (intro keeps_bind keeps_option keeps_ret) auto
qed

lemma scanWatermarks_covers:
  assumes F: "follows env" and I0: "world_inv w0"
  shows "keeps (reach w0) (scanWatermarks env r) (\<lambda>a w. \<forall>wm. a = Some wm \<longrightarrow> covers w0 wm)"
proof -
  have st: "stable (reach w0)" unfolding stable_def using reach_trans by blast
  have st': "stable (\<lambda>w. reach w0 w \<and> c)" for c unfolding stable_def using reach_trans by blast
  show ?thesis unfolding scanWatermarks_def
    by (intro keeps_bind [OF st scanSecMap_covers [OF F I0]] keeps_option keeps_if
        keeps_read [OF st' reads_scanSecMap [OF F]] keeps_ret) (auto simp: covers_merge)
qed

lemma keeps_revoke: "follows env \<Longrightarrow> (\<And>w. Q e w) \<Longrightarrow> keeps P (\<lambda>w. (e, revoke env l w)) Q"
  unfolding keeps_def using revoke_reach by auto

text \<open>Between the start and the claim the process read a clock at least the quarantine above the
  watermark the slot had at the start.\<close>

definition waited :: "alloc_env \<Rightarrow> resolvedOptions \<Rightarrow> world \<Rightarrow> u64 \<Rightarrow> world \<Rightarrow> bool" where
  "waited env r w0 slot w \<longleftrightarrow>
     watermark_of (wo_etcd w0) slot = 0 \<or>
     (\<exists>i. wo_reads w0 \<le> i \<and> i < wo_reads w \<and>
        unat (watermark_of (wo_etcd w0) slot) + unat (word_of_int (ro_quarantine r div 1000000000) :: u64)
          \<le> unat (NowEpochSec (ae_clock env i)))"

lemma selected_waited:
  assumes "covers w0 wm" "selectSlot used (lookup0 wm) (NowEpochSec (ae_clock env i)) (word_of_int (ro_quarantine r div 1000000000)) m = (s, True)"
    and "wo_reads w0 \<le> i" "i < wo_reads w"
  shows "waited env r w0 s w"
proof -
  have c: "watermark_of (wo_etcd w0) s \<le> lookup0 wm s" using assms(1) unfolding covers_def by blast
  show ?thesis
  proof (cases "watermark_of (wo_etcd w0) s = 0")
    case False
    then have "lookup0 wm s \<noteq> 0" using c by auto
    then have "unat (lookup0 wm s) + unat (word_of_int (ro_quarantine r div 1000000000) :: u64) \<le> unat (NowEpochSec (ae_clock env i))"
      using selected_candidate [OF assms(2)] by blast
    then show ?thesis using c assms(3,4) unfolding waited_def word_le_nat_alt by (meson add_le_mono1 order_trans)
  qed (simp add: waited_def)
qed

lemma keeps_claim_txn:
  assumes F: "follows env"
  shows "keeps (\<lambda>w. ready w0 lease uuid w \<and> P w)
     (request env (txn (claim_cmps r slot) (claim_ops r host slot uuid lease) []))
     (\<lambda>a w. \<forall>t. a = Some t \<longrightarrow> tr_succeeded t \<longrightarrow>
        took w0 uuid lease \<lparr>cl_lease = lease, cl_slot = slot, cl_uuid = uuid, cl_incarnation = tr_revision t, cl_reused = False\<rparr> w)"
proof (rule keeps_request [OF F])
  fix w db b db'
  assume I: "world_inv w" and P: "ready w0 lease uuid w \<and> P w" and s: "alloc_step\<^sup>*\<^sup>* (wo_etcd w) db" and "etcd_inv db"
    and "txn (claim_cmps r slot) (claim_ops r host slot uuid lease) [] db = Some (b, db')"
  note step = claim_step [OF this(4,5)]
  have g: "lease \<noteq> 0" "ek_granted db lease = uuid" using ready_granted P I s by blast+
  have s0: "alloc_step\<^sup>*\<^sup>* (wo_etcd w0) db" using ready_steps P s by blast
  have "took w0 uuid lease \<lparr>cl_lease = lease, cl_slot = slot, cl_uuid = uuid, cl_incarnation = tr_revision b, cl_reused = False\<rparr> w'"
    if "wo_etcd w' = db'" "tr_succeeded b" for w'
  proof -
    have "holder_of db slot = None" using step(3) [OF g that(2)] unfolding holder_of_def by simp
    then show ?thesis using step(1) [OF g] step(2) [OF g that(2)] s0 that(1) unfolding took_def by auto
  qed
  then show "alloc_step\<^sup>*\<^sup>* db db' \<and> (\<forall>w'. wo_etcd w' = db' \<longrightarrow> wo_reads w' = wo_reads w \<longrightarrow>
      (\<forall>t. Some b = Some t \<longrightarrow> tr_succeeded t \<longrightarrow> took w0 uuid lease
        \<lparr>cl_lease = lease, cl_slot = slot, cl_uuid = uuid, cl_incarnation = tr_revision t, cl_reused = False\<rparr> w'))"
    using step(1) [OF g] by auto
qed simp

definition claimed_fresh :: "alloc_env \<Rightarrow> resolvedOptions \<Rightarrow> world \<Rightarrow> string \<Rightarrow> nat \<Rightarrow> alloc_error + claim \<Rightarrow> world \<Rightarrow> bool" where
  "claimed_fresh env r w0 uuid lease res w \<longleftrightarrow>
     (\<forall>c. res = Inr c \<longrightarrow> took w0 uuid lease c w \<and> \<not> cl_reused c \<and> waited env r w0 (cl_slot c) w)"

lemma keeps_clock:
  "keeps (\<lambda>w. ready w0 lease uuid w \<and> covers w0 wm) (read_clock env)
     (\<lambda>rd w. \<forall>used m s. selectSlot used (lookup0 wm) (NowEpochSec rd) (word_of_int (ro_quarantine r div 1000000000)) m = (s, True) \<longrightarrow>
        waited env r w0 s w)"
  unfolding keeps_def
proof (intro allI impI conjI)
  fix w rd w' used m s
  assume P: "ready w0 lease uuid w \<and> covers w0 wm" and E: "read_clock env w = (rd, w')"
    and S: "selectSlot used (lookup0 wm) (NowEpochSec rd) (word_of_int (ro_quarantine r div 1000000000)) m = (s, True)"
  have "rd = ae_clock env (wo_reads w)" "wo_reads w < wo_reads w'" using E unfolding read_clock_def by auto
  moreover have "wo_reads w0 \<le> wo_reads w" using P unfolding ready_def reach_def by blast
  ultimately show "waited env r w0 s w'" using selected_waited P S by blast
qed (rule read_clock_reach)

lemma waited_reach: "waited env r w0 s w \<Longrightarrow> reach w w' \<Longrightarrow> waited env r w0 s w'"
  unfolding waited_def reach_def by (meson less_le_trans)

lemma stable_waited: "stable (\<lambda>w. ready w0 lease uuid w \<and> waited env r w0 s w)"
  using stable_ready waited_reach unfolding stable_def by blast

lemma claim_loop_ok:
  assumes F: "follows env" and I0: "world_inv w0"
  shows "keeps (ready w0 lease uuid) (claim_loop n env host uuid lease r) (claimed_fresh env r w0 uuid lease)"
proof (induction n)
  case 0
  have "claim_loop 0 env host uuid lease r = (\<lambda>w. (Inl ErrCtx, revoke env lease w))" by (rule ext) simp
  then show ?case by (simp only:) (rule keeps_revoke [OF F], simp add: claimed_fresh_def)
next
  case (Suc n)
  have fail: "keeps P (\<lambda>w. (Inl e, revoke env lease w)) (claimed_fresh env r w0 uuid lease)" for P e
    by (rule keeps_revoke [OF F]) (simp add: claimed_fresh_def)
  have st: "stable (\<lambda>w. ready w0 lease uuid w \<and> c)" for c using stable_ready unfolding stable_def by blast
  have scan: "keeps (ready w0 lease uuid) (scanWatermarks env r) (\<lambda>a w. \<forall>wm. a = Some wm \<longrightarrow> covers w0 wm)"
    by (rule keeps_pre [OF scanWatermarks_covers [OF F I0]]) (simp add: ready_def)
  have last: "keeps (\<lambda>w. ready w0 lease uuid w \<and> waited env r w0 slot w)
      (\<lambda>w. case request env (txn (claim_cmps r slot) (claim_ops r host slot uuid lease) []) w of
           (a, w4) \<Rightarrow> (case a of None \<Rightarrow> (Inl ErrEtcd, revoke env lease w4)
             | Some t \<Rightarrow> if tr_succeeded t
                   then (Inr \<lparr>cl_lease = lease, cl_slot = slot, cl_uuid = uuid, cl_incarnation = tr_revision t,
                              cl_reused = False\<rparr>, w4)
                   else claim_loop n env host uuid lease r w4))
      (claimed_fresh env r w0 uuid lease)" for slot
    by (intro keeps_bind [OF stable_waited keeps_claim_txn [OF F]] keeps_option keeps_if fail keeps_ret keeps_pre [OF Suc])
      (auto simp: claimed_fresh_def)
  have mid: "keeps (\<lambda>w. ready w0 lease uuid w \<and> covers w0 wm)
      (\<lambda>w. case read_clock env w of (rd, w3) \<Rightarrow>
            (case selectSlot used (lookup0 wm) (NowEpochSec rd) (word_of_int (ro_quarantine r div 1000000000)) (ro_maxSlot r) of
               (slot, ok) \<Rightarrow>
               if \<not> ok then (Inl ErrNoSlotAvailable, revoke env lease w3)
               else (case request env (txn (claim_cmps r slot) (claim_ops r host slot uuid lease) []) w3 of
                   (None, w4) \<Rightarrow> (Inl ErrEtcd, revoke env lease w4)
                 | (Some t, w4) \<Rightarrow>
                   if tr_succeeded t
                   then (Inr \<lparr>cl_lease = lease, cl_slot = slot, cl_uuid = uuid, cl_incarnation = tr_revision t,
                              cl_reused = False\<rparr>, w4)
                   else claim_loop n env host uuid lease r w4)))
      (claimed_fresh env r w0 uuid lease)" for wm used
    by (intro keeps_bind [OF st keeps_clock] keeps_prod keeps_if fail keeps_pre [OF last]) auto
  have "claim_loop (Suc n) env host uuid lease r =
     (\<lambda>w. case scanUsedSlots env r w of (None, w1) \<Rightarrow> (Inl ErrEtcd, revoke env lease w1)
      | (Some used, w1) \<Rightarrow>
        (case scanWatermarks env r w1 of (None, w2) \<Rightarrow> (Inl ErrEtcd, revoke env lease w2)
         | (Some wm, w2) \<Rightarrow>
           (case read_clock env w2 of (rd, w3) \<Rightarrow>
            (case selectSlot used (lookup0 wm) (NowEpochSec rd) (word_of_int (ro_quarantine r div 1000000000)) (ro_maxSlot r) of
               (slot, ok) \<Rightarrow>
               if \<not> ok then (Inl ErrNoSlotAvailable, revoke env lease w3)
               else (case request env (txn (claim_cmps r slot) (claim_ops r host slot uuid lease) []) w3 of
                   (None, w4) \<Rightarrow> (Inl ErrEtcd, revoke env lease w4)
                 | (Some t, w4) \<Rightarrow>
                   if tr_succeeded t
                   then (Inr \<lparr>cl_lease = lease, cl_slot = slot, cl_uuid = uuid, cl_incarnation = tr_revision t,
                              cl_reused = False\<rparr>, w4)
                   else claim_loop n env host uuid lease r w4)))))"
    by (rule ext) simp
  then show ?case
    by (simp only:)
      (intro keeps_read [OF stable_ready reads_scanUsedSlots [OF F]] keeps_option fail keeps_bind [OF stable_ready scan] keeps_pre [OF mid],
        auto)
qed

section \<open>Allocate\<close>

definition claimed :: "alloc_env \<Rightarrow> resolvedOptions \<Rightarrow> world \<Rightarrow> string \<Rightarrow> alloc_error + claim \<Rightarrow> world \<Rightarrow> bool" where
  "claimed env r w0 uuid res w \<longleftrightarrow>
     (\<forall>c. res = Inr c \<longrightarrow> took w0 uuid (cl_lease c) c w \<and> leased w (cl_lease c) uuid \<and> (cl_reused c \<or> waited env r w0 (cl_slot c) w))"

lemma keeps_post: "keeps P m Q \<Longrightarrow> (\<And>a w. Q a w \<Longrightarrow> Q' a w) \<Longrightarrow> keeps P m Q'"
  unfolding keeps_def by blast

lemma keeps_stable: "keeps P m Q \<Longrightarrow> stable P \<Longrightarrow> keeps P m (\<lambda>a w. Q a w \<and> P w)"
  unfolding keeps_def stable_def by blast

lemma keeps_sum:
  "(\<And>x. a = Inl x \<Longrightarrow> keeps P (f x) Q) \<Longrightarrow> (\<And>x. a = Inr x \<Longrightarrow> keeps P (g x) Q) \<Longrightarrow>
     keeps P (\<lambda>w. case a of Inl x \<Rightarrow> f x w | Inr x \<Rightarrow> g x w) Q"
  by (cases a) simp_all

lemma stable_reach: "stable (reach w0)"
  unfolding stable_def using reach_trans by blast

lemma keeps_grant: "follows env \<Longrightarrow> keeps (reach w0) (request env (Grant uuid)) (\<lambda>a w. \<forall>l. a = Some l \<longrightarrow> leased w l uuid)"
  unfolding keeps_def using request_grant grant_leased by blast

lemma claimed_took:
  assumes "took w0 uuid lease c w" "ready w0 lease uuid w" "cl_reused c \<or> waited env r w0 (cl_slot c) w"
  shows "claimed env r w0 uuid (Inr c) w"
proof -
  have "cl_lease c = lease" using assms(1) unfolding took_def by blast
  then show ?thesis using assms unfolding claimed_def ready_def by simp
qed

lemma claimed_of_fresh:
  assumes "claimed_fresh env r w0 uuid lease res w" "ready w0 lease uuid w"
  shows "claimed env r w0 uuid res w"
proof (cases res)
  case (Inr c)
  then show ?thesis using claimed_took assms unfolding claimed_fresh_def by blast
qed (simp add: claimed_def)

lemma allocate_ok:
  assumes F: "follows env" and I0: "world_inv w0"
  shows "keeps (reach w0) (allocate n env kind host uuid r) (claimed env r w0 uuid)"
proof -
  have err: "claimed env r w0 uuid (Inl e) w" for e w unfolding claimed_def by simp
  have reuse: "keeps (ready w0 lease uuid) (tryReuse env host uuid lease r)
      (\<lambda>res w. ready w0 lease uuid w \<and> (\<forall>c. res = Inr (Some c) \<longrightarrow> took w0 uuid lease c w \<and> cl_reused c))" for lease
    by (rule keeps_post [OF keeps_stable [OF tryReuse_ok [OF F] stable_ready]]) blast
  have loop: "keeps (ready w0 lease uuid) (claim_loop n env host uuid lease r) (claimed env r w0 uuid)" for lease
    by (rule keeps_post [OF keeps_stable [OF claim_loop_ok [OF F I0] stable_ready]])
      (blast intro: claimed_of_fresh)
  have rest: "keeps (ready w0 lease uuid)
      (\<lambda>w1. case tryReuse env host uuid lease r w1 of (a, w2) \<Rightarrow>
         (case a of Inl e \<Rightarrow> (Inl e, revoke env lease w2)
          | Inr x \<Rightarrow> (case x of None \<Rightarrow> claim_loop n env host uuid lease r w2 | Some c \<Rightarrow> (Inr c, w2))))
      (claimed env r w0 uuid)" for lease
    by (intro keeps_bind [OF stable_ready reuse] keeps_sum keeps_option keeps_revoke [OF F] err keeps_pre [OF loop] keeps_ret)
      (auto intro: claimed_took)
  show ?thesis unfolding allocate_def
    by (intro keeps_if keeps_ret err keeps_bind [OF stable_reach keeps_grant [OF F]] keeps_option keeps_pre [OF rest])
      (auto simp: ready_def)
qed

section \<open>Starting\<close>

lemma newHandle_fields:
  assumes "newHandle env kind host r worker slot uuid w = (Some h, w')"
  shows "h_slot h = slot" "h_uuid h = uuid" "h_worker h = worker" "h_guardRev h = 0" "h_lease h = 0" "\<not> h_closing h" "h_node h = None"
    "h_r h = r" "reach w w'"
  using assms unfolding newHandle_def read_clock_def by (auto intro: reach_same)

lemma synced_zero: "etcd_inv db \<Longrightarrow> synced db k 0 b"
  unfolding synced_def etcd_inv_def key_ok_def by fastforce

text \<open>What a process that has claimed a slot starts with.\<close>

definition started :: "alloc_env \<Rightarrow> world \<Rightarrow> claim \<Rightarrow> alloc_error + Handle \<Rightarrow> world \<Rightarrow> bool" where
  "started env w c res w' \<longleftrightarrow>
     (\<forall>h. res = Inr h \<longrightarrow>
        handle_ok env h w' \<and> h_slot h = cl_slot c \<and> h_uuid h = cl_uuid c \<and> \<not> h_closing h \<and> h_node h = None \<and>
        (cl_reused c \<longrightarrow> watermark_of (wo_etcd w) (cl_slot c) \<le> h_guardEpochSec h))"

lemma cache_node:
  "writeCacheLocked env h w = (h', w') \<Longrightarrow> h_node h' = h_node h"
  "flushCacheLocked env h w = (h', w') \<Longrightarrow> h_node h' = h_node h"
  "noteLocalHighWaterLocked env s m h w = (h', w') \<Longrightarrow> h_node h' = h_node h"
  "noteWatermarkWriteFailedLocked env h w = (h', w') \<Longrightarrow> h_node h' = h_node h"
proof -
  show w: "h_node h' = h_node h" if "writeCacheLocked env h w = (h', w')" for h w
    using that unfolding writeCacheLocked_def by (auto split: prod.splits if_splits)
  show f: "h_node h' = h_node h" if "flushCacheLocked env h w = (h', w')" for h w
    using that w unfolding flushCacheLocked_def by (auto split: if_splits)
  show "noteLocalHighWaterLocked env s m h w = (h', w') \<Longrightarrow> h_node h' = h_node h"
    unfolding noteLocalHighWaterLocked_def Let_def by (auto split: if_splits dest: w)
  show "noteWatermarkWriteFailedLocked env h w = (h', w') \<Longrightarrow> h_node h' = h_node h"
    unfolding noteWatermarkWriteFailedLocked_def by (auto dest: f)
qed

lemma ackLocked_node:
  assumes "ackLocked env h w = (h', w')"
  shows "\<exists>r1 r2. h_node h' = map_option (atomic_step (AAck r1 r2)) (h_node h) \<and> h_guardWritten h' = h_guardWritten h"
proof -
  obtain r1 w1 where r1: "read_clock env w = (r1, w1)" by fastforce
  obtain r2 w2 where r2: "read_clock env w1 = (r2, w2)" by fastforce
  have "h_node h' = map_option (atomic_step (AAck r1 r2)) (h_node h)"
    using assms r1 r2 unfolding ackLocked_def Let_def by (auto split: if_splits dest!: cache_node(1))
  moreover have "h_guardWritten h' = h_guardWritten h" using ackLocked_quiet [OF assms] unfolding quiet_def hview_def by simp
  ultimately show ?thesis by blast
qed

text \<open>The generator only gets acknowledgements and, when a higher watermark was found, its floor.\<close>

lemma advanceGuard_node:
  assumes "advanceGuard env h w = (b, h', w')"
  shows "h_node h' = h_node h \<or>
    (\<exists>g r1 r2. h_node h' = map_option (\<lambda>n. atomic_step (AAck r1 r2) (if g then SetGuardTime n (h_guardWritten h') else n)) (h_node h))"
proof -
  obtain rd w1 where q1: "read_clock env w = (rd, w1)" by fastforce
  obtain h1 w2 where q2: "noteLocalHighWaterLocked env (guard_target h rd) 0 h w1 = (h1, w2)" by fastforce
  have n1: "h_node h1 = h_node h" by (rule cache_node(3) [OF q2])
  obtain res rv w3 where q3: "putWatermarkLocked env h1 (watermarkKey (h_slot h))
      (if legacyMirror (h_r h) then Some (legacyGuardKey (h_slot h)) else None) (guard_target h rd) (h_guardRev h1) w2 = (res, rv, w3)"
    using prod_cases3 by blast
  note E = assms [unfolded advanceGuard_def q1 prod.case Let_def q2 q3]
  show ?thesis
  proof (cases res)
    case (PutOk p)
    define h4 where "h4 = (if p > guard_target h rd then h1 \<lparr>h_guardRev := rv, h_node := map_option (\<lambda>n. SetGuardTime n p) (h_node h1)\<rparr>
        else h1 \<lparr>h_guardRev := rv\<rparr>) \<lparr>h_guardWritten := p\<rparr>"
    have "ackLocked env h4 w3 = (h', w')" using E PutOk unfolding h4_def by (auto split: if_splits)
    from ackLocked_node [OF this] obtain r1 r2 where
      a: "h_node h' = map_option (atomic_step (AAck r1 r2)) (h_node h4)" "h_guardWritten h' = p" unfolding h4_def by auto
    have "h_node h4 = map_option (\<lambda>n. if guard_target h rd < p then SetGuardTime n p else n) (h_node h)"
      using n1 unfolding h4_def by (auto simp: option.map_ident)
    then show ?thesis using a by (auto simp: option.map_comp comp_def)
  qed (use E n1 in \<open>auto dest: cache_node(4)\<close>)
qed

lemma boot_from_claim_ok:
  assumes F: "follows env" and S: "steady env" and I: "world_inv w" and L: "leased w (cl_lease c) (cl_uuid c)"
    and E: "boot_from_claim env kind host r c w = (res, w')"
  shows "reach w w' \<and> started env w c res w'"
proof -
  have none: "started env w c (Inl e) w'" for e w' unfolding started_def by simp
  obtain fl w1 where q1: "readWatermarkFloorRetry env r (cl_slot c) w = (fl, w1)" by fastforce
  have r1: "reach w w1" by (rule readsD [OF reads_floor_attempts [OF F] I q1 [unfolded readWatermarkFloorRetry_def]])
  note I1 = reach_inv [OF r1 I]
  have flo: "floor_ok w w1 (cl_slot c) f rv" if "fl = Some (f, rv)" for f rv
    using floor_attempts_ok [OF F I] q1 that unfolding readWatermarkFloorRetry_def by blast
  show ?thesis
  proof (cases "ComposeWorkerID (ro_cluster r) (cl_slot c) (ro_clusterBits r) (ro_slotBits r)")
    case (Inl e)
    then show ?thesis using E none revoke_reach [OF F I] unfolding boot_from_claim_def by auto
  next
    case (Inr worker)
    note E1 = E [unfolded boot_from_claim_def Inr q1 sum.case prod.case]
    show ?thesis
    proof (cases "fl = None \<and> cl_reused c")
      case True
      then show ?thesis using E1 none reach_trans [OF r1 revoke_reach [OF F I1]] by auto
    next
      case ok: False
      obtain ho w2 where q2: "newHandle env kind host r worker (cl_slot c) (cl_uuid c) w1 = (ho, w2)" by fastforce
      have r2': "reach w1 w2" using q2 unfolding newHandle_def read_clock_def by (auto intro: reach_same)
      then have r2: "reach w w2" using r1 reach_trans by blast
      note I2 = reach_inv [OF r2 I]
      show ?thesis
      proof (cases ho)
        case None
        then show ?thesis using E1 ok q2 none r2 by auto
      next
        case (Some h0)
        note h0 = newHandle_fields [OF q2 [unfolded Some]]
        define h1 where "h1 = h0 \<lparr>h_lease := cl_lease c, h_incarnation := cl_incarnation c, h_registered := True\<rparr>"
        define h2 where "h2 = (case fl of
                         None \<Rightarrow> h1 \<lparr>h_guardEpochSec := floorFromCache h1 (cl_slot c) w2\<rparr>
                       | Some (floor, rv) \<Rightarrow> h1 \<lparr>h_guardWritten := floor, h_guardRev := rv, h_guardEpochSec := floor\<rparr>)"
        have h2: "h_slot h2 = cl_slot c" "h_uuid h2 = cl_uuid c" "h_lease h2 = cl_lease c" "\<not> h_closing h2" "h_node h2 = None"
          using h0 unfolding h2_def h1_def by (auto split: option.splits)
        have ep: "watermark_of (wo_etcd w) (cl_slot c) \<le> h_guardEpochSec h2" if "cl_reused c"
          using that ok flo unfolding h2_def floor_ok_def by (auto split: option.splits)
        have L2: "leased w2 (cl_lease c) (cl_uuid c)" by (rule leased_reach [OF L r2 I])
        have ok2: "handle_ok env h2 w2"
        proof (cases fl)
          case None
          then show ?thesis using L2 h2 h0 synced_zero [OF I2] unfolding handle_ok_def h2_def h1_def by simp
        next
          case (Some p)
          then obtain f rv where p: "fl = Some (f, rv)" by (cases p) simp
          have "floor_ok w w2 (cl_slot c) f rv" by (rule floor_ok_reach [OF flo [OF p] r2' I1])
          then have f: "rv \<le> ek_rev (wo_etcd w2)" "synced (wo_etcd w2) (watermarkKey (cl_slot c)) rv f" unfolding floor_ok_def by blast+
          have g: "h_guardRev h2 = rv" "h_guardWritten h2 = f" unfolding h2_def p by simp_all
          have "synced (wo_etcd w2) (watermarkKey (cl_slot c)) rv (guard_target h2 rd)" for rd
            using synced_mono [OF f(2)] guard_target_ge [of h2 rd] g by simp
          then show ?thesis using L2 h2 f(1) g unfolding handle_ok_def by simp
        qed
        obtain ka w3 where q3: "request env (KeepAlive (cl_lease c)) w2 = (ka, w3)" by fastforce
        have r3': "reach w2 w3" by (rule request_read [OF F I2 _ q3]) simp
        then have r3: "reach w w3" using r2 reach_trans by blast
        note I3 = reach_inv [OF r3 I]
        have E3: "(case ka of None \<Rightarrow> (Inl ErrEtcd, revoke env (cl_lease c) w3)
            | Some _ \<Rightarrow> (case advanceGuard env h2 w3 of (_, h3, w4) \<Rightarrow> (Inr h3, w4))) = (res, w')"
          using E1 ok q2 Some q3 unfolding h2_def h1_def by (auto simp: Let_def split: option.splits)
        show ?thesis
        proof (cases ka)
          case None
          then show ?thesis using E3 none reach_trans [OF r3 revoke_reach [OF F I3]] by auto
        next
          case (Some u)
          obtain b h3 w4 where q4: "advanceGuard env h2 w3 = (b, h3, w4)" using prod_cases3 by blast
          note ag = advanceGuard_ok [OF F S I3 handle_ok_reach [OF ok2 r3' I2] q4]
          have "res = Inr h3" "w' = w4" using E3 Some q4 by simp_all
          then show ?thesis
            using reach_trans [OF r3 ag(1)] ag(2,3) h2 ep advanceGuard_node [OF q4] unfolding started_def hid_def by auto
        qed
      qed
    qed
  qed
qed

lemma boot_from_cache_ok:
  assumes I: "world_inv w" and E: "boot_from_cache env kind host r c w = (res, w')"
  shows "reach w w' \<and> (\<forall>h. res = Inr h \<longrightarrow> handle_ok env h w' \<and> h_slot h = ca_slot c \<and> h_uuid h = ca_uuid c \<and> h_node h = None \<and> \<not> h_closing h)"
proof (cases "ComposeWorkerID (ro_cluster r) (ca_slot c) (ro_clusterBits r) (ro_slotBits r)")
  case (Inl e)
  then show ?thesis using E unfolding boot_from_cache_def by auto
next
  case (Inr worker)
  obtain ho w1 where q1: "newHandle env kind host r worker (ca_slot c) (ca_uuid c) w = (ho, w1)" by fastforce
  have r1: "reach w w1" using q1 unfolding newHandle_def read_clock_def by (auto intro: reach_same)
  obtain rd1 w2 where q2: "read_clock env w1 = (rd1, w2)" by fastforce
  obtain rd2 w3 where q3: "read_clock env w2 = (rd2, w3)" by fastforce
  have r3: "reach w w3" using reach_trans [OF reach_trans [OF r1 read_clock_reach [OF q2]] read_clock_reach [OF q3]] .
  note E1 = E [unfolded boot_from_cache_def Inr q1 sum.case prod.case]
  show ?thesis
  proof (cases ho)
    case None
    then show ?thesis using E1 r1 by auto
  next
    case (Some h)
    note f = newHandle_fields [OF q1 [unfolded Some]]
    have "handle_ok env h' w3" if "h_guardRev h' = 0" "h_lease h' = 0" "\<not> h_closing h'" for h'
      using that synced_zero [OF reach_inv [OF r3 I]] unfolding handle_ok_def by simp
    then show ?thesis using E1 Some q2 q3 r3 f by (auto simp: Let_def)
  qed
qed

text \<open>A process that has started, from a claim or from its cache.\<close>

definition running :: "alloc_env \<Rightarrow> Handle \<Rightarrow> world \<Rightarrow> bool" where
  "running env h w \<longleftrightarrow> world_inv w \<and> handle_ok env h w"

lemma AllocateWithKeepAlive_ok:
  assumes F: "follows env" and S: "steady env" and I: "world_inv w"
    and E: "AllocateWithKeepAlive n env kind host uuid opts w = (res, w')"
  shows "reach w w' \<and> (\<forall>h. res = Inr h \<longrightarrow> running env h w' \<and> h_node h = None \<and> \<not> h_closing h)"
proof (cases "resolve opts")
  case (Inl e)
  then show ?thesis using E unfolding AllocateWithKeepAlive_def by auto
next
  case (Inr r)
  obtain a w1 where q1: "allocate n env kind host uuid r w = (a, w1)" by fastforce
  have al: "reach w w1" "claimed env r w uuid a w1" using keepsD [OF allocate_ok [OF F I] I reach_refl q1] by blast+
  note I1 = reach_inv [OF al(1) I]
  note E1 = E [unfolded AllocateWithKeepAlive_def Inr sum.case q1 prod.case]
  show ?thesis
  proof (cases a)
    case (Inr c)
    have "leased w1 (cl_lease c) (cl_uuid c)" using al(2) Inr unfolding claimed_def took_def by auto
    moreover have "boot_from_claim env kind host r c w1 = (res, w')" using E1 Inr by simp
    ultimately have b: "reach w1 w' \<and> started env w1 c res w'" using boot_from_claim_ok [OF F S I1] by blast
    then show ?thesis using reach_trans [OF al(1)] reach_inv [OF _ I1] unfolding started_def running_def by blast
  next
    case (Inl e)
    obtain rd w2 where q2: "read_clock env w1 = (rd, w2)" by fastforce
    have r2: "reach w w2" using reach_trans [OF al(1) read_clock_reach [OF q2]] .
    note I2 = reach_inv [OF r2 I]
    consider "(res, w') = (Inl e, w1)" | "(res, w') = (Inl e, w2)" | c where "boot_from_cache env kind host r c w2 = (res, w')"
    proof (cases "e = ErrNoSlotAvailable \<or> e = ErrInvalidOptions \<or> ro_cachePath r = ''''")
      case True
      then show ?thesis using that(1) E1 unfolding Inl sum.case by metis
    next
      case F: False
      show ?thesis
      proof (cases "readCacheFile w1")
        case None
        then show ?thesis using that(1) E1 F unfolding Inl sum.case None option.case by metis
      next
        case (Some c)
        note E2 = E1 [unfolded Inl sum.case if_not_P [OF F] Some option.case q2 prod.case Let_def]
        show ?thesis using that(2) that(3) [of c] E2 by (metis (no_types))
      qed
    qed
    then show ?thesis
    proof cases
      case (3 c)
      from boot_from_cache_ok [OF I2 this] show ?thesis using reach_trans [OF r2] reach_inv [OF _ I2] unfolding running_def by blast
    qed (use al(1) r2 in auto)
  qed
qed

end
