(* ===== verification/AllocRuns.thy ===== *)
theory AllocRuns
  imports AllocClaim
begin

text \<open>
  The life of a handle: every operation of a started process, its loop and its close included, follows
  the protocol and keeps the handle in step with etcd.
\<close>

section \<open>Watermarks\<close>

lemma runningD: "running env h w \<Longrightarrow> world_inv w" "running env h w \<Longrightarrow> handle_ok env h w"
  unfolding running_def by blast+

lemma runningI: "world_inv w \<Longrightarrow> reach w w' \<Longrightarrow> handle_ok env h' w' \<Longrightarrow> reach w w' \<and> running env h' w'"
  unfolding running_def using reach_inv by blast

lemma running_reach: "running env h w \<Longrightarrow> reach w w' \<Longrightarrow> running env h w'"
  unfolding running_def using handle_ok_reach reach_inv by blast

lemma running_quiet: "running env h w \<Longrightarrow> quiet h w h' w' \<Longrightarrow> reach w w' \<and> running env h' w'"
  unfolding running_def using quiet_ok quiet_reach reach_inv by blast

lemma running_trans:
  "reach w w1 \<and> running env h1 w1 \<Longrightarrow> (running env h1 w1 \<Longrightarrow> reach w1 w' \<and> running env h' w') \<Longrightarrow> reach w w' \<and> running env h' w'"
  using reach_trans by blast

lemma advanceGuard_runs:
  assumes "follows env" "steady env" "running env h w" "advanceGuard env h w = (b, h', w')"
  shows "reach w w' \<and> running env h' w'"
  using advanceGuard_ok(1,2) [OF assms(1,2) runningD [OF assms(3)] assms(4)] runningI [OF runningD(1) [OF assms(3)]] by blast

lemma handle_ok_raise:
  assumes "handle_ok env h w" and S: "steady env"
    and up: "\<And>rd. unat (NowEpochSec rd) < 2 ^ 62 \<Longrightarrow> guard_target h rd \<le> guard_target h' rd"
    and same: "h_guardRev h' = h_guardRev h" "hid h' = hid h"
  shows "handle_ok env h' w"
proof -
  have "guard_target h (ae_clock env i) \<le> guard_target h' (ae_clock env i)" for i
    using up S unfolding steady_def by blast
  then show ?thesis using assms(1) same synced_mono unfolding handle_ok_def hid_def by auto
qed

lemma lead_mono:
  fixes a b :: u64
  assumes "a \<le> b" "unat b < 2 ^ 63"
  shows "a + guardLeadSec \<le> b + guardLeadSec"
proof -
  have "unat (b + guardLeadSec) = unat b + 2" "unat (a + guardLeadSec) = unat a + 2"
    using assms unfolding guardLeadSec_def word_le_nat_alt by (simp_all add: unat_word_ariths)
  then show ?thesis using assms(1) unfolding word_le_nat_alt by simp
qed

lemma guard_target_raise:
  assumes "\<And>n. h_node h = Some n \<Longrightarrow> lastTime n \<le> lastTime n'" and "unat (lastTime n') < 2 ^ 63" and "unat (NowEpochSec rd) < 2 ^ 63"
  shows "guard_target h rd \<le> guard_target (h \<lparr>h_node := Some n'\<rparr>) rd"
proof -
  define t where "t = (case map_option lastTime (h_node h) of None \<Rightarrow> NowEpochSec rd | Some hw \<Rightarrow> if hw > NowEpochSec rd then hw else NowEpochSec rd)"
  define t' where "t' = (if lastTime n' > NowEpochSec rd then lastTime n' else NowEpochSec rd)"
  have "t \<le> t'" using assms(1) unfolding t_def t'_def by (cases "h_node h") (auto simp: not_less)
  moreover have "unat t' < 2 ^ 63" using assms(2,3) unfolding t'_def by simp
  ultimately have "t + guardLeadSec \<le> t' + guardLeadSec" by (rule lead_mono)
  then show ?thesis unfolding guard_target_view Let_def t_def t'_def by auto
qed

lemma Handle_NewNode_runs:
  assumes F: "follows env" and S: "steady env" and R: "running env h w"
    and h: "h_node h = None" "unat (h_guardEpochSec h) < 2 ^ 63" and E: "Handle_NewNode env h w = ((no, h'), w')"
  shows "reach w w' \<and> running env h' w'"
proof -
  obtain r1 w1 where q1: "read_clock env w = (r1, w1)" by fastforce
  obtain r2 w2 where q2: "read_clock env w1 = (r2, w2)" by fastforce
  have rc: "reach w w2" using reach_trans [OF read_clock_reach [OF q1] read_clock_reach [OF q2]] .
  note R2 = running_reach [OF R rc]
  have now2: "unat (NowEpochSec r2) < 2 ^ 62" using q2 S unfolding read_clock_def steady_def by auto
  show ?thesis
  proof (cases "NewNode (h_worker h) r1 r2")
    case None
    then show ?thesis using E q1 q2 rc R2 unfolding Handle_NewNode_def by auto
  next
    case (Some n)
    define floor where "floor = (if h_guardWritten h > h_guardEpochSec h then h_guardWritten h else h_guardEpochSec h)"
    define n2 where "n2 = SetFenceClock (if floor > 0 then SetGuardTime n floor else n) (Some (h_fence h))"
    have n: "lastTime n = NowEpochSec r2" using Some unfolding NewNode_def NowEpochSec_def by (auto split: if_splits)
    have lt: "lastTime n2 = (if floor \<le> NowEpochSec r2 then NowEpochSec r2 else floor)"
      unfolding n2_def SetFenceClock_def SetGuardTime_def using n by (auto simp: word_gt_0)
    have up: "guard_target h rd \<le> guard_target (h \<lparr>h_node := Some n2\<rparr>) rd" if rd: "unat (NowEpochSec rd) < 2 ^ 62" for rd
    proof (cases "unat (lastTime n2) < 2 ^ 63")
      case True
      show ?thesis by (rule guard_target_raise [OF _ True]) (use rd h in simp_all)
    next
      case False
      then have "h_guardWritten h = lastTime n2" using lt now2 h(2) unfolding floor_def by (auto split: if_splits)
      then have gw: "\<not> unat (h_guardWritten h) < 2 ^ 63" using False by simp
      have "NowEpochSec rd + guardLeadSec \<le> h_guardWritten h"
        using gw rd unfolding word_le_nat_alt guardLeadSec_def by (simp add: unat_word_ariths)
      then have "guard_target h rd = h_guardWritten h" unfolding guard_target_view Let_def h(1) by auto
      then show ?thesis using guard_target_ge [of "h \<lparr>h_node := Some n2\<rparr>" rd] by simp
    qed
    have "handle_ok env (h \<lparr>h_node := Some n2\<rparr>) w2"
      by (rule handle_ok_raise [OF runningD(2) [OF R2] S up]) (simp_all add: hid_def)
    then have R3: "running env (h \<lparr>h_node := Some n2\<rparr>) w2" using R2 unfolding running_def by blast
    obtain b h1 w3 where q3: "advanceGuard env (h \<lparr>h_node := Some n2\<rparr>) w2 = (b, h1, w3)" using prod_cases3 by blast
    have "h' = h1" "w' = w3"
      using E q1 q2 Some q3 unfolding Handle_NewNode_def n2_def floor_def by (auto simp: Let_def)
    then show ?thesis using advanceGuard_runs [OF F S R3 q3] reach_trans rc by blast
  qed
qed

lemma SyncWatermark_runs:
  assumes F: "follows env" and S: "steady env" and R: "running env h w" and E: "SyncWatermark env h w = (b, h', w')"
  shows "reach w w' \<and> running env h' w'"
proof -
  obtain c h1 w1 where q: "advanceGuard env h w = (c, h1, w1)" using prod_cases3 by blast
  have "h' = h1" "reach w1 w'"
    using E q unfolding SyncWatermark_def by (auto split: prod.splits dest!: read_clock_reach intro: reach_trans)
  then show ?thesis using running_trans [OF advanceGuard_runs [OF F S R q]] running_reach by blast
qed

lemma PutMsWatermark_runs:
  assumes F: "follows env" and R: "running env h w" and E: "PutMsWatermark env ms h w = (b, h', w')"
  shows "reach w w' \<and> running env h' w'"
proof -
  define v where "v = (if ms < h_msWritten h then h_msWritten h else ms)"
  obtain h1 w1 where q1: "noteLocalHighWaterLocked env 0 v h w = (h1, w1)" by fastforce
  have R1: "reach w w1 \<and> running env h1 w1" by (rule running_quiet [OF R noteLocalHighWaterLocked_quiet [OF q1]])
  define legacy where "legacy = (if legacyMirror (h_r h) then Some (legacyGuardMsKey (h_slot h)) else None)"
  obtain res rv w2 where q2: "put_attempts 2 env h1 (watermarkMsKey (h_slot h)) legacy v (h_msRev h1) w1 = (res, rv, w2)"
    using prod_cases3 by blast
  have "synced (wo_etcd w1) (watermarkMsKey (h_slot h)) (h_msRev h1) v" unfolding synced_def by simp
  then have "reach w1 w2"
    using put_attempts_ok [OF F _ _ _ _ q2] runningD(1) R1 unfolding wm_key_def legacy_def by auto
  then have R2: "reach w w2 \<and> running env h1 w2" using R1 running_reach reach_trans by blast
  have q: "quiet h1 w2 (h1 \<lparr>h_msRev := rv\<rparr>) w2" "quiet h1 w2 (h1 \<lparr>h_msRev := rv, h_needReclaim := True\<rparr>) w2"
      "quiet h1 w2 (h1 \<lparr>h_msRev := rv, h_msWritten := p\<rparr>) w2" for p
    unfolding quiet_def hview_def hid_def by simp_all
  consider "noteWatermarkWriteFailedLocked env (h1 \<lparr>h_msRev := rv\<rparr>) w2 = (h', w')"
    | "noteWatermarkWriteFailedLocked env (h1 \<lparr>h_msRev := rv, h_needReclaim := True\<rparr>) w2 = (h', w')"
    | p where "ackLocked env (h1 \<lparr>h_msRev := rv, h_msWritten := p\<rparr>) w2 = (h', w')"
    using E q1 q2 unfolding PutMsWatermark_def putWatermarkLocked_def v_def legacy_def
    by (cases res) (auto simp: Let_def split: if_splits)
  then have "quiet h1 w2 h' w'"
    by cases (use q quiet_trans noteWatermarkWriteFailedLocked_quiet ackLocked_quiet in blast)+
  then show ?thesis using running_trans [OF R2 running_quiet] by blast
qed

lemma ReadMsWatermark_runs:
  assumes F: "follows env" and R: "running env h w" and E: "ReadMsWatermark env h w = (v, w')"
  shows "reach w w' \<and> running env h w'"
proof -
  obtain a w1 where q: "readMsWatermarkRaw env h w = (a, w1)" by fastforce
  have "w' = w1" using E q unfolding ReadMsWatermark_def by (auto split: option.splits)
  then show ?thesis using readsD [OF reads_readMsWatermarkRaw [OF F] runningD(1) [OF R] q] running_reach [OF R] by blast
qed

section \<open>Losing and reclaiming the slot\<close>

lemma fenceAll_runs:
  assumes R: "running env h w" and E: "fenceAll h w = (h', w')"
  shows "reach w w' \<and> running env h' w'" and "h_uuid h' \<in> set (ek_fenced (wo_etcd w'))" and "hid h' = hid h"
proof -
  have r: "reach w w'"
    using E unfolding fenceAll_def reach_def by (auto intro: r_into_rtranclp [of alloc_step, OF step_fence])
  have v: "hview h' = hview h" "hid h' = hid h"
    using E unfolding fenceAll_def hview_def hid_def by (auto simp: option.map_comp comp_def Fence_def)
  show "reach w w' \<and> running env h' w'"
    using r running_reach [OF R r] handle_ok_view [OF _ v(1)] unfolding running_def by blast
  show "h_uuid h' \<in> set (ek_fenced (wo_etcd w'))" "hid h' = hid h" using E v(2) unfolding fenceAll_def by auto
qed

lemma running_view: "running env h w \<Longrightarrow> hview h' = hview h \<Longrightarrow> running env h' w"
  unfolding running_def using handle_ok_view by blast

lemma onOwnershipLost_runs:
  assumes R: "running env h w" and E: "onOwnershipLost h w = (h', w')"
  shows "reach w w' \<and> running env h' w'"
proof (cases "h_closing h \<or> h_lost h")
  case True
  then show ?thesis using E R unfolding onOwnershipLost_def markLost_def by (auto split: if_splits)
next
  case False
  obtain h1 w1 where q: "fenceAll h w = (h1, w1)" by fastforce
  have "h' = h1 \<lparr>h_lost := True\<rparr>" "w' = w1" using E q False unfolding onOwnershipLost_def markLost_def by auto
  then show ?thesis using fenceAll_runs(1) [OF R q] running_view [of env h1 w1 h'] unfolding hview_def by auto
qed

lemma refloorFromWatermark_runs:
  assumes F: "follows env" and R: "running env h w" and E: "refloorFromWatermark env h w = (h', w')"
  shows "reach w w' \<and> running env h' w'"
proof -
  obtain a w1 where q1: "readWatermarkFloor env (h_r h) (h_slot h) w = (a, w1)" by fastforce
  have r1: "reach w w1" by (rule readsD [OF reads_readWatermarkFloor [OF F] runningD(1) [OF R] q1])
  note R1 = running_reach [OF R r1]
  show ?thesis
  proof (cases a)
    case None
    then show ?thesis using E q1 r1 R1 unfolding refloorFromWatermark_def by auto
  next
    case (Some p)
    obtain floor rv where p: "p = (floor, rv)" by fastforce
    obtain ms w2 where q2: "readMsWatermarkRaw env h w1 = (ms, w2)" by fastforce
    have r2: "reach w1 w2" by (rule readsD [OF reads_readMsWatermarkRaw [OF F] runningD(1) [OF R1] q2])
    have E': "w' = w2" "hid h' = hid h" "h_guardRev h' = rv" "floor \<le> h_guardWritten h'"
      using E q1 q2 Some p unfolding refloorFromWatermark_def hid_def by auto
    have "floor_ok w w1 (h_slot h) floor rv" using readWatermarkFloor_ok [OF F runningD(1) [OF R]] q1 Some p by blast
    then have "floor_ok w w2 (h_slot h) floor rv" by (rule floor_ok_reach [OF _ r2 runningD(1) [OF R1]])
    then have f: "rv \<le> ek_rev (wo_etcd w2)" "synced (wo_etcd w2) (watermarkKey (h_slot h)) rv floor" unfolding floor_ok_def by blast+
    have "synced (wo_etcd w2) (watermarkKey (h_slot h)) rv (guard_target h' rd)" for rd
      using synced_mono [OF f(2)] order_trans [OF E'(4) guard_target_ge] by blast
    then have "handle_ok env h' w2"
      using runningD(2) [OF running_reach [OF R1 r2]] E'(2,3) f(1) unfolding handle_ok_def hid_def by simp
    then show ?thesis using runningI [OF runningD(1) [OF R]] reach_trans [OF r1 r2] E'(1) by blast
  qed
qed

lemma running_lease:
  assumes "running env h w" and "leased w l (h_uuid h)" and "hview h' = hview (h \<lparr>h_lease := l\<rparr>)"
  shows "running env h' w"
proof -
  have "guard_target (h \<lparr>h_lease := l\<rparr>) rd = guard_target h rd" for rd by (rule guard_target_cong) simp_all
  then have "handle_ok env (h \<lparr>h_lease := l\<rparr>) w" using assms(1,2) unfolding running_def handle_ok_def by simp
  then show ?thesis using assms(1) handle_ok_view [OF _ assms(3)] unfolding running_def by blast
qed

lemma reclaim_lost_runs:
  assumes F: "follows env" and R: "running env h w" and E: "reclaim_lost env lease h st w = (h', st', w')"
  shows "reach w w' \<and> running env h' w'"
proof -
  have r1: "reach w (revoke env lease w)" by (rule revoke_reach [OF F runningD(1) [OF R]])
  note R1 = running_reach [OF R r1]
  obtain a w1 where q: "request env (Get (slotKey (h_slot h))) (revoke env lease w) = (a, w1)" by fastforce
  have r2: "reach (revoke env lease w) w1" by (rule request_read [OF F runningD(1) [OF R1] _ q]) simp
  have R2: "reach w w1 \<and> running env h w1" using reach_trans [OF r1 r2] running_reach [OF R1 r2] by blast
  obtain h2 w2 where o: "onOwnershipLost h w1 = (h2, w2)" by fastforce
  have "(h', w') = (h, w1) \<or> (h', w') = (h2, w2)"
  proof (cases "\<exists>x n. a = Some (Some x, n)")
    case True
    then show ?thesis using E unfolding reclaim_lost_def q by (auto simp: o split: if_splits)
  next
    case False
    then show ?thesis using E unfolding reclaim_lost_def q by (cases a) (auto split: option.splits)
  qed
  then show ?thesis using R2 running_trans [OF R2 onOwnershipLost_runs [OF _ o]] by auto
qed

lemma reclaim_attached_runs:
  assumes F: "follows env" and R: "running env h w" and L: "leased w lease (h_uuid h)"
    and E: "reclaim_attached env lease t h st w = (h', st', w')"
  shows "reach w w' \<and> running env h' w'"
proof -
  define h1 where "h1 = h \<lparr>h_lease := lease, h_incarnation := tr_revision t, h_needReclaim := False, h_registered := True\<rparr>"
  have R1: "running env h1 w" by (rule running_lease [OF R L]) (simp add: h1_def hview_def)
  obtain r1 w1 where q1: "read_clock env w = (r1, w1)" by fastforce
  obtain r2 w2 where q2: "read_clock env w1 = (r2, w2)" by fastforce
  have c: "reach w w2" using reach_trans [OF read_clock_reach [OF q1] read_clock_reach [OF q2]] .
  have R2: "reach w w2 \<and> running env h1 w2" using c running_reach [OF R1 c] by blast
  obtain h2 w3 where q3: "(if tr_succeeded t \<or> fst (Stale (h_fence h1) r1 r2) then refloorFromWatermark env h1 w2 else (h1, w2)) = (h2, w3)"
    by fastforce
  have "reach w2 w3 \<and> running env h2 w3" if "running env h1 w2"
    using q3 refloorFromWatermark_runs [OF F that] that by (auto split: if_splits)
  then have R3: "reach w w3 \<and> running env h2 w3" using running_trans [OF R2] by blast
  obtain ka w4 where q4: "request env (KeepAlive lease) w3 = (ka, w4)" by fastforce
  have "h' = h2" "w' = w4" using E q1 q2 q3 q4 unfolding reclaim_attached_def h1_def by (auto simp: Let_def)
  moreover have "reach w3 w4" by (rule request_read [OF F _ _ q4]) (use R3 runningD(1) in auto)
  ultimately show ?thesis using R3 reach_trans running_reach by blast
qed

lemma reclaim_attach_runs:
  assumes F: "follows env" and R: "running env h w" and E: "reclaim_attach env h st w = (h', st', w')"
  shows "reach w w' \<and> running env h' w'"
proof -
  obtain a w1 where q1: "request env (Grant (h_uuid h)) w = (a, w1)" by fastforce
  have r1: "reach w w1" by (rule request_grant [OF F runningD(1) [OF R] q1])
  note R1 = running_reach [OF R r1] and I1 = reach_inv [OF r1 runningD(1) [OF R]]
  show ?thesis
  proof (cases a)
    case None
    then show ?thesis using E q1 r1 R1 unfolding reclaim_attach_def by auto
  next
    case (Some lease)
    have L: "leased w1 lease (h_uuid h)" using grant_leased [OF F runningD(1) [OF R]] q1 Some by blast
    obtain b w2 where q2: "request env (reclaim_txn h lease) w1 = (b, w2)" by fastforce
    have "alloc_step\<^sup>*\<^sup>* db db'" if "alloc_step\<^sup>*\<^sup>* (wo_etcd w1) db" "etcd_inv db" "reclaim_txn h lease db = Some (t, db')" for db t db'
      using reclaim_step(1) [OF that(2,3)] leased_later [OF L] alloc_steps_later [OF that(1) I1] L unfolding leased_def by blast
    then have r2: "reach w1 w2" by (rule request_reach [OF F I1 q2])
    have R2: "reach w w2 \<and> running env h w2" using reach_trans [OF r1 r2] running_reach [OF R1 r2] by blast
    note L2 = leased_reach [OF L r2 I1]
    consider "(h', w') = (h, revoke env lease w2)" | "reclaim_lost env lease h st w2 = (h', st', w')"
      | t where "reclaim_attached env lease t h st w2 = (h', st', w')"
      using E q1 Some q2 unfolding reclaim_attach_def reclaim_txn_def by (auto simp: Let_def split: option.splits if_splits)
    then show ?thesis
    proof cases
      case 1
      then show ?thesis using R2 revoke_reach [OF F] reach_trans running_reach unfolding running_def by blast
    next
      case 2
      then show ?thesis using running_trans [OF R2 reclaim_lost_runs [OF F]] by blast
    next
      case (3 t)
      then show ?thesis using running_trans [OF R2 reclaim_attached_runs [OF F _ L2]] by blast
    qed
  qed
qed

lemma reclaim_runs:
  assumes F: "follows env" and R: "running env h w" and E: "reclaim env h st w = (h', st', w')"
  shows "reach w w' \<and> running env h' w'"
proof -
  obtain a w1 where q1: "request env (Get (slotKey (h_slot h))) w = (a, w1)" by fastforce
  have r1: "reach w w1" by (rule request_read [OF F runningD(1) [OF R] _ q1]) simp
  have R1: "reach w w1 \<and> running env h w1" using r1 running_reach [OF R r1] by blast
  note I1 = reach_inv [OF r1 runningD(1) [OF R]]
  note E1 = E [unfolded reclaim_def q1 prod.case]
  have attach: "reach w w' \<and> running env h' w'" if "reach w w2 \<and> running env h w2" "reclaim_attach env h st w2 = (h', st', w')" for w2
    using running_trans [OF that(1) reclaim_attach_runs [OF F _ that(2)]] .
  show ?thesis
  proof (cases "\<exists>x n. a = Some (Some x, n)")
    case False
    then consider "a = None" | n where "a = Some (None, n)" by (metis not_None_eq surj_pair)
    then show ?thesis
    proof cases
      case 1
      then show ?thesis using E1 R1 by simp
    next
      case (2 n)
      then show ?thesis using E1 attach [OF R1] by simp
    qed
  next
    case True
    then obtain x n where a: "a = Some (Some x, n)" by blast
    note E2 = E1 [unfolded a option.case prod.case]
    obtain h2 w2 where o: "onOwnershipLost h w1 = (h2, w2)" by fastforce
    obtain ttl w3 where q3: "request env (TimeToLive (h_lease h)) w1 = (ttl, w3)" by fastforce
    have r3: "reach w1 w3" by (rule request_read [OF F I1 _ q3]) simp
    have R3: "reach w w3 \<and> running env h w3" using reach_trans [OF r1 r3] running_reach r3 R1 by blast
    show ?thesis
    proof (cases "kv_value x = Text (h_uuid h)")
      case False
      then have "h' = h2" "w' = w2" using E2 o by simp_all
      then show ?thesis using running_trans [OF R1 onOwnershipLost_runs [OF _ o]] by blast
    next
      case v: True
      show ?thesis
      proof (cases "h_lease h \<noteq> 0 \<and> kv_lease x = h_lease h")
        case False
        then have "reclaim_attach env h st w1 = (h', st', w')" using E2 v by (auto split: if_splits)
        then show ?thesis using attach [OF R1] by blast
      next
        case l: True
        show ?thesis
        proof (cases "ttl = Some True")
          case False
          then have "reclaim_attach env h st w3 = (h', st', w')"
            using E2 v l q3 by (auto split: option.splits bool.splits)
          then show ?thesis using attach [OF R3] by blast
        next
          case True
          obtain ka w4 where q4: "(if ls_ka st then (Some (), w3) else request env (KeepAlive (h_lease h)) w3) = (ka, w4)" by fastforce
          have "reach w3 w4" using q4 request_read [OF F reach_inv [OF r3 I1], of "KeepAlive (h_lease h)" ka w4] by (auto split: if_splits)
          then have R4: "reach w w4 \<and> running env h w4" using R3 reach_trans running_reach by blast
          have "h' = h \<lparr>h_needReclaim := False, h_registered := True\<rparr>" "w' = w4" using E2 v l q3 True q4 by simp_all
          then show ?thesis using running_trans [OF R4 running_quiet [OF _ quiet_upd(4)]] by blast
        qed
      qed
    qed
  qed
qed

lemma rewatch_runs:
  assumes F: "follows env" and R: "running env h w" and E: "rewatch env h st w = (h', st', w')"
  shows "reach w w' \<and> running env h' w'"
proof -
  obtain a w1 where q1: "request env (Get (slotKey (h_slot h))) w = (a, w1)" by fastforce
  have r1: "reach w w1" by (rule request_read [OF F runningD(1) [OF R] _ q1]) simp
  have R1: "reach w w1 \<and> running env h w1" using r1 running_reach [OF R r1] by blast
  have "w' = w1" "h' = h \<or> h' = h \<lparr>h_needReclaim := True\<rparr>"
    using E unfolding rewatch_def q1 by (auto split: option.splits prod.splits if_splits)
  then show ?thesis using R1 running_trans [OF R1 running_quiet [OF _ quiet_upd(3)]] by blast
qed

section \<open>The loop\<close>

lemma running_need: "running env h w \<Longrightarrow> running env (h \<lparr>h_needReclaim := b\<rparr>) w"
  using running_quiet [OF _ quiet_upd(3)] by blast

lemma watch_events_runs:
  "follows env \<Longrightarrow> running env h w \<Longrightarrow> watch_events env evs h st w = ((h', st', w'), b) \<Longrightarrow> reach w w' \<and> running env h' w'"
proof (induction env evs h st w arbitrary: b rule: watch_events.induct)
  case (2 env evs h st w)
  obtain h1 st1 w1 where q: "reclaim env (h \<lparr>h_needReclaim := True\<rparr>) st w = (h1, st1, w1)" using prod_cases3 by blast
  have R1: "reach w w1 \<and> running env h1 w1" by (rule reclaim_runs [OF "2.prems"(1) running_need [OF "2.prems"(2)] q])
  have "watch_events env evs h1 st1 w1 = ((h', st', w'), b)" using "2.prems"(3) q by simp
  then show ?case using running_trans [OF R1] "2.IH" [OF q [symmetric] refl "2.prems"(1)] by blast
next
  case (3 env v l evs h st w)
  obtain h1 w1 where q: "onOwnershipLost h w = (h1, w1)" by fastforce
  show ?case
  proof (cases "v \<noteq> Text (h_uuid h) \<or> l \<noteq> h_lease h")
    case True
    then show ?thesis using "3.prems" q onOwnershipLost_runs [OF "3.prems"(2) q] by auto
  next
    case False
    then show ?thesis using "3.IH" [OF False "3.prems"(1,2)] "3.prems"(3) by simp
  qed
qed simp

lemma tick_runs:
  assumes F: "follows env" and S: "steady env" and R: "running env h w" and E: "run_event env Tick h st w = ((h', st', w'), b)"
  shows "reach w w' \<and> running env h' w'"
proof -
  define st1 where "st1 = st \<lparr>ls_ticks := Suc (ls_ticks st)\<rparr>"
  show ?thesis
  proof (cases "h_closing h")
    case True
    then show ?thesis using E R unfolding run_event_def by simp
  next
    case c: False
    show ?thesis
    proof (cases "h_needReclaim h")
      case True
      obtain h1 st2 w1 where q: "reclaim env h st1 w = (h1, st2, w1)" using prod_cases3 by blast
      have "(h', w') = (h1, w1) \<or> (h', w') = (h, w)"
        using E c True q unfolding run_event_def st1_def by (auto simp: Let_def split: if_splits)
      then show ?thesis using reclaim_runs [OF F R q] R by auto
    next
      case False
      obtain h1 st2 w1 where q1: "(if ls_watch st1 then (h, st1, w) else rewatch env h st1 w) = (h1, st2, w1)" using prod_cases3 by blast
      have R1: "reach w w1 \<and> running env h1 w1" using q1 rewatch_runs [OF F R] R by (auto split: if_splits)
      obtain ok h2 w2 where q2: "advanceGuard env h1 w1 = (ok, h2, w2)" using prod_cases3 by blast
      have R2: "reach w w2 \<and> running env h2 w2" using running_trans [OF R1 advanceGuard_runs [OF F S _ q2]] .
      obtain h3 st3 w3 where q3: "reclaim env h2 st2 w2 = (h3, st3, w3)" using prod_cases3 by blast
      have R3: "reach w w3 \<and> running env h3 w3" using running_trans [OF R2 reclaim_runs [OF F _ q3]] .
      have "(h', w') = (h2, w2) \<or> (h', w') = (h3, w3)"
        using E c False q1 q2 q3 unfolding run_event_def st1_def by (auto simp: Let_def split: if_splits)
      then show ?thesis using R2 R3 by auto
    qed
  qed
qed

lemma run_event_runs:
  assumes F: "follows env" and S: "steady env" and R: "running env h w" and E: "run_event env ev h st w = ((h', st', w'), b)"
  shows "reach w w' \<and> running env h' w'"
proof (cases ev)
  case KeepAliveEnded
  obtain h1 st1 w1 where q: "reclaim env (h \<lparr>h_needReclaim := True\<rparr>) (st \<lparr>ls_ka := False\<rparr>) w = (h1, st1, w1)"
    using prod_cases3 by blast
  have "(h', w') = (h, w) \<or> (h', w') = (h1, w1)"
    using E KeepAliveEnded q unfolding run_event_def by (auto split: if_splits)
  then show ?thesis using reclaim_runs [OF F running_need [OF R] q] R by auto
next
  case Tick
  then show ?thesis using tick_runs [OF F S R] E by simp
next
  case (WatchEvents evs)
  obtain h1 st1 w1 stop where q: "watch_events env evs h st w = ((h1, st1, w1), stop)" by (metis surj_pair)
  have "(h', w') = (h, w) \<or> (h', w') = (h1, w1)"
    using E WatchEvents q unfolding run_event_def by (auto split: if_splits)
  then show ?thesis using watch_events_runs [OF F R q] R by auto
qed (use E R in \<open>auto simp: run_event_def split: if_splits\<close>)

lemma run_runs:
  "follows env \<Longrightarrow> steady env \<Longrightarrow> running env h w \<Longrightarrow> run env evs h st w = (h', st', w') \<Longrightarrow> reach w w' \<and> running env h' w'"
proof (induction evs arbitrary: h st w)
  case (Cons ev evs)
  obtain h1 st1 w1 stop where q: "run_event env ev h st w = ((h1, st1, w1), stop)" by (metis surj_pair)
  have R1: "reach w w1 \<and> running env h1 w1" by (rule run_event_runs [OF Cons.prems(1,2,3) q])
  show ?case
  proof (cases stop)
    case True
    then show ?thesis using Cons.prems(4) q R1 by simp
  next
    case False
    then have "run env evs h1 st1 w1 = (h', st', w')" using Cons.prems(4) q by simp
    then show ?thesis using running_trans [OF R1] Cons.IH [OF Cons.prems(1,2)] by blast
  qed
qed simp

section \<open>Close\<close>

lemma Handle_Close_runs:
  assumes F: "follows env" and S: "steady env" and R: "running env h w" and E: "Handle_Close env h w = (h', w')"
  shows "reach w w' \<and> running env h' w'"
proof (cases "h_closing h")
  case True
  then show ?thesis using E R unfolding Handle_Close_def by simp
next
  case False
  obtain h1 w1 where q1: "fenceAll (h \<lparr>h_closing := True\<rparr>) w = (h1, w1)" by fastforce
  obtain hf where f: "fenceAll h w = (hf, w1)" using q1 unfolding fenceAll_def by auto
  have h1: "h1 = hf \<lparr>h_closing := True\<rparr>" using q1 f unfolding fenceAll_def by auto
  have "guard_target h1 rd = guard_target hf rd" for rd unfolding h1 by (rule guard_target_cong) simp_all
  then have "handle_ok env h1 w1"
    using fenceAll_runs [OF R f] h1 unfolding running_def handle_ok_def hid_def by simp
  then have R1: "reach w w1 \<and> running env h1 w1" using fenceAll_runs(1) [OF R f] unfolding running_def by blast
  obtain h3 w3 where q3: "(if h_registered h1
               then (case advanceGuard env h1 w1 of (ok, h2, w2) \<Rightarrow>
                  if h_lease h2 \<noteq> 0 \<and> ok then (h2, snd (request env (release_txn h2) w2)) else (h2, w2))
               else (h1, w1)) = (h3, w3)" by fastforce
  have R3: "reach w w3 \<and> running env h3 w3"
  proof (cases "h_registered h1")
    case False
    then show ?thesis using q3 R1 by simp
  next
    case True
    obtain ok h2 w2 where q2: "advanceGuard env h1 w1 = (ok, h2, w2)" using prod_cases3 by blast
    have R2: "reach w w2 \<and> running env h2 w2" using running_trans [OF R1 advanceGuard_runs [OF F S _ q2]] .
    have "h_closing h2"
      using advanceGuard_ok(3) [OF F S runningD(1) runningD(2) q2] R1 h1 unfolding hid_def by auto
    show ?thesis
    proof (cases "h_lease h2 \<noteq> 0 \<and> ok")
      case False
      then show ?thesis using q3 q2 True R2 by auto
    next
      case l: True
      obtain a w4 where q4: "request env (release_txn h2) w2 = (a, w4)" by fastforce
      have H2: "leased w2 (h_lease h2) (h_uuid h2)" "h_uuid h2 \<in> set (ek_fenced (wo_etcd w2))" "world_inv w2"
        using R2 l \<open>h_closing h2\<close> unfolding running_def handle_ok_def by blast+
      have "alloc_step\<^sup>*\<^sup>* db db'" if "alloc_step\<^sup>*\<^sup>* (wo_etcd w2) db" "release_txn h2 db = Some (t, db')" for db t db'
      proof -
        have L: "later (wo_etcd w2) db" using alloc_steps_later [OF that(1) H2(3)] by blast
        then have "h_uuid h2 \<in> set (ek_fenced db)" using H2(2) unfolding later_def by blast
        then show ?thesis using release_step [OF that(2)] leased_later [OF H2(1) L] l by blast
      qed
      then have "reach w2 w4" using request_reach [OF F H2(3) q4] by blast
      then show ?thesis using q3 q2 True l q4 R2 reach_trans running_reach by auto
    qed
  qed
  have "flushCacheLocked env h3 w3 = (h', w')" using E False q1 q3 unfolding Handle_Close_def by simp
  then show ?thesis using running_trans [OF R3 running_quiet] flushCacheLocked_quiet by blast
qed

end
