(* ===== verification/AllocLife.thy ===== *)
theory AllocLife
  imports AllocRuns
begin

text \<open>
  What the protocol gives the holder of a slot, the life of an allocator process as a step relation, and
  the generator a process starts on a reused slot.
\<close>

section \<open>A slot is kept\<close>

lemma exec_keeps_slot:
  "exec_op n op db = Some (r, db') \<Longrightarrow> op_ok db0 op \<Longrightarrow> get db (slotKey s) \<noteq> None \<Longrightarrow> get db' (slotKey s) \<noteq> None"
  "exec_ops n ops db = Some (rs, db') \<Longrightarrow> list_all (op_ok db0) ops \<Longrightarrow> get db (slotKey s) \<noteq> None \<Longrightarrow> get db' (slotKey s) \<noteq> None"
proof (induction n op db and n ops db arbitrary: r db' and rs db' rule: exec_op_exec_ops.induct)
  case (1 n k v l db)
  then show ?case by (auto split: if_splits)
next
  case (2 n k db)
  then show ?case by (cases k) auto
next
  case (4 n cmps thens elses db)
  show ?case using "4.prems"(1) by (cases rule: exec_op_Txn) (use "4.IH" "4.prems"(2,3) in auto)
next
  case (6 n op ops db)
  show ?case using "6.prems"(1)
  proof (rule exec_ops_Cons)
    fix r1 db1 rs1 assume E: "exec_op n op db = Some (r1, db1)" "exec_ops n ops db1 = Some (rs1, db')"
    show ?thesis using "6.IH"(1) [OF E(1)] "6.IH"(2) [OF E(1) refl E(2)] "6.prems"(2,3) by auto
  qed
qed simp_all

text \<open>A lease granted to \<open>u\<close> has ended since \<open>db\<close>.\<close>

definition lease_lost :: "string \<Rightarrow> etcd \<Rightarrow> etcd \<Rightarrow> bool" where
  "lease_lost u db db' \<longleftrightarrow>
     (\<exists>l < ek_nextLease db'. (l \<in> set (ek_leases db) \<or> ek_nextLease db \<le> l) \<and> ek_granted db' l = u \<and> l \<notin> set (ek_leases db'))"

lemma step_leases:
  assumes "alloc_step y z" "l < ek_nextLease y" "l \<in> set (ek_leases z)"
  shows "l \<in> set (ek_leases y)"
  using assms(1)
proof cases
  case (step_txn ops rs)
  then show ?thesis using exec_frame(2) [OF step_txn(2)] assms(3) unfolding framed_def by simp
qed (use assms(2,3) in \<open>auto simp: grant_def Let_def\<close>)

lemma steps_leases:
  assumes "alloc_step\<^sup>*\<^sup>* db y" "etcd_inv db" "l < ek_nextLease db" "l \<in> set (ek_leases y)"
  shows "l \<in> set (ek_leases db)"
  using assms(1,4)
proof (induction rule: rtranclp_induct)
  case (step y z)
  have "l < ek_nextLease y" using alloc_steps_later [OF step(1) assms(2)] assms(3) unfolding later_def by simp
  then show ?case using step_leases [OF step(2)] step by blast
qed

lemma lease_lost_later:
  assumes "lease_lost u db y" "alloc_step y z" "etcd_inv y"
  shows "lease_lost u db z"
proof -
  obtain l where l: "l < ek_nextLease y" "l \<in> set (ek_leases db) \<or> ek_nextLease db \<le> l" "ek_granted y l = u" "l \<notin> set (ek_leases y)"
    using assms(1) unfolding lease_lost_def by blast
  have "later y z" by (rule alloc_step_later [OF assms(2,3)])
  then have "l < ek_nextLease z" "ek_granted z l = u" using l(1,3) unfolding later_def by auto
  then show ?thesis using l(2,4) step_leases [OF assms(2) l(1)] unfolding lease_lost_def by blast
qed

lemma holder_get: "holder_of db s = Some u \<Longrightarrow> \<exists>x. get db (slotKey s) = Some x \<and> kv_value x = Text u"
  unfolding holder_of_def by (auto split: option.splits etcd_val.splits)

lemma get_holder: "etcd_inv db \<Longrightarrow> get db (slotKey s) \<noteq> None \<Longrightarrow> holder_of db s \<noteq> None"
  unfolding holder_of_def etcd_inv_def key_ok_def by fastforce

lemma slot_kept:
  assumes "alloc_step\<^sup>*\<^sup>* db db'" and I: "etcd_inv db" and "holder_of db s = Some u"
  shows "holder_of db' s = Some u \<or> u \<in> set (ek_fenced db') \<or> lease_lost u db db'"
  using assms(1)
proof (induction rule: rtranclp_induct)
  case base
  then show ?case using assms(3) by simp
next
  case (step y z)
  have Iy: "etcd_inv y" using alloc_steps_later [OF step(1) I] by blast
  have Iz: "etcd_inv z" by (rule alloc_step_inv [OF step(2) Iy])
  have L: "later y z" by (rule alloc_step_later [OF step(2) Iy])
  consider "u \<in> set (ek_fenced y)" | "lease_lost u db y" | "holder_of y s = Some u" using step(3) by blast
  then show ?case
  proof cases
    case 1
    then show ?thesis using L unfolding later_def by blast
  next
    case 2
    then show ?thesis using lease_lost_later [OF _ step(2) Iy] by blast
  next
    case 3
    have same: "holder_of z s = Some u \<or> u \<in> set (ek_fenced z)" if "holder_of z s \<noteq> None"
      using alloc_step_hands_over [OF step(2) Iy] that 3 L unfolding hands_over_def later_def by blast
    obtain x where x: "get y (slotKey s) = Some x" "kv_value x = Text u" using holder_get [OF 3] by blast
    have ok: "key_ok y (slotKey s) x" using Iy x(1) unfolding etcd_inv_def by blast
    then have l: "ek_granted y (kv_lease x) = u" "kv_lease x \<in> set (ek_leases y)" using x(2) unfolding key_ok_def by auto
    from step(2) show ?thesis
    proof cases
      case (step_lease_ends l')
      show ?thesis
      proof (cases "kv_lease x = l'")
        case True
        have n: "kv_lease x < ek_nextLease y" using Iy l(2) unfolding etcd_inv_def by blast
        have "kv_lease x \<in> set (ek_leases db) \<or> ek_nextLease db \<le> kv_lease x"
          using steps_leases [OF step(1) I _ l(2)] by linarith
        then have "lease_lost u db z" using n l(1) True unfolding lease_lost_def step_lease_ends by auto
        then show ?thesis by blast
      next
        case False
        then show ?thesis using x unfolding step_lease_ends holder_of_def get_end_lease [OF Iy] by auto
      qed
    next
      case (step_txn ops rs)
      have "holder_of z s \<noteq> None" using exec_keeps_slot(2) [OF step_txn(2,1)] x(1) get_holder [OF Iz] by simp
      then show ?thesis using same by blast
    qed (use 3 in \<open>auto simp: holder_of_def get_def grant_def Let_def\<close>)
  qed
qed

section \<open>The life of a process\<close>

text \<open>What a started process does, in any order: it makes its generator once, mints, writes watermarks,
  takes the events of its loop and closes.\<close>

inductive life_step :: "alloc_env \<Rightarrow> Handle \<times> loopState \<times> world \<Rightarrow> Handle \<times> loopState \<times> world \<Rightarrow> bool" for env where
  life_new: "h_node h = None \<Longrightarrow> unat (h_guardEpochSec h) < 2 ^ 63 \<Longrightarrow> Handle_NewNode env h w = ((n, h'), w') \<Longrightarrow>
     life_step env (h, st, w) (h', st, w')"
| life_mint: "h_node h = Some n \<Longrightarrow> node_inv n \<Longrightarrow> sf_ok ev \<Longrightarrow> sf_mint n ev = (i, n') \<Longrightarrow>
     life_step env (h, st, w) (h \<lparr>h_node := Some n'\<rparr>, st, w)"
| life_sync: "SyncWatermark env h w = (b, h', w') \<Longrightarrow> life_step env (h, st, w) (h', st, w')"
| life_read: "ReadMsWatermark env h w = (v, w') \<Longrightarrow> life_step env (h, st, w) (h, st, w')"
| life_put: "PutMsWatermark env ms h w = (b, h', w') \<Longrightarrow> life_step env (h, st, w) (h', st, w')"
| life_loop: "run env evs h st w = (h', st', w') \<Longrightarrow> life_step env (h, st, w) (h', st', w')"
| life_close: "Handle_Close env h w = (h', w') \<Longrightarrow> life_step env (h, st, w) (h', st, w')"

lemma mark_lastTime: "node_inv n \<Longrightarrow> node_inv n' \<Longrightarrow> mark n \<le> mark n' \<Longrightarrow> lastTime n \<le> lastTime n'"
proof -
  have "mark m div 2 ^ 32 = unat (lastTime m)" if "node_inv m" for m
  proof -
    have "unat (nodeID m) \<le> 131071" "unat (nstep m) \<le> 32767"
      using that unfolding node_inv_def by (simp_all add: word_le_nat_alt)
    then have c: "unat (nodeID m) * 2 ^ 15 + unat (nstep m) < 2 ^ 32" by simp
    show ?thesis by (rule div_nat_eqI) (use c in \<open>simp_all add: mark_def\<close>)
  qed
  moreover assume "node_inv n" "node_inv n'" "mark n \<le> mark n'"
  ultimately show ?thesis using div_le_mono [of "mark n" "mark n'" "2 ^ 32"] unfolding word_le_nat_alt by simp
qed

lemma life_runs:
  assumes F: "follows env" and S: "steady env"
  shows "life_step env (h, st, w) (h', st', w') \<Longrightarrow> running env h w \<Longrightarrow> reach w w' \<and> running env h' w'"
proof (induction "(h, st, w)" "(h', st', w')" rule: life_step.induct)
  case (life_mint n ev i n')
  have f: "node_inv n'" "mark n \<le> mark n'" using sf_mint_forward [OF life_mint(4,2,3)] by blast+
  have up: "lastTime n \<le> lastTime n'" by (rule mark_lastTime [OF life_mint(2) f])
  have lt: "unat (lastTime n') < 2 ^ 63" using f(1) unfolding node_inv_def by simp
  have R: "running env h w" using life_mint by blast
  have "guard_target h rd \<le> guard_target (h \<lparr>h_node := Some n'\<rparr>) rd" if "unat (NowEpochSec rd) < 2 ^ 62" for rd
    by (rule guard_target_raise [OF _ lt]) (use life_mint(1) up that in simp_all)
  then have "handle_ok env (h \<lparr>h_node := Some n'\<rparr>) w"
    by (rule handle_ok_raise [OF runningD(2) [OF R] S]) (simp_all add: hid_def)
  then show ?case using R life_mint unfolding running_def by auto
qed (use F S in \<open>auto dest: Handle_NewNode_runs SyncWatermark_runs ReadMsWatermark_runs PutMsWatermark_runs run_runs Handle_Close_runs\<close>)

lemma lives_run:
  assumes F: "follows env" and S: "steady env" and "(life_step env)\<^sup>*\<^sup>* (h, st, w) (h', st', w')" and "running env h w"
  shows "reach w w' \<and> running env h' w'"
  using assms(3)
proof (induction "(h', st', w')" arbitrary: h' st' w' rule: rtranclp_induct)
  case base
  then show ?case using assms(4) by simp
next
  case (step y)
  obtain h1 st1 w1 where y: "y = (h1, st1, w1)" using prod_cases3 by blast
  show ?case using running_trans [OF step(3) [OF y] life_runs [OF F S step(2) [unfolded y]]] .
qed

section \<open>Acknowledgements\<close>

lemma cache_fence:
  "writeCacheLocked env h w = (h', w') \<Longrightarrow> h_fence h' = h_fence h"
  "flushCacheLocked env h w = (h', w') \<Longrightarrow> h_fence h' = h_fence h"
  "noteLocalHighWaterLocked env s m h w = (h', w') \<Longrightarrow> h_fence h' = h_fence h"
  "noteWatermarkWriteFailedLocked env h w = (h', w') \<Longrightarrow> h_fence h' = h_fence h"
proof -
  show w: "h_fence h' = h_fence h" if "writeCacheLocked env h w = (h', w')" for h w
    using that unfolding writeCacheLocked_def by (auto split: prod.splits if_splits)
  show f: "h_fence h' = h_fence h" if "flushCacheLocked env h w = (h', w')" for h w
    using that w unfolding flushCacheLocked_def by (auto split: if_splits)
  show "noteLocalHighWaterLocked env s m h w = (h', w') \<Longrightarrow> h_fence h' = h_fence h"
    unfolding noteLocalHighWaterLocked_def Let_def by (auto split: if_splits dest: w)
  show "noteWatermarkWriteFailedLocked env h w = (h', w') \<Longrightarrow> h_fence h' = h_fence h"
    unfolding noteWatermarkWriteFailedLocked_def by (auto dest: f)
qed

lemma ackLocked_fence:
  assumes "ackLocked env h w = (h', w')"
  shows "h_fence h' = Ack (h_fence h) (ae_clock env (wo_reads w)) (ae_clock env (Suc (wo_reads w)))"
  using assms unfolding ackLocked_def read_clock_def Let_def by (auto split: if_splits dest!: cache_fence(1))

text \<open>The fence is acknowledged, with readings made after the write, exactly when the watermark is settled.\<close>

lemma advanceGuard_fence:
  assumes "advanceGuard env h w = (b, h', w')"
  shows "if b then \<exists>i > wo_reads w. h_fence h' = Ack (h_fence h) (ae_clock env i) (ae_clock env (Suc i)) else h_fence h' = h_fence h"
proof -
  define w1 where "w1 = w \<lparr>wo_reads := Suc (wo_reads w)\<rparr>"
  let ?t = "guard_target h (ae_clock env (wo_reads w))"
  obtain h1 w2 where q2: "noteLocalHighWaterLocked env ?t 0 h w1 = (h1, w2)" by fastforce
  have f1: "h_fence h1 = h_fence h" "wo_reads w1 \<le> wo_reads w2"
    using cache_fence(3) [OF q2] noteLocalHighWaterLocked_quiet [OF q2] unfolding quiet_def by blast+
  obtain res rv w3 where q3: "putWatermarkLocked env h1 (watermarkKey (h_slot h))
      (if legacyMirror (h_r h) then Some (legacyGuardKey (h_slot h)) else None) ?t (h_guardRev h1) w2 = (res, rv, w3)"
    using prod_cases3 by blast
  have r: "wo_reads w' = wo_reads w" if "put_attempts n env h k lk t rv w = (res, rv', w')" for n h k lk t rv w res rv' w'
    using that
  proof (induction n arbitrary: rv w)
    case (Suc n)
    obtain a w1 where q: "request env (txn [ValueIs (slotKey (h_slot h)) (Text (h_uuid h))]
        [OpTxn [ModRevision k rv] (put_ops k lk t) [OpGet k]] []) w = (a, w1)" by fastforce
    have "wo_reads w1 = wo_reads w" using q unfolding request_def by (auto split: prod.splits)
    then show ?case using Suc q by (auto split: option.splits if_splits etcd_val.splits)
  qed simp
  have f3: "wo_reads w3 = wo_reads w2" using r q3 unfolding putWatermarkLocked_def by blast
  note E = assms [unfolded advanceGuard_def read_clock_def prod.case Let_def, folded w1_def, unfolded q2 q3 prod.case]
  show ?thesis
  proof (cases res)
    case (PutOk p)
    define h4 where "h4 = (if p > ?t then h1 \<lparr>h_guardRev := rv, h_node := map_option (\<lambda>n. SetGuardTime n p) (h_node h1)\<rparr>
        else h1 \<lparr>h_guardRev := rv\<rparr>) \<lparr>h_guardWritten := p\<rparr>"
    have b: b and a: "ackLocked env h4 w3 = (h', w')" using E PutOk unfolding h4_def by (auto split: if_splits)
    have "h_fence h' = Ack (h_fence h) (ae_clock env (wo_reads w3)) (ae_clock env (Suc (wo_reads w3)))"
      using ackLocked_fence [OF a] f1(1) unfolding h4_def by simp
    moreover have "wo_reads w < wo_reads w3" using f1(2) f3 unfolding w1_def by simp
    ultimately show ?thesis using b by auto
  qed (use E f1(1) in \<open>auto dest: cache_fence(4)\<close>)
qed

section \<open>The generator of a successor\<close>

lemma above_mark:
  assumes "node_inv n" "nstep n = stepMask" "list_all sf_ok evs" "mint_run sf_mint n evs = (ids, n')" "j \<in> set ids"
  shows "unat (lastTime n) < unat j div 2 ^ 32"
proof (rule ccontr)
  assume "\<not> unat (lastTime n) < unat j div 2 ^ 32"
  then have t: "unat j div 2 ^ 32 \<le> unat (lastTime n)" by simp
  have m: "mark n < unat j" using sf.run_bounds [OF assms(1,3,4,5)] by blast
  have w: "unat j mod 2 ^ 32 div 2 ^ 15 = unat (nodeID n)" by (rule sf_run_worker [OF assms(4,1,3,5)])
  have "unat j = unat j div 2 ^ 32 * 2 ^ 32 + (unat j mod 2 ^ 32 div 2 ^ 15) * 2 ^ 15 + unat j mod 2 ^ 32 mod 2 ^ 15"
    by (metis add.assoc div_mult_mod_eq)
  also have "\<dots> \<le> unat (lastTime n) * 2 ^ 32 + unat (nodeID n) * 2 ^ 15 + 32767"
  proof -
    have "unat j mod 2 ^ 32 mod 2 ^ 15 \<le> 32767" using mod_less_divisor [of "2 ^ 15" "unat j mod 2 ^ 32"] by simp
    then show ?thesis using t unfolding w by (intro add_mono mult_le_mono) simp_all
  qed
  also have "\<dots> = mark n" using assms(2) unfolding mark_def by simp
  finally show False using m by simp
qed

lemma raised_node:
  assumes "node_inv n" "nstep n = stepMask" "g \<Longrightarrow> unat v < 2 ^ 32"
  shows "node_inv (atomic_step (AAck r1 r2) (if g then SetGuardTime n v else n)) \<and>
    nstep (atomic_step (AAck r1 r2) (if g then SetGuardTime n v else n)) = stepMask \<and>
    lastTime n \<le> lastTime (atomic_step (AAck r1 r2) (if g then SetGuardTime n v else n))"
  using assms unfolding node_inv_def SetGuardTime_def by auto

lemma Handle_NewNode_floor:
  assumes E: "Handle_NewNode env h w = ((Some n, h'), w')" and clk: "\<And>i. clock_ok (ae_clock env i)"
    and rng: "unat (h_guardEpochSec h) < 2 ^ 32" "unat (h_guardWritten h) < 2 ^ 32" "unat (h_guardWritten h') < 2 ^ 32"
    and h: "h_node h = None"
  shows "node_inv n \<and> nstep n = stepMask \<and> h_guardEpochSec h \<le> lastTime n"
proof -
  obtain r1 w1 where q1: "read_clock env w = (r1, w1)" by fastforce
  obtain r2 w2 where q2: "read_clock env w1 = (r2, w2)" by fastforce
  have c2: "clock_ok r2" using clk q2 unfolding read_clock_def by auto
  show ?thesis
  proof (cases "NewNode (h_worker h) r1 r2")
    case None
    then show ?thesis using E q1 q2 h unfolding Handle_NewNode_def by auto
  next
    case (Some m)
    define floor where "floor = (if h_guardWritten h > h_guardEpochSec h then h_guardWritten h else h_guardEpochSec h)"
    define m2 where "m2 = SetFenceClock (if floor > 0 then SetGuardTime m floor else m) (Some (h_fence h))"
    have m: "node_inv m" "nstep m = stepMask" using NewNode_inv [OF Some c2] Some unfolding NewNode_def by (auto split: if_splits)
    have fl: "unat floor < 2 ^ 32" "h_guardEpochSec h \<le> floor" using rng unfolding floor_def by auto
    have m2: "node_inv m2" "nstep m2 = stepMask" "h_guardEpochSec h \<le> lastTime m2"
      using m fl unfolding m2_def SetFenceClock_def SetGuardTime_def node_inv_def by (auto simp: word_gt_0)
    obtain b h1 w3 where q3: "advanceGuard env (h \<lparr>h_node := Some m2\<rparr>) w2 = (b, h1, w3)" using prod_cases3 by blast
    have res: "h' = h1" "h_node h1 = Some n" using E q1 q2 Some q3 unfolding Handle_NewNode_def m2_def floor_def by (auto simp: Let_def)
    from advanceGuard_node [OF q3] show ?thesis
    proof
      assume "h_node h1 = h_node (h \<lparr>h_node := Some m2\<rparr>)"
      then show ?thesis using res(2) m2 by simp
    next
      assume "\<exists>g r1 r2. h_node h1 = map_option (\<lambda>n. atomic_step (AAck r1 r2) (if g then SetGuardTime n (h_guardWritten h1) else n))
          (h_node (h \<lparr>h_node := Some m2\<rparr>))"
      then obtain g a1 a2 where n: "n = atomic_step (AAck a1 a2) (if g then SetGuardTime m2 (h_guardWritten h1) else m2)"
        using res(2) by auto
      show ?thesis using raised_node [OF m2(1,2), of g "h_guardWritten h1" a1 a2] rng(3) m2(3) unfolding n res(1) by auto
    qed
  qed
qed

end
