(* ===== verification/AllocExample.thy ===== *)
theory AllocExample
  imports AllocLife
begin

text \<open>
  Two processes on one host, evaluated: the first claims a slot, makes its generator and closes; the
  second takes the slot over through the released marker.
\<close>

section \<open>The runs\<close>

definition demo_opts :: Options where
  "demo_opts = \<lparr>op_LeaseTTL = 60, op_ClusterID = 0, op_ClusterBits = 0, op_SlotBits = 0, op_MaxSlot = 3, op_Quarantine = 0,
     op_FenceAfter = 0, op_CachePath = ''cache'', op_LegacyPrefix = ''''\<rparr>"

definition demo_r :: resolvedOptions where
  "demo_r = projr (resolve demo_opts)"

definition calm :: "int \<Rightarrow> alloc_env" where
  "calm t = \<lparr>ae_calls = (\<lambda>_. \<lparr>ec_others = (\<lambda>db. db), ec_fate = CallRuns\<rparr>), ae_clock = (\<lambda>_. at_sec t), ae_diskOk = (\<lambda>_. True)\<rparr>"

definition fresh_etcd :: etcd where
  "fresh_etcd = \<lparr>ek_kvs = [], ek_rev = 1, ek_leases = [], ek_nextLease = 1, ek_granted = (\<lambda>_. ''''), ek_fenced = []\<rparr>"

definition world0 :: world where
  "world0 = \<lparr>wo_etcd = fresh_etcd, wo_calls = 0, wo_reads = 0, wo_disk = None, wo_writes = 0\<rparr>"

definition demo_run :: bool where
  "demo_run =
     (case AllocateWithKeepAlive 1 (calm 100) ''guild'' ''host'' ''u1'' demo_opts world0 of (Inr h1, w1) \<Rightarrow>
       (case Handle_NewNode (calm 100) h1 w1 of ((Some n1, h2), w2) \<Rightarrow>
        (case Handle_Close (calm 100) h2 w2 of (h3, w3) \<Rightarrow>
         (case allocate 1 (calm 101) ''guild'' ''host'' ''u2'' demo_r w3 of (Inr c, w4) \<Rightarrow>
          (case boot_from_claim (calm 101) ''guild'' ''host'' demo_r c w4 of (Inr h4, w5) \<Rightarrow>
           (case Handle_NewNode (calm 101) h4 w5 of ((Some n2, h5), w6) \<Rightarrow>
             h_node h1 = None \<and> h_guardEpochSec h1 = 0 \<and> h_slot h1 = 0 \<and> lastTime n1 = 102 \<and>
             watermark_of (wo_etcd w3) 0 = 104 \<and> holder_of (wo_etcd w3) 0 = Some ''u1'' \<and> ek_fenced (wo_etcd w3) = [''u1''] \<and>
             cl_reused c \<and> cl_slot c = 0 \<and> h_guardEpochSec h4 = 104 \<and> h_guardWritten h4 = 104 \<and> h_guardWritten h5 = 106 \<and>
             fst (mint_run sf_mint n2 (two_calls 107 107)) \<noteq> []
           | _ \<Rightarrow> False)
          | _ \<Rightarrow> False)
         | _ \<Rightarrow> False))
       | _ \<Rightarrow> False)
     | _ \<Rightarrow> False)"

lemma demo_run: demo_run
  by code_simp

text \<open>The first process again, with one more watermark write after it has made its generator.\<close>

definition guard_run :: bool where
  "guard_run =
     (case AllocateWithKeepAlive 1 (calm 100) ''guild'' ''host'' ''u1'' demo_opts world0 of (Inr h1, w1) \<Rightarrow>
       (case Handle_NewNode (calm 100) h1 w1 of ((_, h2), w2) \<Rightarrow>
        (case advanceGuard (calm 100) h2 w2 of (ok, h3, w3) \<Rightarrow>
          ok \<and> h_slot h2 = 0 \<and> h_uuid h2 = ''u1'' \<and> h_guardWritten h3 = 104 \<and>
          (case h_node h2 of Some n \<Rightarrow> nodeID n = 0 \<and> nstep n = stepMask \<and> lastTime n = 102 | None \<Rightarrow> False)))
     | _ \<Rightarrow> False)"

lemma guard_run: guard_run
  by code_simp

text \<open>A pool whose two slots have both been used, long ago and recently.\<close>

definition used_etcd :: etcd where
  "used_etcd = \<lparr>ek_kvs = [(watermarkKey 0, \<lparr>kv_value = Dec 102, kv_lease = 0, kv_create = 2, kv_mod = 3\<rparr>),
                          (watermarkKey 1, \<lparr>kv_value = Dec 19000, kv_lease = 0, kv_create = 4, kv_mod = 5\<rparr>)],
     ek_rev = 5, ek_leases = [], ek_nextLease = 1, ek_granted = (\<lambda>_. ''''), ek_fenced = []\<rparr>"

definition two_slots :: resolvedOptions where
  "two_slots = demo_r \<lparr>ro_maxSlot := 1\<rparr>"

definition quarantine_run :: bool where
  "quarantine_run =
     (case allocate 1 (calm 20000) ''guild'' ''host'' ''u3'' two_slots (world0 \<lparr>wo_etcd := used_etcd\<rparr>) of
        (Inr c, w) \<Rightarrow> \<not> cl_reused c \<and> cl_slot c = 0
      | _ \<Rightarrow> False)"

lemma quarantine_run: quarantine_run
  by code_simp

section \<open>Two weaknesses\<close>

text \<open>After a graceful close the slot is offered twice: to the next process of the host that reaches
  etcd, through the released marker, and to one that does not, through the cache file.  If both
  start, they hold the same worker id and issue the same identifier.\<close>

definition etcd_down :: "int \<Rightarrow> alloc_env" where
  "etcd_down t = (calm t) \<lparr>ae_calls := (\<lambda>_. \<lparr>ec_others = (\<lambda>db. db), ec_fate = CallFails\<rparr>)\<rparr>"

definition duplicate_run :: bool where
  "duplicate_run =
     (case AllocateWithKeepAlive 1 (calm 100) ''guild'' ''host'' ''u1'' demo_opts world0 of (Inr h1, w1) \<Rightarrow>
       (case Handle_NewNode (calm 100) h1 w1 of ((Some n1, h2), w2) \<Rightarrow>
        (case Handle_Close (calm 100) h2 w2 of (h3, w3) \<Rightarrow>
         (case AllocateWithKeepAlive 1 (etcd_down 101) ''guild'' ''host'' ''u2'' demo_opts w3 of (Inr h4, w4) \<Rightarrow>
          (case Handle_NewNode (etcd_down 101) h4 w4 of ((Some n2, h5), w5) \<Rightarrow>
           (case AllocateWithKeepAlive 1 (calm 102) ''guild'' ''host'' ''u3'' demo_opts w5 of (Inr h6, w6) \<Rightarrow>
            (case Handle_NewNode (calm 102) h6 w6 of ((Some n3, h7), w7) \<Rightarrow>
              (case (sf_mint n2 (EvGenerate (env_at (at_sec 110))), sf_mint n3 (EvGenerate (env_at (at_sec 110)))) of
                 ((Some i, _), (Some j, _)) \<Rightarrow> i = j | _ \<Rightarrow> False)
            | _ \<Rightarrow> False)
           | _ \<Rightarrow> False)
          | _ \<Rightarrow> False)
         | _ \<Rightarrow> False))
       | _ \<Rightarrow> False)
     | _ \<Rightarrow> False)"

lemma closed_slot_offered_twice: duplicate_run
  by code_simp

text \<open>A watermark write whose answer is lost, a second one that reads it back and then fails, and a wall
  clock that steps back: the third write lowers the watermark.  \<open>steady\<close> excludes the last.\<close>

definition bumpy :: alloc_env where
  "bumpy = \<lparr>ae_calls = (\<lambda>i. \<lparr>ec_others = (\<lambda>db. db), ec_fate = (if i = 100 then CallLost else if i = 102 then CallFails else CallRuns)\<rparr>),
     ae_clock = (\<lambda>i. if i = 100 then at_sec 101 else if i = 101 then at_sec 102 else at_sec 95), ae_diskOk = (\<lambda>_. True)\<rparr>"

definition falling_run :: bool where
  "falling_run =
     (case AllocateWithKeepAlive 1 (calm 100) ''guild'' ''host'' ''u1'' demo_opts world0 of (Inr h1, w1) \<Rightarrow>
       (case advanceGuard bumpy h1 (w1 \<lparr>wo_calls := 100, wo_reads := 100\<rparr>) of (_, h2, w2) \<Rightarrow>
        (case advanceGuard bumpy h2 w2 of (_, h3, w3) \<Rightarrow>
         (case advanceGuard bumpy h3 w3 of (_, h4, w4) \<Rightarrow>
           watermark_of (wo_etcd w3) 0 = 103 \<and> watermark_of (wo_etcd w4) 0 = 102)))
     | _ \<Rightarrow> False)"

lemma watermark_falls_with_the_clock: falling_run
  by code_simp

end
