(* ===== verification/AllocTheorems.thy ===== *)
theory AllocTheorems
  imports AllocExample
begin

text \<open>
  The properties of the worker-id allocator: it keeps to the protocol, a slot changes hands only after
  its holder has closed or lost a lease, a fresh claim waits out the quarantine, an acknowledged fence
  proves ownership and a watermark ahead of the generator, and a successor mints above the watermark
  it found.
\<close>

section \<open>The runs of the witnesses\<close>

lemma calm_follows: "follows (calm t)"
  unfolding follows_def calm_def by simp

lemma calm_steady:
  assumes "unat (NowEpochSec (at_sec t)) < 2 ^ 62"
  shows "steady (calm t)"
  using assms unfolding steady_def calm_def by simp

lemma calm_clocks:
  "unat (NowEpochSec (at_sec 100)) < 2 ^ 62" "unat (NowEpochSec (at_sec 101)) < 2 ^ 62" "clock_ok (at_sec 101)"
  unfolding NowEpochSec_def by (simp_all add: sf_eval)

lemma fresh_inv: "etcd_inv fresh_etcd" "world_inv world0"
  unfolding world0_def by (simp_all add: empty_inv empty_etcd_def fresh_etcd_def)

lemma used_inv: "etcd_inv used_etcd"
  unfolding etcd_inv_def used_etcd_def get_def key_ok_def by auto

text \<open>The first process of the demonstration up to its close, and the second up to its generator.\<close>

definition demo_boot1 where "demo_boot1 = AllocateWithKeepAlive 1 (calm 100) ''guild'' ''host'' ''u1'' demo_opts world0"
definition demo_h1 where "demo_h1 = projr (fst demo_boot1)"
definition demo_w1 where "demo_w1 = snd demo_boot1"
definition demo_node1 where "demo_node1 = Handle_NewNode (calm 100) demo_h1 demo_w1"
definition demo_h2 where "demo_h2 = snd (fst demo_node1)"
definition demo_w2 where "demo_w2 = snd demo_node1"
definition demo_h3 where "demo_h3 = fst (Handle_Close (calm 100) demo_h2 demo_w2)"
definition demo_w3 where "demo_w3 = snd (Handle_Close (calm 100) demo_h2 demo_w2)"
definition demo_claim2 where "demo_claim2 = allocate 1 (calm 101) ''guild'' ''host'' ''u2'' demo_r demo_w3"
definition demo_c where "demo_c = projr (fst demo_claim2)"
definition demo_w4 where "demo_w4 = snd demo_claim2"
definition demo_boot2 where "demo_boot2 = boot_from_claim (calm 101) ''guild'' ''host'' demo_r demo_c demo_w4"
definition demo_h4 where "demo_h4 = projr (fst demo_boot2)"
definition demo_w5 where "demo_w5 = snd demo_boot2"
definition demo_node2 where "demo_node2 = Handle_NewNode (calm 101) demo_h4 demo_w5"
definition demo_n2 where "demo_n2 = the (fst (fst demo_node2))"

lemma demo_boots:
  "AllocateWithKeepAlive 1 (calm 100) ''guild'' ''host'' ''u1'' demo_opts world0 = (Inr demo_h1, demo_w1)"
  "Handle_NewNode (calm 100) demo_h1 demo_w1 = ((fst (fst demo_node1), demo_h2), demo_w2)"
  "allocate 1 (calm 101) ''guild'' ''host'' ''u2'' demo_r demo_w3 = (Inr demo_c, demo_w4)"
  "boot_from_claim (calm 101) ''guild'' ''host'' demo_r demo_c demo_w4 = (Inr demo_h4, demo_w5)"
  "Handle_NewNode (calm 101) demo_h4 demo_w5 = ((Some demo_n2, snd (fst demo_node2)), snd demo_node2)"
  and demo_values:
  "h_node demo_h1 = None" "h_guardEpochSec demo_h1 = 0" "h_slot demo_h1 = 0" "watermark_of (wo_etcd demo_w3) 0 = 104"
  "holder_of (wo_etcd demo_w3) 0 = Some ''u1''" "cl_reused demo_c" "cl_slot demo_c = 0" "h_guardEpochSec demo_h4 = 104"
  "h_guardWritten demo_h4 = 104" "h_guardWritten (snd (fst demo_node2)) = 106"
  "fst (mint_run sf_mint demo_n2 (two_calls 107 107)) \<noteq> []"
proof -
  note D = demo_run [unfolded demo_run_def]
  obtain h1 w1 where x1: "AllocateWithKeepAlive 1 (calm 100) ''guild'' ''host'' ''u1'' demo_opts world0 = (Inr h1, w1)"
    using D by (auto split: prod.splits sum.splits)
  show e1: "AllocateWithKeepAlive 1 (calm 100) ''guild'' ''host'' ''u1'' demo_opts world0 = (Inr demo_h1, demo_w1)"
    unfolding demo_h1_def demo_w1_def demo_boot1_def x1 by simp
  note D1 = D [unfolded e1 prod.case sum.case]
  show e2: "Handle_NewNode (calm 100) demo_h1 demo_w1 = ((fst (fst demo_node1), demo_h2), demo_w2)"
    unfolding demo_h2_def demo_w2_def demo_node1_def by simp
  obtain n1 where n1: "fst (fst demo_node1) = Some n1" using D1 unfolding e2 by (auto split: option.splits)
  have e3: "Handle_Close (calm 100) demo_h2 demo_w2 = (demo_h3, demo_w3)"
    unfolding demo_h3_def demo_w3_def by simp
  note D3 = D1 [unfolded e2 n1 prod.case option.case, unfolded e3 prod.case]
  obtain c w4 where x4: "allocate 1 (calm 101) ''guild'' ''host'' ''u2'' demo_r demo_w3 = (Inr c, w4)"
    using D3 by (auto split: prod.splits sum.splits)
  show e4: "allocate 1 (calm 101) ''guild'' ''host'' ''u2'' demo_r demo_w3 = (Inr demo_c, demo_w4)"
    unfolding demo_c_def demo_w4_def demo_claim2_def x4 by simp
  note D4 = D3 [unfolded e4 prod.case sum.case]
  obtain h4 w5 where x5: "boot_from_claim (calm 101) ''guild'' ''host'' demo_r demo_c demo_w4 = (Inr h4, w5)"
    using D4 by (auto split: prod.splits sum.splits)
  show e5: "boot_from_claim (calm 101) ''guild'' ''host'' demo_r demo_c demo_w4 = (Inr demo_h4, demo_w5)"
    unfolding demo_h4_def demo_w5_def demo_boot2_def x5 by simp
  note D5 = D4 [unfolded e5 prod.case sum.case]
  obtain n2 h5 w6 where x6: "Handle_NewNode (calm 101) demo_h4 demo_w5 = ((Some n2, h5), w6)"
    using D5 by (auto split: prod.splits option.splits)
  show e6: "Handle_NewNode (calm 101) demo_h4 demo_w5 = ((Some demo_n2, snd (fst demo_node2)), snd demo_node2)"
    unfolding demo_n2_def demo_node2_def x6 by simp
  note D6 = D5 [unfolded e6 prod.case option.case]
  from D6 show "h_node demo_h1 = None" "h_guardEpochSec demo_h1 = 0" "h_slot demo_h1 = 0" "watermark_of (wo_etcd demo_w3) 0 = 104"
    "holder_of (wo_etcd demo_w3) 0 = Some ''u1''" "cl_reused demo_c" "cl_slot demo_c = 0" "h_guardEpochSec demo_h4 = 104"
    "h_guardWritten demo_h4 = 104" "h_guardWritten (snd (fst demo_node2)) = 106"
    "fst (mint_run sf_mint demo_n2 (two_calls 107 107)) \<noteq> []" by blast+
qed

definition idle where "idle = \<lparr>ls_ka = True, ls_watch = True, ls_ticks = 0\<rparr>"

lemma demo_life:
  "(life_step (calm 100))\<^sup>*\<^sup>* (demo_h1, idle, demo_w1) (demo_h3, idle, demo_w3)"
proof -
  have "life_step (calm 100) (demo_h1, idle, demo_w1) (demo_h2, idle, demo_w2)"
    using life_new [OF demo_values(1) _ demo_boots(2)] demo_values(2) by simp
  moreover have "life_step (calm 100) (demo_h2, idle, demo_w2) (demo_h3, idle, demo_w3)"
    by (rule life_close) (simp add: demo_h3_def demo_w3_def)
  ultimately show ?thesis by (meson converse_rtranclp_into_rtranclp r_into_rtranclp)
qed

lemma demo_inv: "world_inv demo_w3"
  using lives_run [OF calm_follows calm_steady [OF calm_clocks(1)] demo_life]
    AllocateWithKeepAlive_ok [OF calm_follows calm_steady [OF calm_clocks(1)] fresh_inv(2) demo_boots(1)] runningD(1) by blast

lemma lease_lost_steps:
  assumes "lease_lost u db y" "alloc_step\<^sup>*\<^sup>* y z" "etcd_inv y"
  shows "lease_lost u db z"
  using assms(2)
proof (induction rule: rtranclp_induct)
  case base
  then show ?case by (rule assms(1))
next
  case (step y' z)
  then show ?case using lease_lost_later [OF step(3,2)] alloc_steps_later [OF step(1) assms(3)] by blast
qed

lemma lead_adds: "unat (a :: u64) < 2 ^ 63 \<Longrightarrow> unat (a + guardLeadSec) = unat a + 2"
  unfolding guardLeadSec_def by (simp add: unat_word_ariths)

lemma guard_target_above: "a \<le> b \<Longrightarrow> unat b < 2 ^ 63 \<Longrightarrow> b + guardLeadSec \<le> t \<Longrightarrow> unat a + 2 \<le> unat (t :: u64)"
  using lead_adds [of b] unfolding word_le_nat_alt by simp

lemma guard_target_covers:
  assumes "\<forall>n. h_node h = Some n \<longrightarrow> node_inv n" "unat (NowEpochSec rd) < 2 ^ 62"
  shows "unat (NowEpochSec rd) + 2 \<le> unat (guard_target h rd)"
    and "h_node h = Some n \<Longrightarrow> unat (HighWaterEpochSec n) + 2 \<le> unat (guard_target h rd)"
proof -
  define t where "t = (case h_node h of None \<Rightarrow> NowEpochSec rd | Some n \<Rightarrow> if HighWaterEpochSec n > NowEpochSec rd then HighWaterEpochSec n else NowEpochSec rd)"
  have "unat t < 2 ^ 63"
    using assms unfolding t_def node_inv_def HighWaterEpochSec_def by (cases "h_node h") auto
  then have a: "unat a + 2 \<le> unat (guard_target h rd)" if "a \<le> t" for a
    using guard_target_above [OF that] unfolding guard_target_def Let_def t_def by auto
  show "unat (NowEpochSec rd) + 2 \<le> unat (guard_target h rd)" by (rule a) (auto simp: t_def split: option.splits)
  show "unat (HighWaterEpochSec n) + 2 \<le> unat (guard_target h rd)" if "h_node h = Some n"
    by (rule a) (auto simp: t_def that)
qed

section \<open>Properties\<close>



text \<open>
  Property C9.  A slot has one holder.  When a claim gets a slot that another process held when the
  claim began, then by the time it returns that process has closed or a lease granted to it has
  ended; and whoever gets a slot is named by its key when the claim returns.
\<close>

theorem slot_changes_hands_safely:
  assumes "follows env" and "etcd_inv (wo_etcd w)" and "allocate rounds env kind host uuid r w = (Inr c, w')"
  shows "holder_of (wo_etcd w') (cl_slot c) = Some uuid \<and>
    (\<forall>u. holder_of (wo_etcd w) (cl_slot c) = Some u \<longrightarrow>
       u \<in> set (ek_fenced (wo_etcd w')) \<or> lease_lost u (wo_etcd w) (wo_etcd w'))"
proof -
  have "claimed env r w uuid (Inr c) w'"
    using keepsD [OF allocate_ok [OF assms(1,2)] assms(2) reach_refl assms(3)] by blast
  then obtain db where db: "alloc_step\<^sup>*\<^sup>* (wo_etcd w) db" "alloc_step\<^sup>*\<^sup>* db (wo_etcd w')"
      "\<And>u. holder_of db (cl_slot c) = Some u \<Longrightarrow> u \<in> set (ek_fenced db)"
    and h: "holder_of (wo_etcd w') (cl_slot c) = Some uuid"
    unfolding claimed_def took_def by auto
  have I: "etcd_inv db" using alloc_steps_later [OF db(1) assms(2)] by blast
  have "u \<in> set (ek_fenced (wo_etcd w')) \<or> lease_lost u (wo_etcd w) (wo_etcd w')" if "holder_of (wo_etcd w) (cl_slot c) = Some u" for u
    using slot_kept [OF db(1) assms(2) that] db(3) lease_lost_steps [OF _ db(2) I] alloc_steps_later [OF db(2) I]
    unfolding later_def by blast
  then show ?thesis using h by blast
qed

theorem slot_changes_hands_safely_witness:
  "allocate 1 (calm 101) ''guild'' ''host'' ''u2'' demo_r demo_w3 = (Inr demo_c, demo_w4) \<and>
   holder_of (wo_etcd demo_w3) (cl_slot demo_c) = Some ''u1'' \<and> holder_of (wo_etcd demo_w4) (cl_slot demo_c) = Some ''u2'' \<and>
   (''u1'' \<in> set (ek_fenced (wo_etcd demo_w4)) \<or> lease_lost ''u1'' (wo_etcd demo_w3) (wo_etcd demo_w4))"
  using slot_changes_hands_safely [OF calm_follows demo_inv demo_boots(3)] demo_boots(3) demo_values(5,7) by simp

text \<open>
  Property C12.  A fresh claim waits out the quarantine: the slot had no watermark when the claim
  began, or some clock reading the claim made is at least the whole quarantine above it.  A slot is
  taken without waiting only when it is reused, that is when its holder has closed.
\<close>

theorem fresh_claim_waits_quarantine:
  assumes "follows env" and "etcd_inv (wo_etcd w)" and "allocate rounds env kind host uuid r w = (Inr c, w')"
    and "\<not> cl_reused c" and "watermark_of (wo_etcd w) (cl_slot c) \<noteq> 0"
  shows "\<exists>i. wo_reads w \<le> i \<and> i < wo_reads w' \<and>
    unat (watermark_of (wo_etcd w) (cl_slot c)) + unat (word_of_int (ro_quarantine r div 1000000000) :: u64)
      \<le> unat (NowEpochSec (ae_clock env i))"
proof -
  have "claimed env r w uuid (Inr c) w'"
    using keepsD [OF allocate_ok [OF assms(1,2)] assms(2) reach_refl assms(3)] by blast
  then show ?thesis using assms(4,5) unfolding claimed_def waited_def by blast
qed

theorem fresh_claim_waits_quarantine_witness:
  "\<exists>c w'. allocate 1 (calm 20000) ''guild'' ''host'' ''u3'' two_slots (world0 \<lparr>wo_etcd := used_etcd\<rparr>) = (Inr c, w') \<and>
     cl_slot c = 0 \<and> watermark_of used_etcd 0 = 102 \<and>
     102 + unat (word_of_int (ro_quarantine two_slots div 1000000000) :: u64) \<le> unat (NowEpochSec (at_sec 20000))"
proof -
  let ?w = "world0 \<lparr>wo_etcd := used_etcd\<rparr>"
  obtain c w' where E: "allocate 1 (calm 20000) ''guild'' ''host'' ''u3'' two_slots ?w = (Inr c, w')"
    and c: "\<not> cl_reused c" "cl_slot c = 0"
    using quarantine_run unfolding quarantine_run_def by (auto split: prod.splits sum.splits)
  have wm: "watermark_of used_etcd 0 = 102" unfolding watermark_of_def get_def used_etcd_def by simp
  have "etcd_inv (wo_etcd ?w)" by (simp add: used_inv)
  from fresh_claim_waits_quarantine [OF calm_follows this E c(1)] have
    "102 + unat (word_of_int (ro_quarantine two_slots div 1000000000) :: u64) \<le> unat (NowEpochSec (at_sec 20000))"
    using c(2) wm by (auto simp: calm_def)
  then show ?thesis using E c wm by blast
qed

text \<open>
  Property C11.  An acknowledged fence proves what a successor relies on.  At any point of the life of
  a process, a watermark write that reports success has found the slot under its own holder id, has
  left a watermark at least two seconds above the current second and above the position of its
  generator, and only then has the fence been acknowledged, with clock readings made after the write
  was started.  A write that does not report success leaves the fence as it was.
\<close>

theorem watermark_write_proves_ownership:
  assumes "follows env" and "steady env" and "etcd_inv (wo_etcd w0)"
    and "AllocateWithKeepAlive rounds env kind host uuid opts w0 = (Inr h0, w1)"
    and "(life_step env)\<^sup>*\<^sup>* (h0, st0, w1) (h, st, w)" and "\<And>n. h_node h = Some n \<Longrightarrow> node_inv n"
    and "advanceGuard env h w = (ok, h', w')"
  shows "if ok
    then holder_of (wo_etcd w') (h_slot h) = Some (h_uuid h) \<and> watermark_of (wo_etcd w') (h_slot h) = h_guardWritten h' \<and>
      unat (NowEpochSec (ae_clock env (wo_reads w))) + 2 \<le> unat (h_guardWritten h') \<and>
      (\<forall>n. h_node h = Some n \<longrightarrow> unat (HighWaterEpochSec n) + 2 \<le> unat (h_guardWritten h')) \<and>
      (\<exists>i > wo_reads w. h_fence h' = Ack (h_fence h) (ae_clock env i) (ae_clock env (Suc i)))
    else h_fence h' = h_fence h"
proof -
  have R: "running env h w"
    using lives_run [OF assms(1,2,5)] AllocateWithKeepAlive_ok [OF assms(1-4)] by blast
  note G = advanceGuard_ok(4) [OF assms(1,2) runningD [OF R] assms(7)]
  let ?rd = "ae_clock env (wo_reads w)"
  have c: "unat (NowEpochSec ?rd) < 2 ^ 62" using assms(2) unfolding steady_def by blast
  have "\<forall>n. h_node h = Some n \<longrightarrow> node_inv n" using assms(6) by blast
  note T = guard_target_covers [OF this c]
  show ?thesis
  proof (cases ok)
    case True
    have g: "unat (guard_target h ?rd) \<le> unat (h_guardWritten h')" using G [OF True] unfolding word_le_nat_alt by blast
    have "unat (HighWaterEpochSec n) + 2 \<le> unat (h_guardWritten h')" if "h_node h = Some n" for n using T(2) [OF that] g by linarith
    moreover have "unat (NowEpochSec ?rd) + 2 \<le> unat (h_guardWritten h')" using T(1) g by linarith
    ultimately show ?thesis using G [OF True] advanceGuard_fence [OF assms(7)] True by simp
  qed (use advanceGuard_fence [OF assms(7)] in simp)
qed

theorem watermark_write_proves_ownership_witness:
  "\<exists>n h' w'. (life_step (calm 100))\<^sup>*\<^sup>* (demo_h1, idle, demo_w1) (demo_h2, idle, demo_w2) \<and>
     advanceGuard (calm 100) demo_h2 demo_w2 = (True, h', w') \<and> holder_of (wo_etcd w') 0 = Some ''u1'' \<and>
     watermark_of (wo_etcd w') 0 = 104 \<and> h_node demo_h2 = Some n \<and> HighWaterEpochSec n = 102 \<and>
     unat (HighWaterEpochSec n) + 2 \<le> unat (h_guardWritten h')"
proof -
  obtain h' w' n where e: "advanceGuard (calm 100) demo_h2 demo_w2 = (True, h', w')" "h_slot demo_h2 = 0" "h_uuid demo_h2 = ''u1''"
      "h_guardWritten h' = 104" and n: "h_node demo_h2 = Some n" "nodeID n = 0" "nstep n = stepMask" "lastTime n = 102"
    using guard_run unfolding guard_run_def demo_boots(1,2) prod.case sum.case by (auto split: prod.splits option.splits)
  have l: "(life_step (calm 100))\<^sup>*\<^sup>* (demo_h1, idle, demo_w1) (demo_h2, idle, demo_w2)"
    by (rule r_into_rtranclp, rule life_new [OF demo_values(1) _ demo_boots(2)]) (simp add: demo_values(2))
  have "node_inv n" using n unfolding node_inv_def by simp
  then have "\<And>m. h_node demo_h2 = Some m \<Longrightarrow> node_inv m" using n(1) by simp
  from watermark_write_proves_ownership [OF calm_follows calm_steady [OF calm_clocks(1)] fresh_inv(2) demo_boots(1) l this e(1)]
  show ?thesis using e n l by (auto simp: HighWaterEpochSec_def)
qed



end
