(* ===== verification/TeamRules.thy ===== *)
theory TeamRules
  imports Mmo_Prelude
begin

text \<open>
  The roster rules of \<open>go/match/internal/team/rules.go\<close>: pure functions from a record
  snapshot, the Redis clock, the sessions and the configuration to a \<open>Decision\<close>.

  A Go pointer that may be nil is an \<open>option\<close>.  The rules work on a clone of the record, so
  the working context \<open>ruleCtx\<close> is a value that each step returns updated; an in-place update
  of a found application or invite replaces the first match in its list.  A Go map lookup of an
  absent key gives the zero value.
\<close>

section \<open>Constants and error codes\<close>

definition Capacity :: nat where "Capacity = 5"
definition ApplicationTTLMs :: u64 where "ApplicationTTLMs = 120000"
definition MaxApplications :: nat where "MaxApplications = 10"
definition InviteTTLMs :: u64 where "InviteTTLMs = 60000"
definition MaxInvitesPerTeam :: nat where "MaxInvitesPerTeam = 10"
definition MaxPendingInvitesPerInvitee :: nat where "MaxPendingInvitesPerInvitee = 10"

definition ErrPlayerId :: u32 where "ErrPlayerId = 4001"
definition ErrMembersFull :: u32 where "ErrMembersFull = 4002"
definition ErrMemberInTeam :: u32 where "ErrMemberInTeam = 4003"
definition ErrMemberNotInTeam :: u32 where "ErrMemberNotInTeam = 4004"
definition ErrKickSelf :: u32 where "ErrKickSelf = 4005"
definition ErrKickNotLeader :: u32 where "ErrKickNotLeader = 4006"
definition ErrAppointSelf :: u32 where "ErrAppointSelf = 4007"
definition ErrAppointNotLeader :: u32 where "ErrAppointNotLeader = 4008"
definition ErrApplicationNotFound :: u32 where "ErrApplicationNotFound = 4011"
definition ErrNoTeam :: u32 where "ErrNoTeam = 4013"
definition ErrDisbandNotLeader :: u32 where "ErrDisbandNotLeader = 4014"
definition ErrNotLeader :: u32 where "ErrNotLeader = 4018"
definition ErrHomeZoneUnknown :: u32 where "ErrHomeZoneUnknown = 4019"
definition ErrCrossZoneDenied :: u32 where "ErrCrossZoneDenied = 4020"
definition ErrInviteNotFound :: u32 where "ErrInviteNotFound = 4021"
definition ErrInviteLimit :: u32 where "ErrInviteLimit = 4022"
definition ErrInMatch :: u32 where "ErrInMatch = 4023"
definition ErrMemberOffline :: u32 where "ErrMemberOffline = 4024"
definition ErrDungeonNotOpen :: u32 where "ErrDungeonNotOpen = 4027"
definition ErrSizeExceeded :: u32 where "ErrSizeExceeded = 4028"
definition ErrStateChanged :: u32 where "ErrStateChanged = 4029"
definition ErrInternal :: u32 where "ErrInternal = 4030"

lemmas team_codes = ErrPlayerId_def ErrMembersFull_def ErrMemberInTeam_def ErrMemberNotInTeam_def
  ErrKickSelf_def ErrKickNotLeader_def ErrAppointSelf_def ErrAppointNotLeader_def
  ErrApplicationNotFound_def ErrNoTeam_def ErrDisbandNotLeader_def ErrNotLeader_def
  ErrHomeZoneUnknown_def ErrCrossZoneDenied_def ErrInviteNotFound_def ErrInviteLimit_def
  ErrInMatch_def ErrMemberOffline_def ErrDungeonNotOpen_def ErrSizeExceeded_def
  ErrStateChanged_def ErrInternal_def

section \<open>Records\<close>

record TeamMemberRecord =
  tm_player_id :: u64
  tm_zone_id :: u32
  tm_joined_at_ms :: u64
  tm_join_seq :: u32

record TeamApplicationRecord =
  ta_player_id :: u64
  ta_zone_id :: u32
  ta_applied_at_ms :: u64
  ta_expire_at_ms :: u64

record TeamInviteRecord =
  ti_invitee_id :: u64
  ti_inviter_id :: u64
  ti_zone_id :: u32
  ti_invited_at_ms :: u64
  ti_expire_at_ms :: u64

record TeamRecord =
  tr_team_id :: u64
  tr_leader_id :: u64
  tr_zone_id :: u32
  tr_created_at_ms :: u64
  tr_members :: "TeamMemberRecord list"
  tr_applications :: "TeamApplicationRecord list"
  tr_invites :: "TeamInviteRecord list"
  tr_next_join_seq :: u32
  tr_match_lock_token :: string
  tr_match_lock_expire_at_ms :: u64
  tr_match_lock_roster :: "u64 list"

datatype SessionState = SessionUnknown | SessionAbsent | SessionPresent | SessionOnline

type_synonym Sessions = "u64 \<rightharpoonup> SessionState"

definition session_of :: "Sessions \<Rightarrow> u64 \<Rightarrow> SessionState" where
  "session_of s p = (case s p of None \<Rightarrow> SessionUnknown | Some st \<Rightarrow> st)"

record RuleConfig =
  AllowCrossZone :: bool

datatype OpKind = OpUnset | OpCreate | OpRefresh | OpApply | OpHandleApplication | OpInvite
  | OpRespondInvite | OpLeave | OpKick | OpTransferLeader | OpDisband

record Op =
  op_Kind :: OpKind
  op_Caller :: u64
  op_CallerTeamId :: u64
  op_CallerZone :: u32
  op_Target :: u64
  op_TargetZone :: u32
  op_NewTeamId :: u64
  op_Accept :: bool

definition op_zero :: Op where
  "op_zero = \<lparr>op_Kind = OpUnset, op_Caller = 0, op_CallerTeamId = 0, op_CallerZone = 0,
     op_Target = 0, op_TargetZone = 0, op_NewTeamId = 0, op_Accept = False\<rparr>"

definition CreateOp :: "u64 \<Rightarrow> u64 \<Rightarrow> u32 \<Rightarrow> Op" where
  "CreateOp caller teamId zone =
     op_zero\<lparr>op_Kind := OpCreate, op_Caller := caller, op_NewTeamId := teamId, op_CallerZone := zone\<rparr>"

definition RefreshOp :: "u64 \<Rightarrow> Op" where
  "RefreshOp caller = op_zero\<lparr>op_Kind := OpRefresh, op_Caller := caller\<rparr>"

definition ApplyOp :: "u64 \<Rightarrow> u32 \<Rightarrow> Op" where
  "ApplyOp caller callerZone =
     op_zero\<lparr>op_Kind := OpApply, op_Caller := caller, op_CallerZone := callerZone\<rparr>"

definition HandleApplicationOp :: "u64 \<Rightarrow> u64 \<Rightarrow> bool \<Rightarrow> Op" where
  "HandleApplicationOp caller applicant approve =
     op_zero\<lparr>op_Kind := OpHandleApplication, op_Caller := caller, op_Target := applicant, op_Accept := approve\<rparr>"

definition InviteOp :: "u64 \<Rightarrow> u64 \<Rightarrow> u32 \<Rightarrow> Op" where
  "InviteOp caller target targetZone =
     op_zero\<lparr>op_Kind := OpInvite, op_Caller := caller, op_Target := target, op_TargetZone := targetZone\<rparr>"

definition RespondInviteOp :: "u64 \<Rightarrow> bool \<Rightarrow> Op" where
  "RespondInviteOp caller accept =
     op_zero\<lparr>op_Kind := OpRespondInvite, op_Caller := caller, op_Accept := accept\<rparr>"

definition LeaveOp :: "u64 \<Rightarrow> Op" where
  "LeaveOp caller = op_zero\<lparr>op_Kind := OpLeave, op_Caller := caller\<rparr>"

definition KickOp :: "u64 \<Rightarrow> u64 \<Rightarrow> Op" where
  "KickOp caller target = op_zero\<lparr>op_Kind := OpKick, op_Caller := caller, op_Target := target\<rparr>"

definition TransferLeaderOp :: "u64 \<Rightarrow> u64 \<Rightarrow> Op" where
  "TransferLeaderOp caller target =
     op_zero\<lparr>op_Kind := OpTransferLeader, op_Caller := caller, op_Target := target\<rparr>"

definition DisbandOp :: "u64 \<Rightarrow> Op" where
  "DisbandOp caller = op_zero\<lparr>op_Kind := OpDisband, op_Caller := caller\<rparr>"

datatype TeamChangeReason = REASON_UNSPECIFIED | REASON_CREATED | REASON_MEMBER_JOINED
  | REASON_MEMBER_LEFT | REASON_MEMBER_KICKED | REASON_LEADER_TRANSFERRED
  | REASON_LEADER_OFFLINE_TRANSFERRED | REASON_DISBANDED | REASON_APPLICATION_CHANGED
  | REASON_INVITE_CHANGED | REASON_MEMBER_ONLINE | REASON_MATCH_STARTED | REASON_MATCH_ENDED
  | REASON_MATCH_FAILED | REASON_HEALED | REASON_MATCH_QUEUED | REASON_MATCH_QUEUE_CANCELED

text \<open>\<open>InviteIndexAdd\<close> is the pair of invitee and expiry.\<close>

type_synonym InviteIndexAdd = "u64 \<times> u64"

record Decision =
  d_Code :: u32
  d_CodeParam :: u64
  d_Changed :: bool
  d_Record :: "TeamRecord option"
  d_Joined :: "u64 list"
  d_Kept :: "u64 list"
  d_Left :: "u64 list"
  d_InvitesAdded :: "InviteIndexAdd list"
  d_InvitesRemoved :: "u64 list"
  d_InvitesExpired :: "u64 list"
  d_ExpiryOnly :: bool
  d_Reason :: TeamChangeReason
  d_Actor :: u64
  d_LeaderOfflineTransferred :: bool
  d_Disbanded :: bool
  d_RevokedInvitees :: "u64 list"
  d_RejectedApplicant :: u64
  d_InvitedPlayer :: u64

definition decision_zero :: Decision where
  "decision_zero = \<lparr>d_Code = 0, d_CodeParam = 0, d_Changed = False, d_Record = None, d_Joined = [],
     d_Kept = [], d_Left = [], d_InvitesAdded = [], d_InvitesRemoved = [], d_InvitesExpired = [],
     d_ExpiryOnly = False, d_Reason = REASON_UNSPECIFIED, d_Actor = 0,
     d_LeaderOfflineTransferred = False, d_Disbanded = False, d_RevokedInvitees = [],
     d_RejectedApplicant = 0, d_InvitedPlayer = 0\<rparr>"

definition reject :: "u32 \<Rightarrow> u64 \<Rightarrow> Decision" where
  "reject code param = decision_zero\<lparr>d_Code := code, d_CodeParam := param\<rparr>"

section \<open>Helpers\<close>

definition MatchLockActive :: "TeamRecord option \<Rightarrow> u64 \<Rightarrow> bool" where
  "MatchLockActive rec nowMs =
     (case rec of
        None \<Rightarrow> False
      | Some r \<Rightarrow> tr_match_lock_token r \<noteq> '''' \<and>
          (tr_match_lock_expire_at_ms r = 0 \<or> nowMs < tr_match_lock_expire_at_ms r))"

definition FindMember :: "TeamRecord \<Rightarrow> u64 \<Rightarrow> TeamMemberRecord option" where
  "FindMember rec playerId = List.find (\<lambda>m. tm_player_id m = playerId) (tr_members rec)"

text \<open>\<open>sort.SliceStable\<close> by \<open>(join_seq, player_id)\<close>; \<open>sort_key\<close> is stable.\<close>

definition sortMembers :: "TeamMemberRecord list \<Rightarrow> TeamMemberRecord list" where
  "sortMembers ms = sort_key (\<lambda>m. (tm_join_seq m, tm_player_id m)) ms"

definition MemberIds :: "TeamRecord \<Rightarrow> u64 list" where
  "MemberIds rec = map tm_player_id (sortMembers (tr_members rec))"

definition removeId :: "u64 list \<Rightarrow> u64 \<Rightarrow> u64 list" where
  "removeId ids i = filter (\<lambda>v. v \<noteq> i) ids"

definition memberSet :: "TeamRecord \<Rightarrow> u64 \<Rightarrow> bool" where
  "memberSet rec p = (p \<in> set (map tm_player_id (tr_members rec)))"

definition findApplication :: "TeamRecord \<Rightarrow> u64 \<Rightarrow> TeamApplicationRecord option" where
  "findApplication rec playerId = List.find (\<lambda>a. ta_player_id a = playerId) (tr_applications rec)"

definition removeApplication :: "TeamRecord \<Rightarrow> u64 \<Rightarrow> TeamRecord" where
  "removeApplication rec playerId =
     rec\<lparr>tr_applications := filter (\<lambda>a. ta_player_id a \<noteq> playerId) (tr_applications rec)\<rparr>"

definition findInvite :: "TeamRecord \<Rightarrow> u64 \<Rightarrow> TeamInviteRecord option" where
  "findInvite rec inviteeId = List.find (\<lambda>i. ti_invitee_id i = inviteeId) (tr_invites rec)"

definition removeInvite :: "TeamRecord \<Rightarrow> u64 \<Rightarrow> TeamRecord" where
  "removeInvite rec inviteeId =
     rec\<lparr>tr_invites := filter (\<lambda>i. ti_invitee_id i \<noteq> inviteeId) (tr_invites rec)\<rparr>"

text \<open>The scan for the oldest entry that is not \<open>keep\<close>: the index of the first least
  \<open>(time, id)\<close> pair, \<open>None\<close> for the \<open>-1\<close> of the source.\<close>

fun oldest_scan ::
    "('a \<Rightarrow> u64) \<Rightarrow> ('a \<Rightarrow> u64) \<Rightarrow> u64 \<Rightarrow> 'a list \<Rightarrow> nat \<Rightarrow> (nat \<times> 'a) option \<Rightarrow> (nat \<times> 'a) option" where
  "oldest_scan idf timef keep [] i oldest = oldest"
| "oldest_scan idf timef keep (a # as) i oldest =
     oldest_scan idf timef keep as (i + 1)
       (if idf a = keep then oldest
        else case oldest of
          None \<Rightarrow> Some (i, a)
        | Some (j, b) \<Rightarrow>
            if timef a < timef b \<or> timef a = timef b \<and> idf a < idf b then Some (i, a)
            else Some (j, b))"

lemma oldest_scan_index:
  "oldest_scan idf timef keep xs i acc = Some (k, a) \<Longrightarrow>
     acc = Some (k, a) \<or> i \<le> k \<and> k < i + length xs \<and> xs ! (k - i) = a \<and> idf a \<noteq> keep"
proof (induction xs arbitrary: i acc)
  case (Cons x xs)
  let ?acc = "if idf x = keep then acc
        else case acc of None \<Rightarrow> Some (i, x)
        | Some (j, b) \<Rightarrow> if timef x < timef b \<or> timef x = timef b \<and> idf x < idf b then Some (i, x) else Some (j, b)"
  have "oldest_scan idf timef keep xs (Suc i) ?acc = Some (k, a)" using Cons.prems by simp
  from Cons.IH [OF this] show ?case
  proof
    assume "?acc = Some (k, a)"
    then have "acc = Some (k, a) \<or> idf x \<noteq> keep \<and> k = i \<and> a = x"
      by (auto split: if_splits option.splits)
    then show ?thesis by auto
  next
    assume *: "Suc i \<le> k \<and> k < Suc i + length xs \<and> xs ! (k - Suc i) = a \<and> idf a \<noteq> keep"
    then have "(x # xs) ! (k - i) = a" by (simp add: nth_Cons' )
    with * show ?thesis by simp
  qed
qed simp

function evict_oldest :: "('a \<Rightarrow> u64) \<Rightarrow> ('a \<Rightarrow> u64) \<Rightarrow> nat \<Rightarrow> u64 \<Rightarrow> 'a list \<Rightarrow> 'a list" where
  "evict_oldest idf timef cap keep xs =
     (if length xs > cap then
        (case oldest_scan idf timef keep xs 0 None of
           None \<Rightarrow> xs
         | Some (i, _) \<Rightarrow> evict_oldest idf timef cap keep (take i xs @ drop (i + 1) xs))
      else xs)"
  by pat_completeness auto
termination
  by (relation "measure (\<lambda>(_, _, _, _, xs). length xs)") (auto dest: oldest_scan_index)

declare evict_oldest.simps [simp del]

definition evictOldestApplications :: "TeamRecord \<Rightarrow> u64 \<Rightarrow> TeamRecord" where
  "evictOldestApplications rec keep =
     rec\<lparr>tr_applications := evict_oldest ta_player_id ta_applied_at_ms MaxApplications keep (tr_applications rec)\<rparr>"

definition evictOldestInvites :: "TeamRecord \<Rightarrow> u64 \<Rightarrow> TeamRecord" where
  "evictOldestInvites rec keep =
     rec\<lparr>tr_invites := evict_oldest ti_invitee_id ti_invited_at_ms MaxInvitesPerTeam keep (tr_invites rec)\<rparr>"

definition pruneExpired :: "TeamRecord \<Rightarrow> u64 \<Rightarrow> TeamRecord \<times> bool \<times> bool" where
  "pruneExpired rec nowMs =
     (let apps = filter (\<lambda>a. ta_expire_at_ms a > nowMs) (tr_applications rec);
          invites = filter (\<lambda>i. ti_expire_at_ms i > nowMs) (tr_invites rec)
      in (rec\<lparr>tr_applications := apps, tr_invites := invites\<rparr>,
          list_ex (\<lambda>a. \<not> ta_expire_at_ms a > nowMs) (tr_applications rec),
          list_ex (\<lambda>i. \<not> ti_expire_at_ms i > nowMs) (tr_invites rec)))"

definition PruneExpired :: "TeamRecord option \<Rightarrow> u64 \<Rightarrow> TeamRecord option" where
  "PruneExpired rec nowMs = map_option (\<lambda>r. fst (pruneExpired r nowMs)) rec"

definition pickLeader :: "TeamMemberRecord list \<Rightarrow> Sessions \<Rightarrow> bool \<Rightarrow> u64" where
  "pickLeader candidates sessions onlineOnly =
     (let sorted = sortMembers candidates
      in case List.find (\<lambda>m. session_of sessions (tm_player_id m) = SessionOnline) sorted of
           Some m \<Rightarrow> tm_player_id m
         | None \<Rightarrow> (if onlineOnly then 0 else case sorted of [] \<Rightarrow> 0 | m # _ \<Rightarrow> tm_player_id m))"

definition lazyTransferLeader :: "TeamRecord \<Rightarrow> Sessions \<Rightarrow> TeamRecord \<times> bool" where
  "lazyTransferLeader rec sessions =
     (let leader = tr_leader_id rec
      in if FindMember rec leader = None \<or> session_of sessions leader \<noteq> SessionAbsent then (rec, False)
         else
           let others = filter (\<lambda>m. tm_player_id m \<noteq> leader) (tr_members rec);
               nxt = pickLeader others sessions True
           in if nxt = 0 then (rec, False) else (rec\<lparr>tr_leader_id := nxt\<rparr>, True))"

section \<open>The working context and its steps\<close>

record ruleCtx =
  rc_op :: Op
  rc_rec :: TeamRecord
  rc_now :: u64
  rc_sessions :: Sessions
  rc_cfg :: RuleConfig
  rc_code :: u32
  rc_codeParam :: u64
  rc_appsExpired :: bool
  rc_invitesExpired :: bool
  rc_transferred :: bool
  rc_opChanged :: bool
  rc_reason :: TeamChangeReason
  rc_actor :: u64
  rc_disbanded :: bool
  rc_revoked :: "u64 list"
  rc_extraLeft :: "u64 list"
  rc_added :: "InviteIndexAdd list"
  rc_rejected :: u64
  rc_invited :: u64

definition new_ctx :: "Op \<Rightarrow> TeamRecord \<Rightarrow> u64 \<Rightarrow> Sessions \<Rightarrow> RuleConfig \<Rightarrow> ruleCtx" where
  "new_ctx op rec nowMs sessions cfg = \<lparr>rc_op = op, rc_rec = rec, rc_now = nowMs,
     rc_sessions = sessions, rc_cfg = cfg, rc_code = 0, rc_codeParam = 0, rc_appsExpired = False,
     rc_invitesExpired = False, rc_transferred = False, rc_opChanged = False,
     rc_reason = REASON_UNSPECIFIED, rc_actor = 0, rc_disbanded = False, rc_revoked = [],
     rc_extraLeft = [], rc_added = [], rc_rejected = 0, rc_invited = 0\<rparr>"

text \<open>\<open>c.appsExpired, c.invitesExpired = pruneExpired(work, now)\<close>, and the transfer check.\<close>

definition ctx_prune :: "ruleCtx \<Rightarrow> ruleCtx" where
  "ctx_prune c =
     (case pruneExpired (rc_rec c) (rc_now c) of (r, a, i) \<Rightarrow>
       c\<lparr>rc_rec := r, rc_appsExpired := a, rc_invitesExpired := i\<rparr>)"

definition ctx_transfer :: "ruleCtx \<Rightarrow> ruleCtx" where
  "ctx_transfer c =
     (case lazyTransferLeader (rc_rec c) (rc_sessions c) of (r, t) \<Rightarrow>
       c\<lparr>rc_rec := r, rc_transferred := t\<rparr>)"

definition fail :: "u32 \<Rightarrow> u64 \<Rightarrow> ruleCtx \<Rightarrow> ruleCtx" where
  "fail code param c = (if rc_code c = 0 then c\<lparr>rc_code := code, rc_codeParam := param\<rparr> else c)"

definition markOp :: "TeamChangeReason \<Rightarrow> u64 \<Rightarrow> ruleCtx \<Rightarrow> ruleCtx" where
  "markOp reason actor c = c\<lparr>rc_opChanged := True, rc_reason := reason, rc_actor := actor\<rparr>"

definition isLeader :: "ruleCtx \<Rightarrow> u64 \<Rightarrow> bool" where
  "isLeader c playerId = (playerId \<noteq> 0 \<and> tr_leader_id (rc_rec c) = playerId)"

definition full :: "ruleCtx \<Rightarrow> bool" where
  "full c = (length (tr_members (rc_rec c)) \<ge> Capacity)"

definition locked :: "ruleCtx \<Rightarrow> bool" where
  "locked c = MatchLockActive (Some (rc_rec c)) (rc_now c)"

text \<open>\<open>zoneCheck\<close>: \<open>None\<close> when it passes, the failed context otherwise.\<close>

definition zoneCheck :: "u32 \<Rightarrow> ruleCtx \<Rightarrow> ruleCtx option" where
  "zoneCheck zone c =
     (if zone = 0 then Some (fail ErrHomeZoneUnknown 0 c)
      else if \<not> AllowCrossZone (rc_cfg c) \<and> zone \<noteq> tr_zone_id (rc_rec c) then
        Some (fail ErrCrossZoneDenied 0 c)
      else None)"

definition dissolve :: "ruleCtx \<Rightarrow> ruleCtx" where
  "dissolve c =
     c\<lparr>rc_disbanded := True,
       rc_revoked := rc_revoked c @ map ti_invitee_id (tr_invites (rc_rec c)),
       rc_rec := (rc_rec c)\<lparr>tr_invites := [], tr_applications := []\<rparr>\<rparr>"

definition join_seq_for :: "TeamRecord \<Rightarrow> u32" where
  "join_seq_for rec =
     (let seq = fold (\<lambda>m seq. if tm_join_seq m \<ge> seq then tm_join_seq m + 1 else seq)
                  (tr_members rec) (tr_next_join_seq rec)
      in if seq = 0 then 1 else seq)"

definition addMember :: "u64 \<Rightarrow> u32 \<Rightarrow> ruleCtx \<Rightarrow> ruleCtx" where
  "addMember playerId zone c =
     (let rec = rc_rec c;
          seq = join_seq_for rec;
          m = \<lparr>tm_player_id = playerId, tm_zone_id = zone, tm_joined_at_ms = rc_now c, tm_join_seq = seq\<rparr>;
          rec' = rec\<lparr>tr_members := sortMembers (tr_members rec @ [m]), tr_next_join_seq := seq + 1\<rparr>
      in c\<lparr>rc_rec := removeInvite (removeApplication rec' playerId) playerId\<rparr>)"

definition removeMember :: "u64 \<Rightarrow> ruleCtx \<Rightarrow> ruleCtx" where
  "removeMember playerId c =
     (let kept = filter (\<lambda>m. tm_player_id m \<noteq> playerId) (tr_members (rc_rec c));
          c' = c\<lparr>rc_rec := (rc_rec c)\<lparr>tr_members := kept\<rparr>\<rparr>
      in if kept = [] then dissolve c'
         else if tr_leader_id (rc_rec c) = playerId then
           c'\<lparr>rc_rec := (rc_rec c')\<lparr>tr_leader_id := pickLeader kept (rc_sessions c) False\<rparr>\<rparr>
         else c')"

definition rc_apply :: "ruleCtx \<Rightarrow> ruleCtx" where
  "rc_apply c =
     (let op = rc_op c; caller = op_Caller op; rec = rc_rec c; now = rc_now c
      in if FindMember rec caller \<noteq> None \<or> op_CallerTeamId op \<noteq> 0 then fail ErrMemberInTeam 0 c
         else case zoneCheck (op_CallerZone op) c of
           Some c' \<Rightarrow> c'
         | None \<Rightarrow>
             if full c then fail ErrMembersFull 0 c
             else
               let rec' = (if findApplication rec caller \<noteq> None then
                             rec\<lparr>tr_applications := upd_first (\<lambda>a. ta_player_id a = caller)
                                 (\<lambda>a. a\<lparr>ta_expire_at_ms := now + ApplicationTTLMs, ta_zone_id := op_CallerZone op\<rparr>)
                                 (tr_applications rec)\<rparr>
                           else
                             evictOldestApplications
                               (rec\<lparr>tr_applications := tr_applications rec @
                                  [\<lparr>ta_player_id = caller, ta_zone_id = op_CallerZone op,
                                    ta_applied_at_ms = now, ta_expire_at_ms = now + ApplicationTTLMs\<rparr>]\<rparr>) caller)
               in markOp REASON_APPLICATION_CHANGED caller (c\<lparr>rc_rec := rec'\<rparr>))"

definition rc_handleApplication :: "ruleCtx \<Rightarrow> ruleCtx" where
  "rc_handleApplication c =
     (let op = rc_op c; applicant = op_Target op; rec = rc_rec c; app = findApplication rec applicant
      in if \<not> isLeader c (op_Caller op) then fail ErrNotLeader 0 c
         else if \<not> op_Accept op then
           (if app = None then c
            else markOp REASON_APPLICATION_CHANGED applicant
                   (c\<lparr>rc_rec := removeApplication rec applicant, rc_rejected := applicant\<rparr>))
         else if FindMember rec applicant \<noteq> None then c
         else case app of
           None \<Rightarrow> fail ErrApplicationNotFound 0 c
         | Some a \<Rightarrow>
             if locked c then fail ErrInMatch 0 c
             else if full c then fail ErrMembersFull 0 c
             else case zoneCheck (ta_zone_id a) c of
               Some c' \<Rightarrow> c'
             | None \<Rightarrow> markOp REASON_MEMBER_JOINED applicant (addMember applicant (ta_zone_id a) c))"

definition rc_invite :: "ruleCtx \<Rightarrow> ruleCtx" where
  "rc_invite c =
     (let op = rc_op c; target = op_Target op; rec = rc_rec c; expire = rc_now c + InviteTTLMs
      in if \<not> isLeader c (op_Caller op) then fail ErrNotLeader 0 c
         else if target = 0 \<or> target = op_Caller op then fail ErrPlayerId 0 c
         else if FindMember rec target \<noteq> None then fail ErrMemberInTeam target c
         else case zoneCheck (op_TargetZone op) c of
           Some c' \<Rightarrow> c'
         | None \<Rightarrow>
             if full c then fail ErrMembersFull 0 c
             else
               let rec' = (if findInvite rec target \<noteq> None then
                             rec\<lparr>tr_invites := upd_first (\<lambda>i. ti_invitee_id i = target)
                                 (\<lambda>i. i\<lparr>ti_expire_at_ms := expire, ti_inviter_id := op_Caller op,
                                        ti_zone_id := op_TargetZone op\<rparr>)
                                 (tr_invites rec)\<rparr>
                           else
                             evictOldestInvites
                               (rec\<lparr>tr_invites := tr_invites rec @
                                  [\<lparr>ti_invitee_id = target, ti_inviter_id = op_Caller op,
                                    ti_zone_id = op_TargetZone op, ti_invited_at_ms = rc_now c,
                                    ti_expire_at_ms = expire\<rparr>]\<rparr>) target)
               in markOp REASON_INVITE_CHANGED target
                    (c\<lparr>rc_rec := rec', rc_added := rc_added c @ [(target, expire)], rc_invited := target\<rparr>))"

definition rc_respondInvite :: "ruleCtx \<Rightarrow> ruleCtx" where
  "rc_respondInvite c =
     (let op = rc_op c; caller = op_Caller op; rec = rc_rec c; inv = findInvite rec caller
      in if \<not> op_Accept op then
           (if inv = None then c
            else markOp REASON_INVITE_CHANGED caller (c\<lparr>rc_rec := removeInvite rec caller\<rparr>))
         else if FindMember rec caller \<noteq> None then c
         else case inv of
           None \<Rightarrow> fail ErrInviteNotFound 0 c
         | Some i \<Rightarrow>
             if locked c then fail ErrInMatch 0 c
             else if op_CallerTeamId op \<noteq> 0 \<and> op_CallerTeamId op \<noteq> tr_team_id rec then
               fail ErrMemberInTeam 0 c
             else if full c then fail ErrMembersFull 0 c
             else case zoneCheck (ti_zone_id i) c of
               Some c' \<Rightarrow> c'
             | None \<Rightarrow> markOp REASON_MEMBER_JOINED caller (addMember caller (ti_zone_id i) c))"

definition rc_leave :: "ruleCtx \<Rightarrow> ruleCtx" where
  "rc_leave c =
     (let op = rc_op c; caller = op_Caller op; rec = rc_rec c
      in if FindMember rec caller = None then
           (if op_CallerTeamId op = tr_team_id rec then
              markOp REASON_MEMBER_LEFT caller (c\<lparr>rc_extraLeft := rc_extraLeft c @ [caller]\<rparr>)
            else c)
         else if locked c then fail ErrInMatch 0 c
         else markOp REASON_MEMBER_LEFT caller (removeMember caller c))"

definition rc_kick :: "ruleCtx \<Rightarrow> ruleCtx" where
  "rc_kick c =
     (let op = rc_op c; target = op_Target op
      in if \<not> isLeader c (op_Caller op) then fail ErrKickNotLeader 0 c
         else if target = op_Caller op then fail ErrKickSelf 0 c
         else if FindMember (rc_rec c) target = None then fail ErrMemberNotInTeam target c
         else if locked c then fail ErrInMatch 0 c
         else markOp REASON_MEMBER_KICKED target (removeMember target c))"

definition rc_transferLeader :: "ruleCtx \<Rightarrow> ruleCtx" where
  "rc_transferLeader c =
     (let op = rc_op c; target = op_Target op
      in if target = 0 then fail ErrPlayerId 0 c
         else if target = op_Caller op then fail ErrAppointSelf 0 c
         else if isLeader c target then c
         else if \<not> isLeader c (op_Caller op) then fail ErrAppointNotLeader 0 c
         else if FindMember (rc_rec c) target = None then fail ErrMemberNotInTeam target c
         else if session_of (rc_sessions c) target \<noteq> SessionOnline then fail ErrMemberOffline target c
         else if locked c then fail ErrInMatch 0 c
         else markOp REASON_LEADER_TRANSFERRED target (c\<lparr>rc_rec := (rc_rec c)\<lparr>tr_leader_id := target\<rparr>\<rparr>))"

definition rc_disband :: "ruleCtx \<Rightarrow> ruleCtx" where
  "rc_disband c =
     (let op = rc_op c
      in if \<not> isLeader c (op_Caller op) then fail ErrDisbandNotLeader 0 c
         else if locked c then fail ErrInMatch 0 c
         else markOp REASON_DISBANDED (op_Caller op)
                (dissolve (c\<lparr>rc_rec := (rc_rec c)\<lparr>tr_members := []\<rparr>\<rparr>)))"

section \<open>Decisions\<close>

text \<open>The loop of \<open>finish\<close> over the old invites: each invitee at most once, in the old order.\<close>

fun removed_invitees :: "(u64 \<Rightarrow> bool) \<Rightarrow> u64 list \<Rightarrow> TeamInviteRecord list \<Rightarrow> u64 list" where
  "removed_invitees skip seen [] = []"
| "removed_invitees skip seen (v # vs) =
     (let i = ti_invitee_id v
      in if skip i \<or> i \<in> set seen then removed_invitees skip seen vs
         else i # removed_invitees skip (i # seen) vs)"

definition finish :: "ruleCtx \<Rightarrow> TeamRecord \<Rightarrow> Decision" where
  "finish c0 orig =
     (if rc_code c0 \<noteq> 0 then reject (rc_code c0) (rc_codeParam c0)
      else
        let d = decision_zero\<lparr>d_LeaderOfflineTransferred := rc_transferred c0,
                  d_RejectedApplicant := rc_rejected c0, d_InvitedPlayer := rc_invited c0\<rparr>;
            housekeeping = (rc_appsExpired c0 \<or> rc_invitesExpired c0 \<or> rc_transferred c0)
        in if \<not> rc_opChanged c0 \<and> \<not> housekeeping then d
           else
             let c = (if rc_disbanded c0 then c0
                      else c0\<lparr>rc_rec := (rc_rec c0)\<lparr>tr_members := sortMembers (tr_members (rc_rec c0))\<rparr>\<rparr>);
                 rec = rc_rec c;
                 (reason, actor) =
                   (if rc_opChanged c then (rc_reason c, rc_actor c)
                    else if rc_transferred c then (REASON_LEADER_OFFLINE_TRANSFERRED, tr_leader_id rec)
                    else if rc_appsExpired c then (REASON_APPLICATION_CHANGED, 0)
                    else (REASON_INVITE_CHANGED, 0));
                 oldMembers = memberSet orig;
                 newMembers = (if rc_disbanded c then (\<lambda>_. False) else memberSet rec);
                 addedSet = (\<lambda>i. i \<in> set (map fst (rc_added c)));
                 newInvitees = (\<lambda>i. i \<in> set (map ti_invitee_id (tr_invites rec)));
                 liveBefore = (\<lambda>i. list_ex (\<lambda>inv. ti_expire_at_ms inv > rc_now c \<and> ti_invitee_id inv = i) (tr_invites orig));
                 removed = removed_invitees (\<lambda>i. newInvitees i \<or> addedSet i) [] (tr_invites orig)
             in d\<lparr>d_Changed := True,
                  d_ExpiryOnly := \<not> rc_opChanged c \<and> \<not> rc_transferred c,
                  d_Reason := reason, d_Actor := actor,
                  d_Disbanded := rc_disbanded c,
                  d_RevokedInvitees := (if rc_disbanded c then rc_revoked c else []),
                  d_Record := (if rc_disbanded c then None else Some rec),
                  d_Kept := filter oldMembers (MemberIds rec),
                  d_Joined := filter (\<lambda>i. \<not> oldMembers i) (MemberIds rec),
                  d_Left := filter (\<lambda>i. \<not> newMembers i) (MemberIds orig) @
                            filter (\<lambda>i. \<not> newMembers i \<and> \<not> oldMembers i) (rc_extraLeft c),
                  d_InvitesAdded := rc_added c,
                  d_InvitesRemoved := removed,
                  d_InvitesExpired := filter (\<lambda>i. \<not> liveBefore i) removed\<rparr>)"

definition applyCreate :: "Op \<Rightarrow> TeamRecord option \<Rightarrow> u64 \<Rightarrow> Decision" where
  "applyCreate op rec nowMs =
     (if rec \<noteq> None \<or> op_NewTeamId op = 0 \<or> op_Caller op = 0 then reject ErrInternal 0
      else if op_CallerZone op = 0 then reject ErrHomeZoneUnknown 0
      else if op_CallerTeamId op \<noteq> 0 then reject ErrMemberInTeam 0
      else decision_zero\<lparr>d_Changed := True,
             d_Record := Some \<lparr>tr_team_id = op_NewTeamId op, tr_leader_id = op_Caller op,
               tr_zone_id = op_CallerZone op, tr_created_at_ms = nowMs,
               tr_members = [\<lparr>tm_player_id = op_Caller op, tm_zone_id = op_CallerZone op,
                              tm_joined_at_ms = nowMs, tm_join_seq = 1\<rparr>],
               tr_applications = [], tr_invites = [], tr_next_join_seq = 2,
               tr_match_lock_token = '''', tr_match_lock_expire_at_ms = 0, tr_match_lock_roster = []\<rparr>,
             d_Joined := [op_Caller op], d_Reason := REASON_CREATED, d_Actor := op_Caller op\<rparr>)"

definition run_op :: "OpKind \<Rightarrow> (ruleCtx \<Rightarrow> ruleCtx) option" where
  "run_op k = (case k of
       OpRefresh \<Rightarrow> Some (\<lambda>c. c)
     | OpApply \<Rightarrow> Some rc_apply
     | OpHandleApplication \<Rightarrow> Some rc_handleApplication
     | OpInvite \<Rightarrow> Some rc_invite
     | OpRespondInvite \<Rightarrow> Some rc_respondInvite
     | OpLeave \<Rightarrow> Some rc_leave
     | OpKick \<Rightarrow> Some rc_kick
     | OpTransferLeader \<Rightarrow> Some rc_transferLeader
     | OpDisband \<Rightarrow> Some rc_disband
     | _ \<Rightarrow> None)"

definition Apply :: "Op \<Rightarrow> TeamRecord option \<Rightarrow> u64 \<Rightarrow> Sessions \<Rightarrow> RuleConfig \<Rightarrow> Decision" where
  "Apply op rec nowMs sessions cfg =
     (if op_Kind op = OpCreate then applyCreate op rec nowMs
      else case rec of
        None \<Rightarrow> reject ErrNoTeam 0
      | Some r \<Rightarrow>
          (case run_op (op_Kind op) of
             None \<Rightarrow> reject ErrInternal 0
           | Some step \<Rightarrow> finish (step (ctx_transfer (ctx_prune (new_ctx op r nowMs sessions cfg)))) r))"

definition cfg_zero :: RuleConfig where "cfg_zero = \<lparr>AllowCrossZone = False\<rparr>"

text \<open>The loop of \<open>RepairRemoveMembers\<close>; the accumulator is the context and the actor.\<close>

fun repair_loop :: "u64 list \<Rightarrow> ruleCtx \<Rightarrow> u64 \<Rightarrow> ruleCtx \<times> u64" where
  "repair_loop [] c actor = (c, actor)"
| "repair_loop (pid # pids) c actor =
     (if pid = 0 \<or> FindMember (rc_rec c) pid = None then repair_loop pids c actor
      else
        let c' = removeMember pid c;
            c'' = c'\<lparr>rc_rec := (rc_rec c')\<lparr>tr_match_lock_roster := removeId (tr_match_lock_roster (rc_rec c')) pid\<rparr>\<rparr>
        in repair_loop pids c'' (if actor = 0 then pid else actor))"

definition RepairRemoveMembers :: "TeamRecord option \<Rightarrow> u64 list \<Rightarrow> u64 \<Rightarrow> Sessions \<Rightarrow> Decision" where
  "RepairRemoveMembers rec playerIds nowMs sessions =
     (case rec of
        None \<Rightarrow> reject ErrNoTeam 0
      | Some r \<Rightarrow>
          (case repair_loop playerIds (ctx_transfer (ctx_prune (new_ctx op_zero r nowMs sessions cfg_zero))) 0 of
             (c, actor) \<Rightarrow> finish (if actor \<noteq> 0 then markOp REASON_HEALED actor c else c) r))"

definition RepairRemoveMember :: "TeamRecord option \<Rightarrow> u64 \<Rightarrow> u64 \<Rightarrow> Sessions \<Rightarrow> Decision" where
  "RepairRemoveMember rec playerId nowMs sessions = RepairRemoveMembers rec [playerId] nowMs sessions"

section \<open>The match lock\<close>

definition CheckMatchStart :: "TeamRecord option \<Rightarrow> u64 \<Rightarrow> u64 \<Rightarrow> u32" where
  "CheckMatchStart rec caller nowMs =
     (case rec of
        None \<Rightarrow> ErrNoTeam
      | Some r \<Rightarrow>
          if caller = 0 \<or> tr_leader_id r \<noteq> caller then ErrNotLeader
          else if MatchLockActive rec nowMs then ErrInMatch
          else 0)"

definition CheckMatchTeamSize :: "TeamRecord \<Rightarrow> u32 \<Rightarrow> u32" where
  "CheckMatchTeamSize rec required =
     (if required = 0 then ErrDungeonNotOpen
      else if word_of_nat (length (tr_members rec)) > required then ErrSizeExceeded
      else 0)"

definition MatchRoster :: "TeamRecord \<Rightarrow> u64 list" where
  "MatchRoster rec =
     (let leader = tr_leader_id rec
      in (if FindMember rec leader \<noteq> None then [leader] else []) @
         filter (\<lambda>pid. pid \<noteq> leader) (MemberIds rec))"

text \<open>\<open>sameIdSet\<close> of \<open>store.go\<close>: a counting map built from \<open>a\<close> and consumed by \<open>b\<close>.\<close>

fun consume_ids :: "(u64 \<Rightarrow> nat) \<Rightarrow> u64 list \<Rightarrow> bool" where
  "consume_ids counts [] = True"
| "consume_ids counts (i # is) =
     (if counts i = 0 then False else consume_ids (counts(i := counts i - 1)) is)"

definition sameIdSet :: "u64 list \<Rightarrow> u64 list \<Rightarrow> bool" where
  "sameIdSet a b =
     (if length a \<noteq> length b then False
      else consume_ids (fold (\<lambda>i counts. counts(i := counts i + 1)) a (\<lambda>_. 0)) b)"

definition LockMatch ::
    "TeamRecord option \<Rightarrow> u64 \<Rightarrow> string \<Rightarrow> u64 list \<Rightarrow> u64 \<Rightarrow> u64 \<Rightarrow> Decision" where
  "LockMatch rec caller token roster expireAtMs nowMs =
     (let code = CheckMatchStart rec caller nowMs
      in if code \<noteq> 0 then reject code 0
         else if token = '''' \<or> expireAtMs \<le> nowMs then reject ErrInternal 0
         else case rec of
           None \<Rightarrow> reject ErrNoTeam 0
         | Some r \<Rightarrow>
             if \<not> sameIdSet roster (MemberIds r) then reject ErrStateChanged 0
             else
               let c = ctx_prune (new_ctx (op_zero\<lparr>op_Caller := caller\<rparr>) r nowMs Map.empty cfg_zero);
                   c' = c\<lparr>rc_rec := (rc_rec c)\<lparr>tr_match_lock_token := token,
                            tr_match_lock_expire_at_ms := expireAtMs, tr_match_lock_roster := roster\<rparr>\<rparr>
               in finish (markOp REASON_MATCH_STARTED caller c') r)"

definition ReleaseMatchLock ::
    "TeamRecord option \<Rightarrow> string \<Rightarrow> bool \<Rightarrow> u64 \<Rightarrow> Sessions \<Rightarrow> Decision" where
  "ReleaseMatchLock rec token ok nowMs sessions =
     (case rec of
        None \<Rightarrow> decision_zero
      | Some r \<Rightarrow>
          if token = '''' \<or> tr_match_lock_token r \<noteq> token \<or> \<not> MatchLockActive rec nowMs then decision_zero
          else
            let c = ctx_transfer (ctx_prune (new_ctx op_zero r nowMs sessions cfg_zero));
                c' = c\<lparr>rc_rec := (rc_rec c)\<lparr>tr_match_lock_token := '''', tr_match_lock_expire_at_ms := 0,
                         tr_match_lock_roster := []\<rparr>\<rparr>
            in finish (markOp (if ok then REASON_MATCH_ENDED else REASON_MATCH_FAILED) 0 c') r)"

end
