(* ===== verification/TeamInvariant.thy ===== *)
theory TeamInvariant
  imports TeamRules
begin

text \<open>
  The invariant of a team record, that every rule of \<open>rules.go\<close> keeps it, and what the
  resulting \<open>Decision\<close> promises to the commit.
\<close>

section \<open>Well-formed records\<close>

abbreviation member_ids :: "TeamRecord \<Rightarrow> u64 list" where
  "member_ids r \<equiv> map tm_player_id (tr_members r)"

abbreviation applicant_ids :: "TeamRecord \<Rightarrow> u64 list" where
  "applicant_ids r \<equiv> map ta_player_id (tr_applications r)"

abbreviation invitee_ids :: "TeamRecord \<Rightarrow> u64 list" where
  "invitee_ids r \<equiv> map ti_invitee_id (tr_invites r)"

text \<open>Members: at most five, distinct, in strictly increasing order of \<open>join_seq\<close>, all below the
  next number to hand out.\<close>

definition members_ok :: "TeamRecord \<Rightarrow> bool" where
  "members_ok r \<longleftrightarrow>
     length (tr_members r) \<le> Capacity \<and> distinct (member_ids r) \<and> 0 \<notin> set (member_ids r) \<and>
     sorted_wrt (<) (map tm_join_seq (tr_members r)) \<and>
     list_all (\<lambda>m. tm_join_seq m < tr_next_join_seq r) (tr_members r)"

text \<open>Applications and invites: at most ten each, one per player, never from or to a member.\<close>

definition pending_ok :: "TeamRecord \<Rightarrow> bool" where
  "pending_ok r \<longleftrightarrow>
     length (tr_applications r) \<le> MaxApplications \<and> distinct (applicant_ids r) \<and> 0 \<notin> set (applicant_ids r) \<and>
     set (applicant_ids r) \<inter> set (member_ids r) = {} \<and>
     length (tr_invites r) \<le> MaxInvitesPerTeam \<and> distinct (invitee_ids r) \<and> 0 \<notin> set (invitee_ids r) \<and>
     set (invitee_ids r) \<inter> set (member_ids r) = {}"

definition team_wf :: "TeamRecord \<Rightarrow> bool" where
  "team_wf r \<longleftrightarrow> tr_team_id r \<noteq> 0 \<and> tr_members r \<noteq> [] \<and> tr_leader_id r \<in> set (member_ids r) \<and>
     members_ok r \<and> pending_ok r"

lemmas team_wf_defs = team_wf_def members_ok_def pending_ok_def

section \<open>Sorting\<close>

lemma set_sortMembers [simp]: "set (sortMembers ms) = set ms"
  by (simp add: sortMembers_def)

lemma mset_sortMembers [simp]: "mset (sortMembers ms) = mset ms"
  by (simp add: sortMembers_def)

lemma sortMembers_id: "sorted_wrt (<) (map tm_join_seq ms) \<Longrightarrow> sortMembers ms = ms"
  unfolding sortMembers_def
proof (rule sort_key_id_if_sorted)
  assume "sorted_wrt (<) (map tm_join_seq ms)"
  then have "sorted_wrt (\<lambda>a b. tm_join_seq a < tm_join_seq b) ms" by (simp add: sorted_wrt_map)
  then have "sorted_wrt (\<lambda>a b. (tm_join_seq a, tm_player_id a) \<le> (tm_join_seq b, tm_player_id b)) ms"
    by (rule sorted_wrt_mono_rel [rotated]) auto
  then show "sorted (map (\<lambda>m. (tm_join_seq m, tm_player_id m)) ms)" by (simp add: sorted_map)
qed

lemma mset_MemberIds: "mset (MemberIds r) = mset (member_ids r)"
  by (simp add: MemberIds_def)

lemma set_MemberIds [simp]: "set (MemberIds r) = set (member_ids r)"
  by (simp add: MemberIds_def)

lemma distinct_MemberIds [simp]: "distinct (MemberIds r) = distinct (member_ids r)"
  by (metis mset_MemberIds mset_eq_imp_distinct_iff)

lemma FindMember_None [simp]: "FindMember r p = None \<longleftrightarrow> p \<notin> set (member_ids r)"
  by (auto simp: FindMember_def find_key_None)

lemma memberSet_iff [simp]: "memberSet r p \<longleftrightarrow> p \<in> set (member_ids r)"
  by (simp add: memberSet_def)

section \<open>Eviction\<close>

text \<open>\<open>older idf timef a b\<close>: \<open>a\<close> is not younger than \<open>b\<close> in the order of the scan.\<close>

abbreviation older :: "('a \<Rightarrow> u64) \<Rightarrow> ('a \<Rightarrow> u64) \<Rightarrow> 'a \<Rightarrow> 'a \<Rightarrow> bool" where
  "older idf timef a b \<equiv> (timef a, idf a) \<le> (timef b, idf b)"

lemma oldest_scan_None:
  "oldest_scan idf timef keep xs i acc = None \<longleftrightarrow> acc = None \<and> (\<forall>x \<in> set xs. idf x = keep)"
  by (induction xs arbitrary: i acc) (auto split: option.splits)

lemma oldest_scan_least:
  assumes "oldest_scan idf timef keep xs i acc = Some (k, a)"
  shows "(\<forall>x \<in> set xs. idf x \<noteq> keep \<longrightarrow> older idf timef a x) \<and>
         (\<forall>j b. acc = Some (j, b) \<longrightarrow> older idf timef a b)"
  using assms
proof (induction xs arbitrary: i acc)
  case (Cons x xs)
  let ?acc = "if idf x = keep then acc
        else case acc of None \<Rightarrow> Some (i, x)
        | Some (j, b) \<Rightarrow> if timef x < timef b \<or> timef x = timef b \<and> idf x < idf b then Some (i, x) else Some (j, b)"
  have IH: "\<forall>y \<in> set xs. idf y \<noteq> keep \<longrightarrow> older idf timef a y"
      "\<And>j b. ?acc = Some (j, b) \<Longrightarrow> older idf timef a b"
    using Cons.IH [of "Suc i" ?acc] Cons.prems by auto
  have new: "older idf timef a x" if "idf x \<noteq> keep"
  proof (cases acc)
    case None
    then show ?thesis using IH(2) [of i x] that by simp
  next
    case (Some p)
    obtain j b where p: "p = (j, b)" by fastforce
    show ?thesis
    proof (cases "timef x < timef b \<or> timef x = timef b \<and> idf x < idf b")
      case True
      then show ?thesis using IH(2) [of i x] that Some p by simp
    next
      case False
      then have "?acc = Some (j, b)" using that Some p by auto
      then have "older idf timef a b" by (rule IH(2))
      moreover have "older idf timef b x" using False by (auto simp: less_eq_prod_def not_less)
      ultimately show ?thesis by (rule order_trans)
    qed
  qed
  have old: "older idf timef a b" if "acc = Some (j, b)" for j b
  proof (cases "idf x \<noteq> keep \<and> (timef x < timef b \<or> timef x = timef b \<and> idf x < idf b)")
    case True
    then have "older idf timef x b" by (auto simp: less_eq_prod_def)
    with new True show ?thesis by (meson order_trans)
  next
    case False
    then show ?thesis using IH(2) [of j b] that by auto
  qed
  show ?case using IH(1) new old by auto
qed simp

lemma drop_nth_mset: "k < length xs \<Longrightarrow> add_mset (xs ! k) (mset (take k xs @ drop (k + 1) xs)) = mset xs"
  by (metis Suc_eq_plus1 add_mset_add_single append_take_drop_id Cons_nth_drop_Suc mset.simps(2) mset_append union_mset_add_mset_right)

text \<open>What eviction keeps and what it drops.\<close>

lemma evict_oldest_spec:
  "\<exists>dropped. mset xs = mset (evict_oldest idf timef cap keep xs) + dropped \<and>
     (\<forall>a \<in># dropped. idf a \<noteq> keep \<and>
        (\<forall>b \<in> set (evict_oldest idf timef cap keep xs). idf b \<noteq> keep \<longrightarrow> older idf timef a b)) \<and>
     (length xs \<le> cap \<longrightarrow> dropped = {#}) \<and>
     (length (evict_oldest idf timef cap keep xs) \<le> cap \<or>
        (\<forall>b \<in> set (evict_oldest idf timef cap keep xs). idf b = keep))"
proof (induction idf timef cap keep xs rule: evict_oldest.induct)
  case (1 idf timef cap keep xs)
  show ?case
  proof (cases "length xs > cap")
    case False
    then show ?thesis by (simp add: evict_oldest.simps)
  next
    case big: True
    show ?thesis
    proof (cases "oldest_scan idf timef keep xs 0 None")
      case None
      then have "evict_oldest idf timef cap keep xs = xs" by (simp add: evict_oldest.simps)
      then show ?thesis using big None by (auto simp: oldest_scan_None)
    next
      case (Some p)
      obtain k a where p: "p = (k, a)" by fastforce
      let ?ys = "take k xs @ drop (k + 1) xs"
      have k: "k < length xs" "xs ! k = a" "idf a \<noteq> keep"
        using oldest_scan_index [of idf timef keep xs 0 None k a] Some p by auto
      have least: "\<forall>x \<in> set xs. idf x \<noteq> keep \<longrightarrow> older idf timef a x"
        using oldest_scan_least [of idf timef keep xs 0 None k a] Some p by simp
      have eq: "evict_oldest idf timef cap keep xs = evict_oldest idf timef cap keep ?ys"
        using big Some p by (simp add: evict_oldest.simps)
      obtain dropped where IH: "mset ?ys = mset (evict_oldest idf timef cap keep ?ys) + dropped"
        "\<forall>c \<in># dropped. idf c \<noteq> keep \<and>
           (\<forall>b \<in> set (evict_oldest idf timef cap keep ?ys). idf b \<noteq> keep \<longrightarrow> older idf timef c b)"
        "length (evict_oldest idf timef cap keep ?ys) \<le> cap \<or>
           (\<forall>b \<in> set (evict_oldest idf timef cap keep ?ys). idf b = keep)"
        using "1.IH" [OF big Some p [symmetric]] by blast
      have "mset xs = add_mset a (mset ?ys)" using drop_nth_mset [OF k(1)] k(2) by simp
      then have all: "mset xs = mset (evict_oldest idf timef cap keep ?ys) + add_mset a dropped"
        using IH(1) by simp
      then have "set (evict_oldest idf timef cap keep ?ys) \<subseteq> set xs"
        by (metis set_mset_mset set_mset_union sup_ge1)
      then show ?thesis
        using all IH(2,3) least k(3) big
        by (intro exI [of _ "add_mset a dropped"]) (auto simp: eq)
    qed
  qed
qed

lemma evict_oldest_keeps:
  assumes "distinct (map idf xs)" and "0 < cap"
  shows "distinct (map idf (evict_oldest idf timef cap keep xs))"
    and "set (evict_oldest idf timef cap keep xs) \<subseteq> set xs"
    and "length (evict_oldest idf timef cap keep xs) \<le> cap"
    and "x \<in> set xs \<Longrightarrow> idf x = keep \<Longrightarrow> x \<in> set (evict_oldest idf timef cap keep xs)"
proof -
  let ?r = "evict_oldest idf timef cap keep xs"
  obtain dropped where d: "mset xs = mset ?r + dropped" "\<forall>a \<in># dropped. idf a \<noteq> keep"
    "length ?r \<le> cap \<or> (\<forall>b \<in> set ?r. idf b = keep)"
    using evict_oldest_spec [of xs idf timef cap keep] by blast
  have "mset (map idf xs) = mset (map idf ?r) + image_mset idf dropped" using d(1) by simp
  then show dist: "distinct (map idf ?r)"
    by (metis assms(1) distinct_append ex_mset mset_append mset_eq_imp_distinct_iff)
  have s: "set xs = set ?r \<union> set_mset dropped" using d(1) by (metis set_mset_mset set_mset_union)
  then show "set ?r \<subseteq> set xs" by simp
  show "x \<in> set xs \<Longrightarrow> idf x = keep \<Longrightarrow> x \<in> set ?r" using s d(2) by auto
  have "length ?r \<le> 1" if "\<forall>b \<in> set ?r. idf b = keep"
  proof -
    have "set (map idf ?r) \<subseteq> {keep}" using that by auto
    then have "card (set (map idf ?r)) \<le> 1" by (metis card_mono card.empty card_insert_disjoint empty_iff finite.emptyI finite_insert One_nat_def)
    then show ?thesis using distinct_card [OF dist] by simp
  qed
  then show "length ?r \<le> cap" using d(3) assms(2) by fastforce
qed

section \<open>Records under the single steps\<close>

lemma pruneExpired_fields:
  "pruneExpired r now = (r', a, i) \<Longrightarrow>
     r' = r\<lparr>tr_applications := filter (\<lambda>a. ta_expire_at_ms a > now) (tr_applications r),
             tr_invites := filter (\<lambda>i. ti_expire_at_ms i > now) (tr_invites r)\<rparr>"
  by (auto simp: pruneExpired_def Let_def)

lemma pending_ok_mono:
  assumes "pending_ok r" and "tr_members r' = tr_members r"
    and "tr_applications r' = filter P (tr_applications r)" and "tr_invites r' = filter Q (tr_invites r)"
  shows "pending_ok r'"
  using assms by (auto simp: pending_ok_def intro: length_filter_le_trans)

lemma pruneExpired_wf: "team_wf r \<Longrightarrow> team_wf (fst (pruneExpired r now))"
  using pending_ok_mono [of r "fst (pruneExpired r now)"]
  by (auto simp: team_wf_def members_ok_def pruneExpired_def Let_def)

lemma pickLeader_cases:
  obtains (online) m where "m \<in> set ms" "pickLeader ms s b = tm_player_id m" "session_of s (tm_player_id m) = SessionOnline"
    | (none) "pickLeader ms s b = 0" "b \<or> ms = []"
    | (first) m where "m \<in> set ms" "pickLeader ms s b = tm_player_id m" "\<not> b"
proof (cases "List.find (\<lambda>m. session_of s (tm_player_id m) = SessionOnline) (sortMembers ms)")
  case (Some m)
  then show ?thesis using find_mem [OF Some] by (intro online [of m]) (auto simp: pickLeader_def Let_def)
next
  case None
  then have eq: "pickLeader ms s b = (if b then 0 else case sortMembers ms of [] \<Rightarrow> 0 | m # _ \<Rightarrow> tm_player_id m)"
    by (simp only: pickLeader_def Let_def option.case)
  show ?thesis
  proof (cases "sortMembers ms")
    case Nil
    have "ms = []" using set_sortMembers [of ms] Nil by simp
    then show ?thesis using eq Nil by (intro none) simp_all
  next
    case (Cons m xs)
    have "m \<in> set ms" using set_sortMembers [of ms] Cons by auto
    show ?thesis
    proof (cases b)
      case True
      then show ?thesis using eq by (intro none) simp_all
    next
      case False
      then show ?thesis using eq Cons \<open>m \<in> set ms\<close> by (intro first [of m]) simp_all
    qed
  qed
qed

text \<open>The lazy transfer: nothing, or the absent leader hands over to an online member.\<close>

lemma lazyTransferLeader_cases:
  assumes "lazyTransferLeader r s = (r', t)"
  obtains (same) "r' = r" "\<not> t"
    | (moved) p where "t" "p \<in> set (member_ids r)" "p \<noteq> tr_leader_id r" "session_of s p = SessionOnline"
        "session_of s (tr_leader_id r) = SessionAbsent" "r' = r\<lparr>tr_leader_id := p\<rparr>"
proof -
  define others where "others = filter (\<lambda>m. tm_player_id m \<noteq> tr_leader_id r) (tr_members r)"
  define p where "p = pickLeader others s True"
  have def': "lazyTransferLeader r s =
      (if FindMember r (tr_leader_id r) = None \<or> session_of s (tr_leader_id r) \<noteq> SessionAbsent \<or> p = 0
       then (r, False) else (r\<lparr>tr_leader_id := p\<rparr>, True))"
    by (simp add: lazyTransferLeader_def Let_def others_def p_def)
  show ?thesis
  proof (cases "FindMember r (tr_leader_id r) = None \<or> session_of s (tr_leader_id r) \<noteq> SessionAbsent \<or> p = 0")
    case True
    then show ?thesis using assms def' by (intro same) simp_all
  next
    case False
    then have "p \<in> tm_player_id ` set others \<and> session_of s p = SessionOnline"
      unfolding p_def by (cases rule: pickLeader_cases [of others s True]) auto
    with False show ?thesis using assms def' by (intro moved [of p]) (auto simp: others_def)
  qed
qed

lemma lazyTransferLeader_wf: "team_wf r \<Longrightarrow> lazyTransferLeader r s = (r', t) \<Longrightarrow> team_wf r'"
  by (erule lazyTransferLeader_cases) (auto simp: team_wf_defs)

lemma join_seq_for_ok: "members_ok r \<Longrightarrow> tr_members r \<noteq> [] \<Longrightarrow> join_seq_for r = tr_next_join_seq r"
proof -
  assume ok: "members_ok r" and ne: "tr_members r \<noteq> []"
  have seq: "fold (\<lambda>m seq. if tm_join_seq m \<ge> seq then tm_join_seq m + 1 else seq) ms n = n"
    if "list_all (\<lambda>m. tm_join_seq m < n) ms" for ms n
    using that by (induction ms) (auto simp: not_le)
  have "tr_next_join_seq r \<noteq> 0"
    using ok ne by (cases "tr_members r") (auto simp: members_ok_def)
  then show ?thesis
    using ok seq [of "tr_next_join_seq r" "tr_members r"] by (simp add: join_seq_for_def members_ok_def)
qed

lemma members_ok_filter:
  assumes "members_ok r"
  shows "members_ok (r\<lparr>tr_members := filter P (tr_members r)\<rparr>)"
proof -
  have "sorted_wrt (<) (map tm_join_seq (filter P (tr_members r)))"
    using assms by (simp add: members_ok_def sorted_wrt_map sorted_wrt_filter)
  then show ?thesis
    using assms by (auto simp: members_ok_def list_all_iff intro: length_filter_le_trans)
qed

lemma remove_wf:
  assumes "team_wf r" and "filter (\<lambda>m. tm_player_id m \<noteq> p) (tr_members r) \<noteq> []"
    and "l \<in> set (member_ids r)" and "l \<noteq> p"
  shows "team_wf (r\<lparr>tr_leader_id := l, tr_members := filter (\<lambda>m. tm_player_id m \<noteq> p) (tr_members r)\<rparr>)"
proof -
  have "members_ok (r\<lparr>tr_members := filter (\<lambda>m. tm_player_id m \<noteq> p) (tr_members r)\<rparr>)"
    using assms(1) by (intro members_ok_filter) (simp add: team_wf_def)
  then show ?thesis
    using assms by (auto simp: team_wf_defs)
qed

lemma removeMember_cases:
  assumes "team_wf (rc_rec c)"
  obtains (gone) "filter (\<lambda>m. tm_player_id m \<noteq> p) (tr_members (rc_rec c)) = []"
      "removeMember p c = dissolve (c\<lparr>rc_rec := (rc_rec c)\<lparr>tr_members := []\<rparr>\<rparr>)"
    | (left) l where "removeMember p c = c\<lparr>rc_rec := (rc_rec c)\<lparr>tr_leader_id := l,
          tr_members := filter (\<lambda>m. tm_player_id m \<noteq> p) (tr_members (rc_rec c))\<rparr>\<rparr>"
        "l \<in> set (member_ids (rc_rec c))" "l \<noteq> p"
        "tr_leader_id (rc_rec c) \<noteq> p \<Longrightarrow> l = tr_leader_id (rc_rec c)"
        "filter (\<lambda>m. tm_player_id m \<noteq> p) (tr_members (rc_rec c)) \<noteq> []"
proof -
  define kept where "kept = filter (\<lambda>m. tm_player_id m \<noteq> p) (tr_members (rc_rec c))"
  define l where "l = (if tr_leader_id (rc_rec c) = p then pickLeader kept (rc_sessions c) False else tr_leader_id (rc_rec c))"
  show ?thesis
  proof (cases "kept = []")
    case True
    then show ?thesis by (intro gone) (simp_all add: removeMember_def kept_def [symmetric] Let_def)
  next
    case False
    then have "pickLeader kept (rc_sessions c) False \<in> tm_player_id ` set kept"
      by (cases rule: pickLeader_cases [of kept "rc_sessions c" False]) auto
    then have "l \<in> set (member_ids (rc_rec c))" "l \<noteq> p"
      using assms by (auto simp: l_def kept_def team_wf_def)
    moreover have "removeMember p c = c\<lparr>rc_rec := (rc_rec c)\<lparr>tr_leader_id := l, tr_members := kept\<rparr>\<rparr>"
      using False by (simp add: removeMember_def kept_def [symmetric] Let_def l_def)
    ultimately show ?thesis
      using False by (intro left [of l]) (simp_all add: kept_def l_def)
  qed
qed

lemma addMember_rec:
  assumes "team_wf (rc_rec c)"
  shows "addMember p z c = c\<lparr>rc_rec := (rc_rec c)\<lparr>
      tr_members := tr_members (rc_rec c) @
        [\<lparr>tm_player_id = p, tm_zone_id = z, tm_joined_at_ms = rc_now c, tm_join_seq = tr_next_join_seq (rc_rec c)\<rparr>],
      tr_next_join_seq := tr_next_join_seq (rc_rec c) + 1,
      tr_applications := filter (\<lambda>a. ta_player_id a \<noteq> p) (tr_applications (rc_rec c)),
      tr_invites := filter (\<lambda>i. ti_invitee_id i \<noteq> p) (tr_invites (rc_rec c))\<rparr>\<rparr>"
proof -
  let ?m = "\<lparr>tm_player_id = p, tm_zone_id = z, tm_joined_at_ms = rc_now c, tm_join_seq = tr_next_join_seq (rc_rec c)\<rparr>"
  have seq: "join_seq_for (rc_rec c) = tr_next_join_seq (rc_rec c)"
    using assms by (intro join_seq_for_ok) (auto simp: team_wf_def)
  have "sorted_wrt (<) (map tm_join_seq (tr_members (rc_rec c) @ [?m]))"
    using assms by (auto simp: team_wf_defs sorted_wrt_append list_all_iff)
  then have "sortMembers (tr_members (rc_rec c) @ [?m]) = tr_members (rc_rec c) @ [?m]"
    by (rule sortMembers_id)
  then show ?thesis
    by (simp add: addMember_def Let_def seq removeApplication_def removeInvite_def)
qed

lemma addMember_wf:
  assumes "team_wf (rc_rec c)" and "\<not> full c" and "p \<notin> set (member_ids (rc_rec c))" and "p \<noteq> 0"
    and "tr_next_join_seq (rc_rec c) \<noteq> - 1"
  shows "team_wf (rc_rec (addMember p z c))"
proof -
  let ?r = "rc_rec c"
  have n: "tr_next_join_seq ?r < tr_next_join_seq ?r + 1"
    using assms(5) by (rule word_less_inc)
  then have "\<forall>m \<in> set (tr_members ?r). tm_join_seq m < tr_next_join_seq ?r + 1"
    using assms(1) by (auto simp: team_wf_defs list_all_iff intro: order.strict_trans)
  then show ?thesis
    using assms n
    by (auto simp: addMember_rec team_wf_defs sorted_wrt_append list_all_iff full_def
        intro: length_filter_le_trans)
qed

section \<open>Contexts\<close>

text \<open>A context before its operation, and after it.\<close>

definition ctx_base :: "ruleCtx \<Rightarrow> bool" where
  "ctx_base c \<longleftrightarrow> team_wf (rc_rec c) \<and> \<not> rc_disbanded c \<and> rc_added c = [] \<and> rc_extraLeft c = [] \<and>
     rc_revoked c = [] \<and> rc_code c = 0 \<and> \<not> rc_opChanged c"

definition ctx_fresh :: "ruleCtx \<Rightarrow> bool" where
  "ctx_fresh c \<longleftrightarrow> ctx_base c \<and> op_Caller (rc_op c) \<noteq> 0 \<and> tr_next_join_seq (rc_rec c) \<noteq> - 1"

definition ctx_ok :: "u64 \<Rightarrow> ruleCtx \<Rightarrow> bool" where
  "ctx_ok tid c \<longleftrightarrow>
     tr_team_id (rc_rec c) = tid \<and>
     (rc_disbanded c \<longrightarrow>
        tr_members (rc_rec c) = [] \<and> tr_invites (rc_rec c) = [] \<and> rc_added c = []) \<and>
     (\<not> rc_disbanded c \<longrightarrow> team_wf (rc_rec c)) \<and>
     distinct (map fst (rc_added c)) \<and> set (map fst (rc_added c)) \<subseteq> set (invitee_ids (rc_rec c)) \<and>
     distinct (rc_extraLeft c) \<and> 0 \<notin> set (rc_extraLeft c)"

lemma fail_simps [simp]:
  "rc_rec (fail k p c) = rc_rec c" "rc_disbanded (fail k p c) = rc_disbanded c"
  "rc_added (fail k p c) = rc_added c" "rc_extraLeft (fail k p c) = rc_extraLeft c"
  "rc_opChanged (fail k p c) = rc_opChanged c" "rc_now (fail k p c) = rc_now c"
  "rc_revoked (fail k p c) = rc_revoked c" "rc_transferred (fail k p c) = rc_transferred c"
  "rc_sessions (fail k p c) = rc_sessions c"
  by (simp_all add: fail_def)

lemma markOp_simps [simp]:
  "rc_rec (markOp k p c) = rc_rec c" "rc_disbanded (markOp k p c) = rc_disbanded c"
  "rc_added (markOp k p c) = rc_added c" "rc_extraLeft (markOp k p c) = rc_extraLeft c"
  "rc_opChanged (markOp k p c)" "rc_now (markOp k p c) = rc_now c" "rc_code (markOp k p c) = rc_code c"
  "rc_revoked (markOp k p c) = rc_revoked c" "rc_transferred (markOp k p c) = rc_transferred c"
  "rc_reason (markOp k p c) = k" "rc_actor (markOp k p c) = p" "rc_sessions (markOp k p c) = rc_sessions c"
  by (simp_all add: markOp_def)

lemma zoneCheck_Some: "zoneCheck z c = Some c' \<Longrightarrow> c' = fail ErrHomeZoneUnknown 0 c \<or> c' = fail ErrCrossZoneDenied 0 c"
  by (auto simp: zoneCheck_def split: if_splits)

lemma ctx_fresh_ok: "ctx_fresh c \<Longrightarrow> ctx_ok (tr_team_id (rc_rec c)) c"
  by (simp add: ctx_fresh_def ctx_base_def ctx_ok_def)

lemma ctx_ok_fail: "ctx_ok t c \<Longrightarrow> ctx_ok t (fail k p c)"
  by (simp add: ctx_ok_def)

lemma ctx_ok_zoneCheck: "ctx_ok t c \<Longrightarrow> zoneCheck z c = Some c' \<Longrightarrow> ctx_ok t c'"
  using zoneCheck_Some ctx_ok_fail by blast

lemma ctx_ok_markOp: "ctx_ok t c \<Longrightarrow> ctx_ok t (markOp k p c)"
  by (simp add: ctx_ok_def)

text \<open>Replacing only the pending lists of a fresh context.\<close>

lemma ctx_ok_pending:
  assumes "ctx_fresh c" and "tr_members r = tr_members (rc_rec c)" and "tr_leader_id r = tr_leader_id (rc_rec c)"
    and "tr_team_id r = tr_team_id (rc_rec c)" and "tr_next_join_seq r = tr_next_join_seq (rc_rec c)"
    and "pending_ok r"
  shows "ctx_ok (tr_team_id (rc_rec c)) (c\<lparr>rc_rec := r\<rparr>)"
  using assms by (auto simp: ctx_fresh_def ctx_base_def ctx_ok_def team_wf_def members_ok_def)

lemma ctx_ok_removeMember_base:
  assumes "ctx_base c"
  shows "ctx_ok (tr_team_id (rc_rec c)) (removeMember p c)"
proof -
  have wf: "team_wf (rc_rec c)" using assms by (simp add: ctx_base_def)
  then show ?thesis
  proof (cases rule: removeMember_cases [where p = p])
    case gone
    then show ?thesis using assms by (simp add: dissolve_def ctx_ok_def ctx_base_def)
  next
    case (left l)
    then show ?thesis
      using assms remove_wf [OF wf left(5,2,3)] by (simp add: ctx_ok_def ctx_base_def)
  qed
qed

lemma ctx_ok_removeMember:
  "ctx_fresh c \<Longrightarrow> ctx_ok (tr_team_id (rc_rec c)) (markOp k a (removeMember p c))"
  by (intro ctx_ok_markOp ctx_ok_removeMember_base) (simp add: ctx_fresh_def)

lemma ctx_ok_addMember:
  assumes "ctx_fresh c" and "\<not> full c" and "p \<notin> set (member_ids (rc_rec c))" and "p \<noteq> 0"
  shows "ctx_ok (tr_team_id (rc_rec c)) (addMember p z c)"
proof -
  have wf: "team_wf (rc_rec c)" using assms(1) by (simp add: ctx_fresh_def ctx_base_def)
  have "team_wf (rc_rec (addMember p z c))"
    using assms by (intro addMember_wf) (simp_all add: ctx_fresh_def ctx_base_def)
  then show ?thesis
    using assms(1) by (simp add: addMember_rec [OF wf] ctx_ok_def ctx_fresh_def ctx_base_def)
qed

section \<open>Every operation keeps the invariant\<close>

lemma find_mem_ids:
  "findApplication r p = Some a \<Longrightarrow> p \<in> set (applicant_ids r)"
  "findInvite r p = Some i \<Longrightarrow> p \<in> set (invitee_ids r)"
  "findApplication r p = None \<longleftrightarrow> p \<notin> set (applicant_ids r)"
  "findInvite r p = None \<longleftrightarrow> p \<notin> set (invitee_ids r)"
  by (auto simp: findApplication_def findInvite_def find_key_None dest: find_key_Some)

lemma pending_nonzero:
  "pending_ok r \<Longrightarrow> findApplication r p = Some a \<Longrightarrow> p \<noteq> 0"
  "pending_ok r \<Longrightarrow> findInvite r p = Some i \<Longrightarrow> p \<noteq> 0"
  by (auto simp: pending_ok_def dest!: find_mem_ids(1,2))

lemma evict_fields [simp]:
  "tr_members (evictOldestApplications r p) = tr_members r"
  "tr_leader_id (evictOldestApplications r p) = tr_leader_id r"
  "tr_team_id (evictOldestApplications r p) = tr_team_id r"
  "tr_next_join_seq (evictOldestApplications r p) = tr_next_join_seq r"
  "tr_members (evictOldestInvites r p) = tr_members r"
  "tr_leader_id (evictOldestInvites r p) = tr_leader_id r"
  "tr_team_id (evictOldestInvites r p) = tr_team_id r"
  "tr_next_join_seq (evictOldestInvites r p) = tr_next_join_seq r"
  by (simp_all add: evictOldestApplications_def evictOldestInvites_def)

text \<open>New pending lists that name at most one more player, who is not a member.\<close>

lemma pending_ok_apps:
  assumes "pending_ok r" and "p \<noteq> 0" and "p \<notin> set (member_ids r)"
    and "distinct (map ta_player_id as)" and "length as \<le> MaxApplications"
    and "set (map ta_player_id as) \<subseteq> insert p (set (applicant_ids r))"
  shows "pending_ok (r\<lparr>tr_applications := as\<rparr>)"
proof -
  have "0 \<notin> set (map ta_player_id as)" "set (map ta_player_id as) \<inter> set (member_ids r) = {}"
    using assms(1-3,6) unfolding pending_ok_def by blast+
  then show ?thesis using assms(1,4,5) by (simp add: pending_ok_def)
qed

lemma pending_ok_invites:
  assumes "pending_ok r" and "p \<noteq> 0" and "p \<notin> set (member_ids r)"
    and "distinct (map ti_invitee_id is)" and "length is \<le> MaxInvitesPerTeam"
    and "set (map ti_invitee_id is) \<subseteq> insert p (set (invitee_ids r))"
  shows "pending_ok (r\<lparr>tr_invites := is\<rparr>)"
proof -
  have "0 \<notin> set (map ti_invitee_id is)" "set (map ti_invitee_id is) \<inter> set (member_ids r) = {}"
    using assms(1-3,6) unfolding pending_ok_def by blast+
  then show ?thesis using assms(1,4,5) by (simp add: pending_ok_def)
qed

text \<open>Appending one entry and evicting down to the cap.\<close>

lemma append_evict:
  assumes "distinct (map idf xs)" and "idf a = p" and "p \<notin> set (map idf xs)" and "0 < cap"
  shows "distinct (map idf (evict_oldest idf timef cap p (xs @ [a])))"
    and "length (evict_oldest idf timef cap p (xs @ [a])) \<le> cap"
    and "set (map idf (evict_oldest idf timef cap p (xs @ [a]))) \<subseteq> insert p (set (map idf xs))"
    and "p \<in> set (map idf (evict_oldest idf timef cap p (xs @ [a])))"
proof -
  have d: "distinct (map idf (xs @ [a]))" using assms by auto
  note k = evict_oldest_keeps [OF d assms(4), where timef = timef and keep = p]
  show "distinct (map idf (evict_oldest idf timef cap p (xs @ [a])))"
    "length (evict_oldest idf timef cap p (xs @ [a])) \<le> cap"
    by (rule k(1), rule k(3))
  show "set (map idf (evict_oldest idf timef cap p (xs @ [a]))) \<subseteq> insert p (set (map idf xs))"
    using k(2) assms(2) by auto
  have "a \<in> set (evict_oldest idf timef cap p (xs @ [a]))" using k(4) [of a] assms(2) by simp
  then show "p \<in> set (map idf (evict_oldest idf timef cap p (xs @ [a])))" using assms(2) by auto
qed

lemma pending_ok_new_app:
  assumes "pending_ok r" and "ta_player_id a = p" and "p \<noteq> 0" and "p \<notin> set (member_ids r)"
    and "p \<notin> set (applicant_ids r)"
  shows "pending_ok (evictOldestApplications (r\<lparr>tr_applications := tr_applications r @ [a]\<rparr>) p)"
proof -
  have d: "distinct (applicant_ids r)" "0 < MaxApplications"
    using assms(1) by (simp_all add: pending_ok_def MaxApplications_def)
  note e = append_evict [OF d(1) assms(2,5) d(2), where timef = ta_applied_at_ms]
  show ?thesis
    using pending_ok_apps [OF assms(1,3,4) e(1-3)] by (simp add: evictOldestApplications_def)
qed

lemma pending_ok_new_invite:
  assumes "pending_ok r" and "ti_invitee_id a = p" and "p \<noteq> 0" and "p \<notin> set (member_ids r)"
    and "p \<notin> set (invitee_ids r)"
  shows "pending_ok (evictOldestInvites (r\<lparr>tr_invites := tr_invites r @ [a]\<rparr>) p) \<and>
    p \<in> set (invitee_ids (evictOldestInvites (r\<lparr>tr_invites := tr_invites r @ [a]\<rparr>) p))"
proof -
  have d: "distinct (invitee_ids r)" "0 < MaxInvitesPerTeam"
    using assms(1) by (simp_all add: pending_ok_def MaxInvitesPerTeam_def)
  note e = append_evict [OF d(1) assms(2,5) d(2), where timef = ti_invited_at_ms]
  show ?thesis
    using pending_ok_invites [OF assms(1,3,4) e(1-3)] e(4) by (simp add: evictOldestInvites_def)
qed

lemma rc_apply_ok:
  assumes "ctx_fresh c"
  shows "ctx_ok (tr_team_id (rc_rec c)) (rc_apply c)"
proof -
  let ?p = "op_Caller (rc_op c)" and ?z = "op_CallerZone (rc_op c)" and ?r = "rc_rec c"
  have pend: "pending_ok ?r" "?p \<noteq> 0" using assms by (simp_all add: ctx_fresh_def ctx_base_def team_wf_def)
  have refreshed: "pending_ok (?r\<lparr>tr_applications := upd_first (\<lambda>a. ta_player_id a = ?p)
      (\<lambda>a. a\<lparr>ta_expire_at_ms := rc_now c + ApplicationTTLMs, ta_zone_id := ?z\<rparr>) (tr_applications ?r)\<rparr>)"
    using pend(1) by (simp add: pending_ok_def flip: set_map)
  show ?thesis
    unfolding rc_apply_def Let_def
    by (auto split: option.splits intro!: ctx_ok_fail ctx_fresh_ok [OF assms] ctx_ok_markOp
        ctx_ok_pending [OF assms] intro: refreshed ctx_ok_zoneCheck pending_ok_new_app [OF pend(1) _ pend(2)]
        simp: find_mem_ids)
qed

lemma rc_handleApplication_ok:
  assumes "ctx_fresh c"
  shows "ctx_ok (tr_team_id (rc_rec c)) (rc_handleApplication c)"
proof -
  let ?r = "rc_rec c"
  have pend: "pending_ok ?r" using assms by (simp add: ctx_fresh_def ctx_base_def team_wf_def)
  have rem: "pending_ok (removeApplication ?r p)" for p
    by (rule pending_ok_mono [OF pend, where Q = "\<lambda>_. True"]) (simp_all add: removeApplication_def)
  have "ctx_ok (tr_team_id ?r) (c\<lparr>rc_rec := removeApplication ?r p, rc_rejected := q\<rparr>)" for p q
    using ctx_ok_pending [OF assms, of "removeApplication ?r p"] rem
    by (simp add: ctx_ok_def removeApplication_def)
  moreover have "ctx_ok (tr_team_id ?r) (addMember p z c)"
    if "findApplication ?r p = Some a" "\<not> full c" "FindMember ?r p = None" for p z a
    using that pending_nonzero(1) [OF pend that(1)] ctx_ok_addMember [OF assms] by simp
  ultimately show ?thesis
    unfolding rc_handleApplication_def Let_def
    by (auto split: option.splits intro!: ctx_ok_fail ctx_fresh_ok [OF assms] ctx_ok_markOp intro: ctx_ok_zoneCheck)
qed

lemma rc_invite_ok:
  assumes "ctx_fresh c"
  shows "ctx_ok (tr_team_id (rc_rec c)) (rc_invite c)"
proof -
  let ?r = "rc_rec c" and ?t = "op_Target (rc_op c)"
  have pend: "pending_ok ?r" using assms by (simp add: ctx_fresh_def ctx_base_def team_wf_def)
  have upd: "pending_ok (?r\<lparr>tr_invites := upd_first P (\<lambda>i. i\<lparr>ti_expire_at_ms := e, ti_inviter_id := v, ti_zone_id := z\<rparr>) (tr_invites ?r)\<rparr>)"
    for P e v z
    using pend by (simp add: pending_ok_def flip: set_map)
  have add: "ctx_ok (tr_team_id ?r) (c\<lparr>rc_rec := r, rc_added := rc_added c @ [(?t, e)], rc_invited := ?t\<rparr>)"
    if "ctx_ok (tr_team_id ?r) (c\<lparr>rc_rec := r\<rparr>)" "?t \<in> set (invitee_ids r)" for r e
    using that assms by (auto simp: ctx_ok_def ctx_fresh_def ctx_base_def)
  show ?thesis
    unfolding rc_invite_def Let_def
    by (auto split: option.splits intro!: ctx_ok_fail ctx_fresh_ok [OF assms] ctx_ok_markOp add ctx_ok_pending [OF assms]
       intro: upd ctx_ok_zoneCheck simp: find_mem_ids pending_ok_new_invite [OF pend] simp flip: set_map)
qed

lemma rc_respondInvite_ok:
  assumes "ctx_fresh c"
  shows "ctx_ok (tr_team_id (rc_rec c)) (rc_respondInvite c)"
proof -
  let ?r = "rc_rec c"
  have pend: "pending_ok ?r" using assms by (simp add: ctx_fresh_def ctx_base_def team_wf_def)
  have "pending_ok (removeInvite ?r p)" for p
    by (rule pending_ok_mono [OF pend, where P = "\<lambda>_. True"]) (simp_all add: removeInvite_def)
  then have "ctx_ok (tr_team_id ?r) (c\<lparr>rc_rec := removeInvite ?r p\<rparr>)" for p
    by (intro ctx_ok_pending [OF assms]) (simp_all add: removeInvite_def)
  moreover have "ctx_ok (tr_team_id ?r) (addMember p z c)"
    if "findInvite ?r p = Some i" "\<not> full c" "FindMember ?r p = None" for p z i
    using that pending_nonzero(2) [OF pend that(1)] ctx_ok_addMember [OF assms] by simp
  ultimately show ?thesis
    unfolding rc_respondInvite_def Let_def
    by (auto split: option.splits intro!: ctx_ok_fail ctx_fresh_ok [OF assms] ctx_ok_markOp intro: ctx_ok_zoneCheck)
qed

lemma rc_leave_ok:
  assumes "ctx_fresh c"
  shows "ctx_ok (tr_team_id (rc_rec c)) (rc_leave c)"
proof -
  have "ctx_ok (tr_team_id (rc_rec c)) (c\<lparr>rc_extraLeft := rc_extraLeft c @ [op_Caller (rc_op c)]\<rparr>)"
    using assms by (simp add: ctx_ok_def ctx_fresh_def ctx_base_def)
  then show ?thesis
    unfolding rc_leave_def Let_def
    by (auto intro!: ctx_ok_fail ctx_fresh_ok [OF assms] ctx_ok_removeMember [OF assms] intro: ctx_ok_markOp)
qed

lemma rc_kick_ok:
  "ctx_fresh c \<Longrightarrow> ctx_ok (tr_team_id (rc_rec c)) (rc_kick c)"
  unfolding rc_kick_def Let_def by (auto intro!: ctx_ok_fail ctx_fresh_ok ctx_ok_removeMember)

lemma rc_transferLeader_ok:
  assumes "ctx_fresh c"
  shows "ctx_ok (tr_team_id (rc_rec c)) (rc_transferLeader c)"
proof -
  have "ctx_ok (tr_team_id (rc_rec c)) (c\<lparr>rc_rec := (rc_rec c)\<lparr>tr_leader_id := p\<rparr>\<rparr>)"
    if "p \<in> set (member_ids (rc_rec c))" for p
    using assms that by (simp add: ctx_ok_def ctx_fresh_def ctx_base_def team_wf_defs)
  then show ?thesis
    unfolding rc_transferLeader_def Let_def
    by (auto intro!: ctx_ok_fail ctx_fresh_ok [OF assms] ctx_ok_markOp simp flip: set_map)
qed

lemma rc_disband_ok:
  "ctx_fresh c \<Longrightarrow> ctx_ok (tr_team_id (rc_rec c)) (rc_disband c)"
  unfolding rc_disband_def Let_def
  by (auto intro!: ctx_ok_fail ctx_fresh_ok) (simp add: ctx_ok_def ctx_fresh_def ctx_base_def dissolve_def)

lemma run_op_ok:
  "run_op k = Some step \<Longrightarrow> ctx_fresh c \<Longrightarrow> ctx_ok (tr_team_id (rc_rec c)) (step c)"
  by (cases k) (auto simp: run_op_def intro: ctx_fresh_ok rc_apply_ok rc_handleApplication_ok
    rc_invite_ok rc_respondInvite_ok rc_leave_ok rc_kick_ok rc_transferLeader_ok rc_disband_ok)

section \<open>Opening a context\<close>

definition open_ctx :: "Op \<Rightarrow> TeamRecord \<Rightarrow> u64 \<Rightarrow> Sessions \<Rightarrow> RuleConfig \<Rightarrow> ruleCtx" where
  "open_ctx op r now s cfg = ctx_transfer (ctx_prune (new_ctx op r now s cfg))"

lemma ctx_prune_rec: "rc_rec (ctx_prune c) = fst (pruneExpired (rc_rec c) (rc_now c))"
  by (simp add: ctx_prune_def split: prod.splits)

lemma ctx_prune_base: "team_wf r \<Longrightarrow> ctx_base (ctx_prune (new_ctx op r now s cfg))"
  using pruneExpired_wf [of r now]
  by (auto simp: ctx_prune_def ctx_base_def new_ctx_def split: prod.splits)

text \<open>What opening does to the record: prune, then perhaps another leader.\<close>

lemma open_ctx_rec:
  obtains l where "rc_rec (open_ctx op r now s cfg) = (fst (pruneExpired r now))\<lparr>tr_leader_id := l\<rparr>"
    "team_wf r \<Longrightarrow> l \<in> set (member_ids r)"
    "\<not> rc_transferred (open_ctx op r now s cfg) \<Longrightarrow> l = tr_leader_id r"
proof -
  let ?p = "fst (pruneExpired r now)"
  obtain r' t where l: "lazyTransferLeader ?p s = (r', t)" by fastforce
  have o: "rc_rec (open_ctx op r now s cfg) = r'" "rc_transferred (open_ctx op r now s cfg) = t"
    using l by (auto simp: open_ctx_def ctx_transfer_def ctx_prune_def new_ctx_def split: prod.splits)
  have p: "tr_leader_id ?p = tr_leader_id r" "tr_members ?p = tr_members r"
    by (simp_all add: pruneExpired_def Let_def)
  from l show ?thesis
  proof (cases rule: lazyTransferLeader_cases)
    case same
    then have "r' = ?p\<lparr>tr_leader_id := tr_leader_id r\<rparr>" using p(1) by (metis TeamRecord.surjective TeamRecord.update_convs(2))
    then show ?thesis using o by (intro that [of "tr_leader_id r"]) (auto simp: team_wf_def)
  next
    case (moved q)
    then show ?thesis using o p by (intro that [of q]) auto
  qed
qed

lemma open_ctx_frame [simp]:
  "rc_op (open_ctx op r now s cfg) = op" "rc_now (open_ctx op r now s cfg) = now"
  "rc_sessions (open_ctx op r now s cfg) = s"
  "rc_code (open_ctx op r now s cfg) = 0" "\<not> rc_opChanged (open_ctx op r now s cfg)"
  "\<not> rc_disbanded (open_ctx op r now s cfg)" "rc_added (open_ctx op r now s cfg) = []"
  "rc_extraLeft (open_ctx op r now s cfg) = []"
  by (simp_all add: open_ctx_def ctx_transfer_def ctx_prune_def new_ctx_def split: prod.splits)

lemma open_ctx_base: "team_wf r \<Longrightarrow> ctx_base (open_ctx op r now s cfg)"
proof -
  assume wf: "team_wf r"
  obtain r' t where l: "lazyTransferLeader (fst (pruneExpired r now)) s = (r', t)" by fastforce
  have "team_wf r'" by (rule lazyTransferLeader_wf [OF pruneExpired_wf [OF wf] l])
  then show ?thesis
    using l by (auto simp: open_ctx_def ctx_transfer_def ctx_prune_def new_ctx_def ctx_base_def split: prod.splits)
qed

lemma open_ctx_same [simp]:
  "tr_team_id (rc_rec (open_ctx op r now s cfg)) = tr_team_id r"
  "tr_members (rc_rec (open_ctx op r now s cfg)) = tr_members r"
  "tr_next_join_seq (rc_rec (open_ctx op r now s cfg)) = tr_next_join_seq r"
  "tr_match_lock_token (rc_rec (open_ctx op r now s cfg)) = tr_match_lock_token r"
  "tr_match_lock_expire_at_ms (rc_rec (open_ctx op r now s cfg)) = tr_match_lock_expire_at_ms r"
  "tr_match_lock_roster (rc_rec (open_ctx op r now s cfg)) = tr_match_lock_roster r"
  by (rule open_ctx_rec [of op r now s cfg], simp add: pruneExpired_def Let_def)+

lemma open_ctx_fresh:
  "team_wf r \<Longrightarrow> op_Caller op \<noteq> 0 \<Longrightarrow> tr_next_join_seq r \<noteq> - 1 \<Longrightarrow> ctx_fresh (open_ctx op r now s cfg)"
  by (simp add: ctx_fresh_def open_ctx_base)

section \<open>The contract of a decision\<close>

abbreviation new_invitees :: "Decision \<Rightarrow> u64 set" where
  "new_invitees d \<equiv> (case d_Record d of None \<Rightarrow> {} | Some r \<Rightarrow> set (invitee_ids r))"

text \<open>The set contract documented at \<open>Decision\<close>, together with what the new record satisfies.\<close>

definition decision_contract :: "TeamRecord \<Rightarrow> Decision \<Rightarrow> bool" where
  "decision_contract orig d \<longleftrightarrow>
     distinct (d_Joined d @ d_Kept d @ d_Left d) \<and> 0 \<notin> set (d_Joined d @ d_Kept d @ d_Left d) \<and>
     (case d_Record d of
        None \<Rightarrow> d_Joined d = [] \<and> d_Kept d = []
      | Some r \<Rightarrow> team_wf r \<and> tr_team_id r = tr_team_id orig \<and> mset (member_ids r) = mset (d_Joined d @ d_Kept d)) \<and>
     set (d_Kept d) \<subseteq> set (member_ids orig) \<and> set (d_Joined d) \<inter> set (member_ids orig) = {} \<and>
     set (member_ids orig) - set (d_Kept d) \<subseteq> set (d_Left d) \<and>
     distinct (map fst (d_InvitesAdded d)) \<and> set (map fst (d_InvitesAdded d)) \<subseteq> new_invitees d \<and>
     distinct (d_InvitesRemoved d) \<and> set (d_InvitesRemoved d) = set (invitee_ids orig) - new_invitees d"

lemma removed_invitees_set:
  "set (removed_invitees skip seen vs) = {i \<in> set (map ti_invitee_id vs). \<not> skip i} - set seen"
  by (induction skip seen vs rule: removed_invitees.induct) (auto simp: Let_def)

lemma removed_invitees_distinct: "distinct (removed_invitees skip seen vs)"
  by (induction skip seen vs rule: removed_invitees.induct) (auto simp: Let_def removed_invitees_set)

lemma mset_filter_parts: "mset (filter (\<lambda>x. \<not> P x) xs @ filter P xs) = mset xs"
  by (induction xs) auto

lemma finish_fields:
  assumes "rc_code c = 0" and "rc_opChanged c \<or> rc_appsExpired c \<or> rc_invitesExpired c \<or> rc_transferred c"
    and "\<not> rc_disbanded c \<Longrightarrow> team_wf (rc_rec c)"
  shows "d_Record (finish c orig) = (if rc_disbanded c then None else Some (rc_rec c))"
    "d_Kept (finish c orig) = filter (\<lambda>i. i \<in> set (member_ids orig)) (MemberIds (rc_rec c))"
    "d_Joined (finish c orig) = filter (\<lambda>i. i \<notin> set (member_ids orig)) (MemberIds (rc_rec c))"
    "d_Left (finish c orig) =
       filter (\<lambda>i. rc_disbanded c \<or> i \<notin> set (member_ids (rc_rec c))) (MemberIds orig) @
       filter (\<lambda>i. (rc_disbanded c \<or> i \<notin> set (member_ids (rc_rec c))) \<and> i \<notin> set (member_ids orig)) (rc_extraLeft c)"
    "d_InvitesAdded (finish c orig) = rc_added c"
    "d_InvitesRemoved (finish c orig) =
       removed_invitees (\<lambda>i. i \<in> set (invitee_ids (rc_rec c)) \<or> i \<in> set (map fst (rc_added c))) [] (tr_invites orig)"
    "d_Changed (finish c orig)" "d_Code (finish c orig) = 0"
    "d_Disbanded (finish c orig) = rc_disbanded c"
    "d_LeaderOfflineTransferred (finish c orig) = rc_transferred c"
    "rc_opChanged c \<Longrightarrow> d_Reason (finish c orig) = rc_reason c \<and> d_Actor (finish c orig) = rc_actor c"
proof -
  have cc: "(if rc_disbanded c then c
      else c\<lparr>rc_rec := (rc_rec c)\<lparr>tr_members := sortMembers (tr_members (rc_rec c))\<rparr>\<rparr>) = c"
    using assms(3) by (cases c) (simp add: sortMembers_id team_wf_defs)
  have code: "(rc_code c \<noteq> 0) = False"
    and chg: "(\<not> rc_opChanged c \<and> \<not> (rc_appsExpired c \<or> rc_invitesExpired c \<or> rc_transferred c)) = False"
    using assms(1,2) by auto
  note unf = finish_def [of c orig, unfolded Let_def cc code chg if_False]
  show "d_Record (finish c orig) = (if rc_disbanded c then None else Some (rc_rec c))"
    "d_Kept (finish c orig) = filter (\<lambda>i. i \<in> set (member_ids orig)) (MemberIds (rc_rec c))"
    "d_Joined (finish c orig) = filter (\<lambda>i. i \<notin> set (member_ids orig)) (MemberIds (rc_rec c))"
    "d_InvitesAdded (finish c orig) = rc_added c"
    "d_Changed (finish c orig)" "d_Code (finish c orig) = 0"
    "d_Disbanded (finish c orig) = rc_disbanded c"
    "d_LeaderOfflineTransferred (finish c orig) = rc_transferred c"
    "rc_opChanged c \<Longrightarrow> d_Reason (finish c orig) = rc_reason c \<and> d_Actor (finish c orig) = rc_actor c"
    "d_Left (finish c orig) =
       filter (\<lambda>i. rc_disbanded c \<or> i \<notin> set (member_ids (rc_rec c))) (MemberIds orig) @
       filter (\<lambda>i. (rc_disbanded c \<or> i \<notin> set (member_ids (rc_rec c))) \<and> i \<notin> set (member_ids orig)) (rc_extraLeft c)"
    "d_InvitesRemoved (finish c orig) =
       removed_invitees (\<lambda>i. i \<in> set (invitee_ids (rc_rec c)) \<or> i \<in> set (map fst (rc_added c))) [] (tr_invites orig)"
    by (simp_all add: unf decision_zero_def memberSet_def [abs_def] split: prod.splits)
qed

lemma finish_contract:
  assumes wf: "team_wf orig" and ok: "ctx_ok (tr_team_id orig) c" and "d_Changed (finish c orig)"
  shows "decision_contract orig (finish c orig)"
proof -
  have chg: "rc_code c = 0" "rc_opChanged c \<or> rc_appsExpired c \<or> rc_invitesExpired c \<or> rc_transferred c"
    using assms(3) by (auto simp: finish_def Let_def reject_def decision_zero_def split: if_splits)
  have rec: "\<not> rc_disbanded c \<Longrightarrow> team_wf (rc_rec c)" using ok by (simp add: ctx_ok_def)
  note f = finish_fields [OF chg rec, simplified]
  let ?new = "MemberIds (rc_rec c)" and ?old = "set (member_ids orig)"
  have old: "distinct (MemberIds orig)" "0 \<notin> set (MemberIds orig)"
    using wf by (simp_all add: team_wf_defs)
  have disb: "?new = []" "tr_invites (rc_rec c) = []" "rc_added c = []" "tr_members (rc_rec c) = []"
    if "rc_disbanded c"
    using ok that by (simp_all add: ctx_ok_def MemberIds_def sortMembers_def)
  have new: "distinct ?new" "0 \<notin> set ?new"
    using disb(1) rec by (cases "rc_disbanded c"; simp add: team_wf_defs)+
  have ex: "distinct (rc_extraLeft c)" "0 \<notin> set (rc_extraLeft c)" "tr_team_id (rc_rec c) = tr_team_id orig"
    "distinct (map fst (rc_added c))" "set (map fst (rc_added c)) \<subseteq> set (invitee_ids (rc_rec c))"
    using ok by (simp_all add: ctx_ok_def)
  have lists: "distinct (d_Joined (finish c orig) @ d_Kept (finish c orig) @ d_Left (finish c orig))"
    "0 \<notin> set (d_Joined (finish c orig) @ d_Kept (finish c orig) @ d_Left (finish c orig))"
    unfolding f(2-4) using old new ex(1,2) disb(1,4) by auto
  have memb: "mset (member_ids (rc_rec c)) = mset (d_Joined (finish c orig) @ d_Kept (finish c orig))"
    unfolding f(2,3) using mset_filter_parts [of "\<lambda>i. i \<in> tm_player_id ` set (tr_members orig)" ?new]
    by (simp add: mset_MemberIds)
  have inv: "new_invitees (finish c orig) = set (invitee_ids (rc_rec c))"
    using disb(2) by (cases "rc_disbanded c") (simp_all add: f(1))
  have left: "?old - set (d_Kept (finish c orig)) \<subseteq> set (d_Left (finish c orig))"
    unfolding f(2,4) by auto
  have removed: "set (d_InvitesRemoved (finish c orig)) = set (invitee_ids orig) - set (invitee_ids (rc_rec c))"
    unfolding f(6) using ex(5) by (auto simp: removed_invitees_set)
  have kept: "set (d_Kept (finish c orig)) \<subseteq> ?old" "set (d_Joined (finish c orig)) \<inter> ?old = {}"
    unfolding f(2,3) by auto
  have dist: "distinct (d_InvitesRemoved (finish c orig))"
    unfolding f(6) by (rule removed_invitees_distinct)
  have "case d_Record (finish c orig) of None \<Rightarrow> d_Joined (finish c orig) = [] \<and> d_Kept (finish c orig) = []
    | Some r \<Rightarrow> team_wf r \<and> tr_team_id r = tr_team_id orig \<and>
        mset (member_ids r) = mset (d_Joined (finish c orig) @ d_Kept (finish c orig))"
    using disb(1) rec ex(3) memb by (cases "rc_disbanded c") (simp_all add: f(1-3))
  then show ?thesis
    unfolding decision_contract_def inv f(5)
    using lists left removed kept dist ex(4,5) by blast
qed

lemma Apply_open:
  assumes "op_Kind op \<noteq> OpCreate" and "d_Code (Apply op (Some r) now s cfg) = 0"
  obtains step where "run_op (op_Kind op) = Some step"
    "Apply op (Some r) now s cfg = finish (step (open_ctx op r now s cfg)) r"
  using assms
  by (auto simp: Apply_def open_ctx_def reject_def decision_zero_def ErrInternal_def split: option.splits)

lemma changed_code: "d_Changed (Apply op (Some r) now s cfg) \<Longrightarrow> op_Kind op \<noteq> OpCreate \<and> d_Code (Apply op (Some r) now s cfg) = 0"
  by (auto simp: Apply_def applyCreate_def reject_def decision_zero_def finish_def Let_def split: option.splits if_splits)

lemma Apply_keeps_contract:
  assumes "team_wf r" and "op_Caller op \<noteq> 0" and "tr_next_join_seq r \<noteq> - 1"
    and "d_Changed (Apply op (Some r) now s cfg)"
  shows "decision_contract r (Apply op (Some r) now s cfg)"
proof -
  obtain step where step: "run_op (op_Kind op) = Some step"
      "Apply op (Some r) now s cfg = finish (step (open_ctx op r now s cfg)) r"
    using Apply_open changed_code [OF assms(4)] by metis
  have "ctx_ok (tr_team_id r) (step (open_ctx op r now s cfg))"
    using run_op_ok [OF step(1) open_ctx_fresh [OF assms(1-3)]] by simp
  then show ?thesis
    using finish_contract [OF assms(1)] assms(4) step(2) by simp
qed

section \<open>The repair and the match lock\<close>

text \<open>Removing several members: after a dissolution no listed player is found any more.\<close>

lemma removeMember_team: "tr_team_id (rc_rec (removeMember p c)) = tr_team_id (rc_rec c)"
  by (simp add: removeMember_def dissolve_def Let_def)

lemma repair_loop_gone:
  "tr_members (rc_rec c) = [] \<Longrightarrow> repair_loop ps c a = (c, a)"
  by (induction ps) (auto simp: FindMember_def)

lemma repair_loop_ok:
  assumes "ctx_base c" and "repair_loop ps c a = (c', a')"
  shows "ctx_ok (tr_team_id (rc_rec c)) c' \<and> rc_extraLeft c' = [] \<and> rc_added c' = [] \<and> rc_code c' = 0 \<and>
    member_ids (rc_rec c') = filter (\<lambda>i. i \<notin> set ps) (member_ids (rc_rec c))"
  using assms
proof (induction ps arbitrary: c a)
  case Nil
  then show ?case by (auto simp: ctx_base_def ctx_ok_def)
next
  case (Cons p ps)
  have wf: "team_wf (rc_rec c)" using Cons.prems(1) by (simp add: ctx_base_def)
  show ?case
  proof (cases "p = 0 \<or> p \<notin> set (member_ids (rc_rec c))")
    case True
    then have "p \<notin> set (member_ids (rc_rec c))" using wf by (auto simp: team_wf_defs)
    then have "filter (\<lambda>i. i \<notin> set (p # ps)) (member_ids (rc_rec c)) = filter (\<lambda>i. i \<notin> set ps) (member_ids (rc_rec c))"
      by (auto intro: filter_cong)
    moreover have "repair_loop ps c a = (c', a')" using Cons.prems(2) True by simp
    ultimately show ?thesis using Cons.IH [OF Cons.prems(1)] by simp
  next
    case False
    define c1 where "c1 = removeMember p c"
    define c2 where "c2 = c1\<lparr>rc_rec := (rc_rec c1)\<lparr>tr_match_lock_roster := removeId (tr_match_lock_roster (rc_rec c1)) p\<rparr>\<rparr>"
    have rest: "repair_loop ps c2 (if a = 0 then p else a) = (c', a')"
      using Cons.prems(2) False by (simp add: Let_def c1_def c2_def)
    from wf show ?thesis
    proof (cases rule: removeMember_cases [where p = p])
      case gone
      then have "tr_members (rc_rec c2) = []" by (simp add: c1_def c2_def dissolve_def)
      then have c': "c' = c2" using rest repair_loop_gone by simp
      have only: "\<forall>i \<in> set (member_ids (rc_rec c)). i = p"
        using gone(1) by (auto simp: filter_empty_conv)
      then have "filter (\<lambda>i. i \<notin> set (p # ps)) (member_ids (rc_rec c)) = []"
        by (auto simp: filter_empty_conv)
      then show ?thesis
        using gone Cons.prems(1) c' by (simp add: c1_def c2_def dissolve_def ctx_ok_def ctx_base_def)
    next
      case (left l)
      have "team_wf (rc_rec c2)"
        using remove_wf [OF wf left(5,2,3)] left(1) by (simp add: c1_def c2_def team_wf_defs)
      then have base: "ctx_base c2"
        using Cons.prems(1) left(1) by (simp add: c1_def c2_def ctx_base_def)
      have ids: "member_ids (rc_rec c2) = filter (\<lambda>i. i \<noteq> p) (member_ids (rc_rec c))"
        using left(1) by (simp add: c1_def c2_def filter_map comp_def)
      have "tr_team_id (rc_rec c2) = tr_team_id (rc_rec c)" by (simp add: c2_def c1_def removeMember_team)
      then show ?thesis using Cons.IH [OF base rest] ids by (simp add: conj_commute)
    qed
  qed
qed

lemma Repair_open:
  obtains c a where
    "repair_loop ps (open_ctx op_zero r now s cfg_zero) 0 = (c, a)"
    "RepairRemoveMembers (Some r) ps now s = finish (if a \<noteq> 0 then markOp REASON_HEALED a c else c) r"
proof -
  obtain c a where "repair_loop ps (open_ctx op_zero r now s cfg_zero) 0 = (c, a)" by fastforce
  then show ?thesis by (intro that) (simp_all add: RepairRemoveMembers_def open_ctx_def)
qed

lemma Repair_keeps_contract:
  assumes "team_wf r" and "d_Changed (RepairRemoveMembers (Some r) ps now s)"
  shows "decision_contract r (RepairRemoveMembers (Some r) ps now s)"
proof -
  obtain c a where c: "repair_loop ps (open_ctx op_zero r now s cfg_zero) 0 = (c, a)"
    "RepairRemoveMembers (Some r) ps now s = finish (if a \<noteq> 0 then markOp REASON_HEALED a c else c) r"
    by (rule Repair_open)
  have "ctx_ok (tr_team_id r) c"
    using repair_loop_ok [OF open_ctx_base [OF assms(1)] c(1)] by simp
  then have "ctx_ok (tr_team_id r) (if a \<noteq> 0 then markOp REASON_HEALED a c else c)"
    by (simp add: ctx_ok_markOp)
  then show ?thesis using finish_contract [OF assms(1)] assms(2) c(2) by simp
qed

lemma ctx_ok_lock:
  assumes "ctx_base c"
  shows "ctx_ok (tr_team_id (rc_rec c)) (markOp k a (c\<lparr>rc_rec := (rc_rec c)\<lparr>tr_match_lock_token := t,
    tr_match_lock_expire_at_ms := e, tr_match_lock_roster := ro\<rparr>\<rparr>))"
  using assms by (simp add: ctx_ok_def ctx_base_def team_wf_defs)

lemma LockMatch_open:
  assumes "d_Code (LockMatch rec caller token roster expireAt now) = 0"
  obtains r where "rec = Some r" "caller = tr_leader_id r" "\<not> MatchLockActive (Some r) now"
    "token \<noteq> ''''" "now < expireAt" "sameIdSet roster (MemberIds r)"
    "LockMatch rec caller token roster expireAt now =
       (let c = ctx_prune (new_ctx (op_zero\<lparr>op_Caller := caller\<rparr>) r now Map.empty cfg_zero)
        in finish (markOp REASON_MATCH_STARTED caller (c\<lparr>rc_rec := (rc_rec c)\<lparr>tr_match_lock_token := token,
             tr_match_lock_expire_at_ms := expireAt, tr_match_lock_roster := roster\<rparr>\<rparr>)) r)"
proof -
  obtain r where r: "rec = Some r"
    using assms by (cases rec) (auto simp: LockMatch_def CheckMatchStart_def reject_def team_codes)
  show ?thesis
    using assms
    by (intro that [OF r])
       (auto simp: LockMatch_def CheckMatchStart_def reject_def team_codes r Let_def not_le split: if_splits)
qed

lemma LockMatch_keeps_contract:
  assumes "team_wf r" and "d_Changed (LockMatch (Some r) caller token roster e now)"
  shows "decision_contract r (LockMatch (Some r) caller token roster e now)"
proof -
  have "d_Code (LockMatch (Some r) caller token roster e now) = 0"
    using assms(2) by (auto simp: LockMatch_def finish_def reject_def decision_zero_def Let_def split: if_splits)
  then obtain c where c: "c = ctx_prune (new_ctx (op_zero\<lparr>op_Caller := caller\<rparr>) r now Map.empty cfg_zero)"
      "LockMatch (Some r) caller token roster e now =
         finish (markOp REASON_MATCH_STARTED caller (c\<lparr>rc_rec := (rc_rec c)\<lparr>tr_match_lock_token := token,
           tr_match_lock_expire_at_ms := e, tr_match_lock_roster := roster\<rparr>\<rparr>)) r"
    by (rule LockMatch_open) (simp add: Let_def)
  have "ctx_base c" using ctx_prune_base [OF assms(1)] c(1) by simp
  moreover have "tr_team_id (rc_rec c) = tr_team_id r"
    by (simp add: c(1) ctx_prune_rec pruneExpired_def new_ctx_def Let_def)
  ultimately show ?thesis
    using finish_contract [OF assms(1)] ctx_ok_lock assms(2) c(2) by metis
qed

lemma Release_keeps_contract:
  assumes "team_wf r" and "d_Changed (ReleaseMatchLock (Some r) token ok now s)"
  shows "decision_contract r (ReleaseMatchLock (Some r) token ok now s)"
proof -
  let ?c = "open_ctx op_zero r now s cfg_zero"
  have "ReleaseMatchLock (Some r) token ok now s =
      finish (markOp (if ok then REASON_MATCH_ENDED else REASON_MATCH_FAILED) 0 (?c\<lparr>rc_rec := (rc_rec ?c)
        \<lparr>tr_match_lock_token := '''', tr_match_lock_expire_at_ms := 0, tr_match_lock_roster := []\<rparr>\<rparr>)) r"
    using assms(2) by (auto simp: ReleaseMatchLock_def decision_zero_def open_ctx_def Let_def split: if_splits)
  then show ?thesis
    using finish_contract [OF assms(1)] ctx_ok_lock [OF open_ctx_base [OF assms(1)]] assms(2)
    by (metis open_ctx_same(1))
qed

text \<open>Creating a team.\<close>

lemma applyCreate_wf:
  assumes "d_Changed (applyCreate op rec now)"
  obtains r where "d_Record (applyCreate op rec now) = Some r" "team_wf r" "tr_team_id r = op_NewTeamId op"
    "member_ids r = [op_Caller op]" "d_Joined (applyCreate op rec now) = [op_Caller op]" "op_CallerTeamId op = 0"
  using assms
  by (auto simp: applyCreate_def reject_def decision_zero_def team_wf_defs Capacity_def MaxApplications_def
      MaxInvitesPerTeam_def split: if_splits)

section \<open>Comparing id lists\<close>

lemma count_ids: "fold (\<lambda>i counts. counts(i := Suc (counts i))) a f = (\<lambda>i. f i + count (mset a) i)"
  by (induction a arbitrary: f) (auto simp: fun_eq_iff)

lemma consume_ids_iff: "consume_ids f b \<longleftrightarrow> (\<forall>i. count (mset b) i \<le> f i)"
proof (induction b arbitrary: f)
  case (Cons x b)
  have le: "(count (mset b) i \<le> (f(x := f x - 1)) i \<and> f x \<noteq> 0) \<longleftrightarrow> (count (mset (x # b)) i \<le> f i \<and> f x \<noteq> 0)" for i
    by auto
  have pos: "f x \<noteq> 0" if "\<forall>i. count (mset (x # b)) i \<le> f i" using that [THEN spec, of x] by auto
  have "consume_ids f (x # b) \<longleftrightarrow> f x \<noteq> 0 \<and> (\<forall>i. count (mset b) i \<le> (f(x := f x - 1)) i)"
    using Cons.IH [of "f(x := f x - 1)"] by (simp only: consume_ids.simps split: if_split) blast
  also have "\<dots> \<longleftrightarrow> (\<forall>i. count (mset (x # b)) i \<le> f i)"
    using le pos by blast
  finally show ?case .
qed simp

text \<open>The counting comparison is equality of multisets.\<close>

lemma sameIdSet_iff: "sameIdSet a b \<longleftrightarrow> mset a = mset b"
proof -
  have "consume_ids (\<lambda>i. count (mset a) i) b \<longleftrightarrow> mset b \<subseteq># mset a"
    by (simp add: consume_ids_iff subseteq_mset_def)
  then have "sameIdSet a b \<longleftrightarrow> length a = length b \<and> mset b \<subseteq># mset a"
    by (simp add: sameIdSet_def count_ids)
  also have "\<dots> \<longleftrightarrow> mset a = mset b"
    by (metis mset_eq_length mset_subset_size size_mset subset_mset.le_less less_irrefl subset_mset.order_refl)
  finally show ?thesis .
qed

end
