(* ===== verification/TeamRedis.thy ===== *)
theory TeamRedis
  imports TeamInvariant "HOL-Library.AList"
begin

text \<open>
  The Redis state of the team service and the Lua scripts of
  \<open>go/match/internal/team/scripts.go\<close>, each of which Redis runs atomically.

  A key is an entry with its absolute expiry in milliseconds; a key whose expiry has passed does not
  exist.  Every script takes the millisecond of its \<open>TIME\<close> call.  Serialised records are kept
  as records.  Ids are compared as the decimal strings the scripts compare; the text \<open>0\<close> is the id 0.
  Versions, epochs and times are natural numbers below the \<open>2^53\<close> up to which Lua counts exactly.
\<close>

section \<open>State\<close>

record rec_entry =
  re_ver :: nat
  re_pb :: TeamRecord
  re_expire :: nat

text \<open>The projection \<open>TeamInfo\<close>: team, leader, members.\<close>

record proj_entry =
  pe_info :: "u64 \<times> u64 \<times> u64 list"
  pe_expire :: nat

record idx_entry =
  ix_tid :: u64
  ix_epoch :: nat
  ix_expire :: nat

text \<open>The sorted set of pending invites of one player: team and score.\<close>

record inv_entry =
  iz_scores :: "(u64 \<times> nat) list"
  iz_expire :: nat

record team_redis =
  rd_rec :: "u64 \<rightharpoonup> rec_entry"
  rd_proj :: "u64 \<rightharpoonup> proj_entry"
  rd_idx :: "u64 \<rightharpoonup> idx_entry"
  rd_inv :: "u64 \<rightharpoonup> inv_entry"

definition live_rec :: "team_redis \<Rightarrow> nat \<Rightarrow> u64 \<Rightarrow> rec_entry option" where
  "live_rec st now t = (case rd_rec st t of Some e \<Rightarrow> if now < re_expire e then Some e else None | None \<Rightarrow> None)"

definition live_proj :: "team_redis \<Rightarrow> nat \<Rightarrow> u64 \<Rightarrow> proj_entry option" where
  "live_proj st now t = (case rd_proj st t of Some e \<Rightarrow> if now < pe_expire e then Some e else None | None \<Rightarrow> None)"

definition live_idx :: "team_redis \<Rightarrow> nat \<Rightarrow> u64 \<Rightarrow> idx_entry option" where
  "live_idx st now p = (case rd_idx st p of Some e \<Rightarrow> if now < ix_expire e then Some e else None | None \<Rightarrow> None)"

definition scores :: "team_redis \<Rightarrow> nat \<Rightarrow> u64 \<Rightarrow> (u64 \<times> nat) list" where
  "scores st now p = (case rd_inv st p of Some e \<Rightarrow> if now < iz_expire e then iz_scores e else [] | None \<Rightarrow> [])"

section \<open>S_COMMIT\<close>

definition teamTTL :: nat where "teamTTL = 86400"

datatype commit_reply =
    ReplyOk nat "(u64 \<times> nat) list"
  | ReplyConflict
  | ReplyMemberInTeam nat
  | ReplyIndexMismatch nat
  | ReplyInviteLimit nat

text \<open>The arguments of the script.  \<open>ca_expected\<close> is \<open>None\<close> for \<open>new\<close>; \<open>ca_record\<close> is \<open>None\<close>
  for the empty payload that deletes the team.\<close>

record commit_args =
  ca_tid :: u64
  ca_expected :: "nat option"
  ca_record :: "(TeamRecord \<times> (u64 \<times> u64 \<times> u64 list)) option"
  ca_joined :: "u64 list"
  ca_kept :: "u64 list"
  ca_left :: "u64 list"
  ca_added :: "(u64 \<times> nat) list"
  ca_removed :: "u64 list"

definition setIdx :: "team_redis \<Rightarrow> nat \<Rightarrow> u64 \<Rightarrow> u64 \<Rightarrow> team_redis \<times> nat" where
  "setIdx st now p v =
     (let old = live_idx st now p;
          e = (case old of None \<Rightarrow> 0 | Some i \<Rightarrow> ix_epoch i);
          e' = (if map_option ix_tid old \<noteq> Some v then (if e = 0 then now + 1 else e + 1) else e)
      in (st\<lparr>rd_idx := (rd_idx st)(p \<mapsto> \<lparr>ix_tid = v, ix_epoch = e', ix_expire = now + teamTTL * 1000\<rparr>)\<rparr>, e'))"

fun set_members :: "team_redis \<Rightarrow> nat \<Rightarrow> u64 \<Rightarrow> u64 list \<Rightarrow> team_redis \<times> (u64 \<times> nat) list" where
  "set_members st now tid [] = (st, [])"
| "set_members st now tid (p # ps) =
     (case setIdx st now p tid of (st1, e) \<Rightarrow>
       (case set_members st1 now tid ps of (st2, out) \<Rightarrow> (st2, (tid, e) # out)))"

fun clear_left :: "team_redis \<Rightarrow> nat \<Rightarrow> u64 \<Rightarrow> u64 list \<Rightarrow> team_redis \<times> (u64 \<times> nat) list" where
  "clear_left st now tid [] = (st, [])"
| "clear_left st now tid (p # ps) =
     (case live_idx st now p of
        Some i \<Rightarrow>
          if ix_tid i = tid then
            (case setIdx st now p 0 of (st1, e) \<Rightarrow>
              (case clear_left st1 now tid ps of (st2, out) \<Rightarrow> (st2, (0, e) # out)))
          else
            (case clear_left st now tid ps of (st2, out) \<Rightarrow> (st2, (ix_tid i, ix_epoch i) # out))
      | None \<Rightarrow>
          (case setIdx st now p 0 of (st1, e) \<Rightarrow>
            (case clear_left st1 now tid ps of (st2, out) \<Rightarrow> (st2, (0, e) # out))))"

definition zrem :: "team_redis \<Rightarrow> nat \<Rightarrow> u64 \<Rightarrow> u64 \<Rightarrow> team_redis" where
  "zrem st now p tid =
     (case rd_inv st p of
        None \<Rightarrow> st
      | Some e \<Rightarrow> if now < iz_expire e
                then st\<lparr>rd_inv := (rd_inv st)(p \<mapsto> e\<lparr>iz_scores := AList.delete tid (iz_scores e)\<rparr>)\<rparr>
                else st)"

definition zadd :: "team_redis \<Rightarrow> nat \<Rightarrow> u64 \<Rightarrow> u64 \<Rightarrow> nat \<Rightarrow> team_redis" where
  "zadd st now p tid score =
     (let kept = filter (\<lambda>(t, s). now < s) (scores st now p)
      in st\<lparr>rd_inv := (rd_inv st)(p \<mapsto> \<lparr>iz_scores = AList.update tid score kept, iz_expire = now + 3600 * 1000\<rparr>)\<rparr>)"

text \<open>The position (from 1) of the first element with a property: what the rejecting loops return.\<close>

fun first_pos :: "('a \<Rightarrow> bool) \<Rightarrow> nat \<Rightarrow> 'a list \<Rightarrow> nat option" where
  "first_pos P i [] = None"
| "first_pos P i (x # xs) = (if P x then Some i else first_pos P (i + 1) xs)"

definition in_other_team :: "team_redis \<Rightarrow> nat \<Rightarrow> u64 \<Rightarrow> u64 \<Rightarrow> bool" where
  "in_other_team st now tid p =
     (case live_idx st now p of None \<Rightarrow> False | Some i \<Rightarrow> ix_tid i \<noteq> 0 \<and> ix_tid i \<noteq> tid)"

definition index_mismatch :: "team_redis \<Rightarrow> nat \<Rightarrow> u64 \<Rightarrow> u64 \<Rightarrow> bool" where
  "index_mismatch st now tid p =
     (case live_idx st now p of None \<Rightarrow> False | Some i \<Rightarrow> ix_tid i \<noteq> tid)"

definition invite_full :: "team_redis \<Rightarrow> nat \<Rightarrow> u64 \<Rightarrow> u64 \<Rightarrow> bool" where
  "invite_full st now tid p =
     (map_of (scores st now p) tid = None \<and>
      length (filter (\<lambda>(t, s). now < s) (scores st now p)) \<ge> MaxPendingInvitesPerInvitee)"

definition put_record :: "team_redis \<Rightarrow> nat \<Rightarrow> u64 \<Rightarrow> nat \<Rightarrow> (TeamRecord \<times> (u64 \<times> u64 \<times> u64 list)) option \<Rightarrow> team_redis" where
  "put_record st now tid ver payload =
     (case payload of
        None \<Rightarrow> st\<lparr>rd_rec := (rd_rec st)(tid := None), rd_proj := (rd_proj st)(tid := None)\<rparr>
      | Some (pb, info) \<Rightarrow>
          st\<lparr>rd_rec := (rd_rec st)(tid \<mapsto> \<lparr>re_ver = ver, re_pb = pb, re_expire = now + teamTTL * 1000\<rparr>),
             rd_proj := (rd_proj st)(tid \<mapsto> \<lparr>pe_info = info, pe_expire = now + teamTTL * 1000\<rparr>)\<rparr>)"

definition scriptCommit :: "team_redis \<Rightarrow> nat \<Rightarrow> commit_args \<Rightarrow> team_redis \<times> commit_reply" where
  "scriptCommit st now a =
     (let tid = ca_tid a; cur = map_option re_ver (live_rec st now tid)
      in if cur \<noteq> ca_expected a then (st, ReplyConflict)
         else case first_pos (in_other_team st now tid) 1 (ca_joined a) of
           Some i \<Rightarrow> (st, ReplyMemberInTeam i)
         | None \<Rightarrow>
             (case first_pos (index_mismatch st now tid) 1 (ca_kept a) of
                Some i \<Rightarrow> (st, ReplyIndexMismatch i)
              | None \<Rightarrow>
                  (case first_pos (\<lambda>(p, _). invite_full st now tid p) 1 (ca_added a) of
                     Some i \<Rightarrow> (st, ReplyInviteLimit i)
                   | None \<Rightarrow>
                       let newVer = (case cur of None \<Rightarrow> 0 | Some v \<Rightarrow> v) + 1;
                           st1 = put_record st now tid newVer (ca_record a);
                           (st2, out1) = set_members st1 now tid (ca_joined a @ ca_kept a);
                           (st3, out2) = clear_left st2 now tid (ca_left a);
                           st4 = fold (\<lambda>p s. zrem s now p tid) (ca_removed a) st3;
                           st5 = fold (\<lambda>(p, score) s. zadd s now p tid score) (ca_added a) st4
                       in (st5, ReplyOk newVer (out1 @ out2)))))"

section \<open>The other scripts\<close>

text \<open>\<open>S_READ\<close>: \<open>(tidNow, epoch, ver, pb, ttl, now)\<close>; a missing index reports id 0 and the clock.\<close>

definition scriptRead :: "team_redis \<Rightarrow> nat \<Rightarrow> u64 \<Rightarrow> u64 \<Rightarrow> u64 \<times> nat \<times> nat \<times> TeamRecord option \<times> int \<times> nat" where
  "scriptRead st now p t =
     (let i = live_idx st now p; r = live_rec st now t
      in (case i of None \<Rightarrow> 0 | Some x \<Rightarrow> ix_tid x,
          case i of None \<Rightarrow> now | Some x \<Rightarrow> ix_epoch x,
          case r of None \<Rightarrow> 0 | Some x \<Rightarrow> re_ver x,
          map_option re_pb r,
          case r of None \<Rightarrow> - 2 | Some x \<Rightarrow> (int (re_expire x) - int now + 500) div 1000,
          now))"

definition scriptReadMembers :: "team_redis \<Rightarrow> nat \<Rightarrow> u64 \<Rightarrow> u64 list \<Rightarrow> nat \<times> TeamRecord option \<times> nat \<times> (u64 \<times> nat) list" where
  "scriptReadMembers st now t ps =
     (let r = live_rec st now t
      in (case r of None \<Rightarrow> 0 | Some x \<Rightarrow> re_ver x, map_option re_pb r, now,
          map (\<lambda>p. case live_idx st now p of None \<Rightarrow> (0, 0) | Some x \<Rightarrow> (ix_tid x, ix_epoch x)) ps))"

definition scriptInviteList :: "team_redis \<Rightarrow> nat \<Rightarrow> u64 \<Rightarrow> team_redis \<times> nat \<times> (u64 \<times> nat) list" where
  "scriptInviteList st now p =
     (let kept = filter (\<lambda>(t, s). now < s) (scores st now p)
      in (case rd_inv st p of
            None \<Rightarrow> st
          | Some e \<Rightarrow> if now < iz_expire e then st\<lparr>rd_inv := (rd_inv st)(p \<mapsto> e\<lparr>iz_scores := kept\<rparr>)\<rparr> else st,
          now, sort_key (\<lambda>(t, s). s) kept))"

definition scriptInvitePrune :: "team_redis \<Rightarrow> nat \<Rightarrow> u64 \<Rightarrow> u64 \<Rightarrow> nat \<Rightarrow> team_redis \<times> bool" where
  "scriptInvitePrune st now p tid score =
     (if map_of (scores st now p) tid = Some score then (zrem st now p tid, True) else (st, False))"

definition touch_idx :: "nat \<Rightarrow> u64 \<Rightarrow> u64 \<Rightarrow> team_redis \<Rightarrow> team_redis" where
  "touch_idx now tid p st =
     (case live_idx st now p of
        None \<Rightarrow> st
      | Some i \<Rightarrow> if ix_tid i = tid
                then st\<lparr>rd_idx := (rd_idx st)(p \<mapsto> i\<lparr>ix_expire := now + teamTTL * 1000\<rparr>)\<rparr>
                else st)"

definition scriptTouch ::
    "team_redis \<Rightarrow> nat \<Rightarrow> u64 \<Rightarrow> nat \<Rightarrow> (u64 \<times> u64 \<times> u64 list) \<Rightarrow> u64 list \<Rightarrow> team_redis \<times> bool" where
  "scriptTouch st now tid ver info ps =
     (case live_rec st now tid of
        None \<Rightarrow> (st, False)
      | Some e \<Rightarrow>
          if re_ver e \<noteq> ver then (st, False)
          else
            let st1 = st\<lparr>rd_rec := (rd_rec st)(tid \<mapsto> e\<lparr>re_expire := now + teamTTL * 1000\<rparr>)\<rparr>;
                st2 = (case live_proj st1 now tid of
                         Some q \<Rightarrow> st1\<lparr>rd_proj := (rd_proj st1)(tid \<mapsto> q\<lparr>pe_expire := now + teamTTL * 1000\<rparr>)\<rparr>
                       | None \<Rightarrow> st1\<lparr>rd_proj := (rd_proj st1)(tid \<mapsto> \<lparr>pe_info = info, pe_expire = now + teamTTL * 1000\<rparr>)\<rparr>)
            in (fold (touch_idx now tid) ps st2, True))"

definition scriptHealOrphan :: "team_redis \<Rightarrow> nat \<Rightarrow> u64 \<Rightarrow> u64 \<Rightarrow> team_redis \<times> bool" where
  "scriptHealOrphan st now p tid =
     (if live_rec st now tid \<noteq> None then (st, False)
      else case live_idx st now p of
        None \<Rightarrow> (st, False)
      | Some i \<Rightarrow>
          if ix_tid i \<noteq> tid then (st, False)
          else
            let e = (if ix_epoch i = 0 then now + 1 else ix_epoch i + 1)
            in (st\<lparr>rd_idx := (rd_idx st)(p \<mapsto> \<lparr>ix_tid = 0, ix_epoch = e, ix_expire = now + teamTTL * 1000\<rparr>)\<rparr>, True))"

section \<open>The invariant of the store\<close>

text \<open>
  At a given time: every live record is well-formed and stored under its own id; the index of each of
  its members points to it and lives at least as long as the record; no invite index holds more than
  ten entries, those that have expired but are not yet pruned included.
\<close>

definition recs_ok :: "team_redis \<Rightarrow> nat \<Rightarrow> bool" where
  "recs_ok st now \<longleftrightarrow> (\<forall>t e. live_rec st now t = Some e \<longrightarrow>
     team_wf (re_pb e) \<and> tr_team_id (re_pb e) = t \<and> 1 \<le> re_ver e)"

definition idx_ok :: "team_redis \<Rightarrow> nat \<Rightarrow> bool" where
  "idx_ok st now \<longleftrightarrow> (\<forall>t e p. live_rec st now t = Some e \<longrightarrow> p \<in> set (member_ids (re_pb e)) \<longrightarrow>
     (\<exists>i. rd_idx st p = Some i \<and> ix_tid i = t \<and> re_expire e \<le> ix_expire i))"

definition inv_ok :: "team_redis \<Rightarrow> nat \<Rightarrow> bool" where
  "inv_ok st now \<longleftrightarrow> (\<forall>p. distinct (map fst (scores st now p)) \<and>
     length (scores st now p) \<le> MaxPendingInvitesPerInvitee)"

definition redis_inv :: "team_redis \<Rightarrow> nat \<Rightarrow> bool" where
  "redis_inv st now \<longleftrightarrow> recs_ok st now \<and> idx_ok st now \<and> inv_ok st now"

lemma live_rec_mono: "now \<le> now' \<Longrightarrow> live_rec st now' t = Some e \<Longrightarrow> live_rec st now t = Some e"
  by (auto simp: live_rec_def split: option.splits if_splits)

lemma scores_mono: "now \<le> now' \<Longrightarrow> scores st now' p = scores st now p \<or> scores st now' p = []"
  by (auto simp: scores_def split: option.splits)

text \<open>Time passing keeps the invariant.\<close>

lemma redis_inv_later:
  assumes "redis_inv st now" and "now \<le> now'"
  shows "redis_inv st now'"
proof -
  have "inv_ok st now'"
    using assms scores_mono [OF assms(2), of st] unfolding redis_inv_def inv_ok_def
    by (metis distinct.simps(1) list.map(1) list.size(3) zero_le)
  moreover have "recs_ok st now'"
    using assms live_rec_mono [OF assms(2)] unfolding redis_inv_def recs_ok_def by blast
  moreover have "idx_ok st now'"
    using assms live_rec_mono [OF assms(2)] unfolding redis_inv_def idx_ok_def by blast
  ultimately show ?thesis by (simp add: redis_inv_def)
qed

section \<open>Effects of the pieces of the commit\<close>

lemma setIdx_frame:
  "setIdx st now p v = (st', e) \<Longrightarrow>
     rd_rec st' = rd_rec st \<and> rd_proj st' = rd_proj st \<and> rd_inv st' = rd_inv st \<and>
     (\<forall>q. q \<noteq> p \<longrightarrow> rd_idx st' q = rd_idx st q) \<and>
     (\<exists>i. rd_idx st' p = Some i \<and> ix_tid i = v \<and> ix_epoch i = e \<and> ix_expire i = now + teamTTL * 1000)"
  by (auto simp: setIdx_def Let_def)

lemma set_members_frame:
  "set_members st now tid ps = (st', out) \<Longrightarrow>
     rd_rec st' = rd_rec st \<and> rd_proj st' = rd_proj st \<and> rd_inv st' = rd_inv st \<and>
     (\<forall>q. q \<notin> set ps \<longrightarrow> rd_idx st' q = rd_idx st q) \<and>
     (\<forall>q \<in> set ps. \<exists>i. rd_idx st' q = Some i \<and> ix_tid i = tid \<and> ix_expire i = now + teamTTL * 1000)"
proof (induction ps arbitrary: st out)
  case (Cons p ps)
  obtain st1 e where s: "setIdx st now p tid = (st1, e)" by fastforce
  obtain out' where m: "set_members st1 now tid ps = (st', out')"
    using Cons.prems s by (auto split: prod.splits)
  show ?case
    using Cons.IH [OF m] setIdx_frame [OF s] by (metis set_ConsD list.set_intros)
qed simp

lemma clear_left_frame:
  "clear_left st now tid ps = (st', out) \<Longrightarrow>
     rd_rec st' = rd_rec st \<and> rd_proj st' = rd_proj st \<and> rd_inv st' = rd_inv st \<and>
     (\<forall>q. q \<notin> set ps \<longrightarrow> rd_idx st' q = rd_idx st q) \<and>
     (\<forall>q i. live_idx st now q = Some i \<longrightarrow> ix_tid i \<noteq> tid \<longrightarrow> rd_idx st' q = rd_idx st q)"
proof (induction ps arbitrary: st out)
  case (Cons p ps)
  show ?case
  proof (cases "\<exists>i. live_idx st now p = Some i \<and> ix_tid i \<noteq> tid")
    case True
    then obtain out' where "clear_left st now tid ps = (st', out')"
      using Cons.prems by (auto split: prod.splits)
    then show ?thesis using Cons.IH by auto
  next
    case False
    obtain st1 e where s: "setIdx st now p 0 = (st1, e)" by fastforce
    obtain out' where c: "clear_left st1 now tid ps = (st', out')"
      using Cons.prems s False by (auto split: prod.splits option.splits if_splits)
    have same: "live_idx st1 now q = live_idx st now q" if "q \<noteq> p" for q
      using setIdx_frame [OF s] that by (simp add: live_idx_def)
    show ?thesis using Cons.IH [OF c] setIdx_frame [OF s] same False by (metis list.set_intros)
  qed
qed simp

text \<open>The invite index under removal and insertion.\<close>

definition inv_le :: "(u64 \<times> nat) list \<Rightarrow> bool" where
  "inv_le xs \<longleftrightarrow> distinct (map fst xs) \<and> length xs \<le> MaxPendingInvitesPerInvitee"

lemma inv_ok_le: "inv_ok st now \<longleftrightarrow> (\<forall>p. inv_le (scores st now p))"
  by (simp add: inv_ok_def inv_le_def)

lemma length_update_le: "length (AList.update t s xs) \<le> (if map_of xs t = None then length xs + 1 else length xs)"
  by (induction xs) (auto split: if_splits)

lemma inv_le_filter: "inv_le xs \<Longrightarrow> inv_le (filter P xs)"
  by (auto simp: inv_le_def intro: length_filter_le_trans)

lemma inv_le_delete: "inv_le xs \<Longrightarrow> inv_le (AList.delete t xs)"
  by (simp add: AList.delete_eq inv_le_filter)

text \<open>An entry of the same team, expired or not, is replaced; otherwise the cap check leaves room.\<close>

lemma inv_le_add:
  assumes "inv_le xs" and "map_of xs t \<noteq> None \<or> length (filter P xs) < MaxPendingInvitesPerInvitee"
  shows "inv_le (AList.update t v (filter P xs))"
proof -
  let ?ys = "filter P xs"
  have ys: "inv_le ?ys" by (rule inv_le_filter [OF assms(1)])
  have "length (AList.update t v ?ys) \<le> MaxPendingInvitesPerInvitee"
  proof (cases "map_of ?ys t = None \<and> map_of xs t \<noteq> None")
    case True
    then obtain s where s: "(t, s) \<in> set xs" by (auto dest: map_of_SomeD)
    have "\<not> P (t, s)" using True s by (force simp: map_of_eq_None_iff)
    then have "length ?ys < length xs" by (rule length_filter_less [OF s])
    then show ?thesis
      using length_update_le [of t v ?ys] assms(1) True by (simp add: inv_le_def)
  next
    case False
    then show ?thesis
      using length_update_le [of t v ?ys] assms(2) ys by (auto simp: inv_le_def split: if_splits)
  qed
  moreover have "distinct (map fst (AList.update t v ?ys))"
    using ys by (intro distinct_update) (simp add: inv_le_def)
  ultimately show ?thesis by (simp add: inv_le_def)
qed

lemma zrem_frame: "rd_rec (zrem st now p t) = rd_rec st \<and> rd_idx (zrem st now p t) = rd_idx st"
  by (simp add: zrem_def split: option.splits)

lemma zrem_inv: "inv_ok st now \<Longrightarrow> inv_ok (zrem st now p t) now"
  by (auto simp: inv_ok_le zrem_def scores_def inv_le_delete split: option.splits if_splits)

lemma zadd_frame: "rd_rec (zadd st now p t s) = rd_rec st \<and> rd_idx (zadd st now p t s) = rd_idx st"
  by (simp add: zadd_def Let_def)

lemma scores_zadd:
  "scores (zadd st now p t s) now q =
     (if q = p then AList.update t s (filter (\<lambda>(t, s). now < s) (scores st now p)) else scores st now q)"
  by (simp add: zadd_def Let_def scores_def)

lemma scores_zrem:
  "scores (zrem st now p t) now q = (if q = p then AList.delete t (scores st now p) else scores st now q)"
  by (auto simp: zrem_def scores_def split: option.splits)

section \<open>The commit keeps the invariant\<close>

definition args_ok :: "commit_args \<Rightarrow> bool" where
  "args_ok a \<longleftrightarrow> ca_tid a \<noteq> 0 \<and> distinct (ca_joined a @ ca_kept a @ ca_left a) \<and>
     (case ca_record a of None \<Rightarrow> True
      | Some (pb, info) \<Rightarrow> team_wf pb \<and> tr_team_id pb = ca_tid a \<and>
          set (member_ids pb) = set (ca_joined a @ ca_kept a)) \<and>
     distinct (map fst (ca_added a)) \<and> set (map fst (ca_added a)) \<inter> set (ca_removed a) = {}"

lemma first_pos_None: "first_pos P i xs = None \<longleftrightarrow> (\<forall>x \<in> set xs. \<not> P x)"
  by (induction xs arbitrary: i) auto

lemma first_pos_Some: "first_pos P i xs = Some k \<Longrightarrow> i \<le> k \<and> k < i + length xs \<and> P (xs ! (k - i))"
proof (induction xs arbitrary: i)
  case (Cons x xs)
  show ?case
  proof (cases "P x")
    case False
    then have "first_pos P (i + 1) xs = Some k" using Cons.prems by simp
    from Cons.IH [OF this] show ?thesis by (auto simp: nth_Cons')
  qed (use Cons.prems in auto)
qed simp

text \<open>A commit that is not refused, taken apart.\<close>

lemma scriptCommit_ok:
  assumes "scriptCommit st now a = (st', ReplyOk ver out)"
  obtains st1 st2 st3 st4 out1 out2 where
    "map_option re_ver (live_rec st now (ca_tid a)) = ca_expected a"
    "ver = (case ca_expected a of None \<Rightarrow> 0 | Some v \<Rightarrow> v) + 1"
    "\<forall>p \<in> set (ca_joined a). \<not> in_other_team st now (ca_tid a) p"
    "\<forall>p \<in> set (ca_kept a). \<not> index_mismatch st now (ca_tid a) p"
    "\<forall>p \<in> set (map fst (ca_added a)). \<not> invite_full st now (ca_tid a) p"
    "st1 = put_record st now (ca_tid a) ver (ca_record a)"
    "set_members st1 now (ca_tid a) (ca_joined a @ ca_kept a) = (st2, out1)"
    "clear_left st2 now (ca_tid a) (ca_left a) = (st3, out2)"
    "st4 = fold (\<lambda>p s. zrem s now p (ca_tid a)) (ca_removed a) st3"
    "st' = fold (\<lambda>(p, score) s. zadd s now p (ca_tid a) score) (ca_added a) st4" "out = out1 @ out2"
proof -
  let ?t = "ca_tid a"
  define st1 where "st1 = put_record st now ?t ver (ca_record a)"
  obtain st2 out1 where s2: "set_members st1 now ?t (ca_joined a @ ca_kept a) = (st2, out1)" by fastforce
  obtain st3 out2 where s3: "clear_left st2 now ?t (ca_left a) = (st3, out2)" by fastforce
  define st4 where "st4 = fold (\<lambda>p s. zrem s now p ?t) (ca_removed a) st3"
  have g: "map_option re_ver (live_rec st now ?t) = ca_expected a"
    "first_pos (in_other_team st now ?t) 1 (ca_joined a) = None"
    "first_pos (index_mismatch st now ?t) 1 (ca_kept a) = None"
    "first_pos (\<lambda>(p, _). invite_full st now ?t p) 1 (ca_added a) = None"
    using assms by (auto simp: scriptCommit_def Let_def split: if_splits option.splits prod.splits)
  have v: "ver = (case ca_expected a of None \<Rightarrow> 0 | Some v \<Rightarrow> v) + 1"
    using assms g by (simp add: scriptCommit_def Let_def split: prod.splits)
  have "st' = fold (\<lambda>(p, score) s. zadd s now p ?t score) (ca_added a) st4" "out = out1 @ out2"
    using assms g s2 s3 by (simp_all add: scriptCommit_def Let_def st1_def st4_def v)
  then show ?thesis
    using g v s2 s3 by (intro that) (auto simp: first_pos_None st1_def st4_def)
qed

lemma fold_zrem:
  "rd_rec (fold (\<lambda>p s. zrem s now p t) ps st) = rd_rec st \<and> rd_idx (fold (\<lambda>p s. zrem s now p t) ps st) = rd_idx st \<and>
   (\<forall>q. q \<notin> set ps \<longrightarrow> scores (fold (\<lambda>p s. zrem s now p t) ps st) now q = scores st now q) \<and>
   (inv_ok st now \<longrightarrow> inv_ok (fold (\<lambda>p s. zrem s now p t) ps st) now)"
  by (induction ps arbitrary: st) (auto simp: zrem_frame zrem_inv scores_zrem)

lemma fold_zadd:
  assumes "distinct (map fst as)" and "\<forall>p \<in> set (map fst as). \<not> invite_full st now t p"
  shows "rd_rec (fold (\<lambda>(p, v) s. zadd s now p t v) as st) = rd_rec st \<and>
    rd_idx (fold (\<lambda>(p, v) s. zadd s now p t v) as st) = rd_idx st \<and>
    (inv_ok st now \<longrightarrow> inv_ok (fold (\<lambda>(p, v) s. zadd s now p t v) as st) now)"
  using assms
proof (induction as arbitrary: st)
  case (Cons a as)
  obtain p v where a: "a = (p, v)" by fastforce
  have nf: "\<not> invite_full (zadd st now p t v) now t q" if "q \<in> set (map fst as)" for q
    using Cons.prems that a by (auto simp: invite_full_def scores_zadd)
  have "inv_ok (zadd st now p t v) now" if "inv_ok st now"
    using that Cons.prems(2) a inv_le_add [of "scores st now p" t "\<lambda>(t, s). now < s" v]
    by (auto simp: inv_ok_le scores_zadd invite_full_def not_le)
  then show ?case
    using Cons.IH [of "zadd st now p t v"] Cons.prems(1) nf a zadd_frame [of st now p t v] by auto
qed simp

lemma put_record_frame:
  "rd_idx (put_record st now t v pl) = rd_idx st \<and> rd_inv (put_record st now t v pl) = rd_inv st \<and>
   (\<forall>u. u \<noteq> t \<longrightarrow> rd_rec (put_record st now t v pl) u = rd_rec st u) \<and>
   rd_rec (put_record st now t v pl) t =
     map_option (\<lambda>(pb, info). \<lparr>re_ver = v, re_pb = pb, re_expire = now + teamTTL * 1000\<rparr>) pl"
  by (auto simp: put_record_def split: option.splits)

lemma idx_ok_live:
  assumes "idx_ok st now" "live_rec st now t = Some e" "p \<in> set (member_ids (re_pb e))"
  obtains i where "rd_idx st p = Some i" "live_idx st now p = Some i" "ix_tid i = t" "re_expire e \<le> ix_expire i"
proof -
  obtain i where i: "rd_idx st p = Some i" "ix_tid i = t" "re_expire e \<le> ix_expire i"
    using assms unfolding idx_ok_def by blast
  moreover have "now < re_expire e"
    using assms(2) by (auto simp: live_rec_def split: option.splits if_splits)
  ultimately show ?thesis by (intro that) (auto simp: live_idx_def)
qed

lemma fold_zadd_frame:
  "rd_rec (fold (\<lambda>(p, v) s. zadd s now p t v) as st) = rd_rec st \<and>
   rd_idx (fold (\<lambda>(p, v) s. zadd s now p t v) as st) = rd_idx st"
  by (induction as arbitrary: st) (auto simp: zadd_frame)

lemma live_rec_cong: "rd_rec st' u = rd_rec st u \<Longrightarrow> live_rec st' now u = live_rec st now u"
  by (simp add: live_rec_def)

lemma scores_cong: "rd_inv st' = rd_inv st \<Longrightarrow> scores st' now p = scores st now p"
  by (simp add: scores_def)

lemma scriptCommit_idx_ok:
  assumes "recs_ok st now" and inv: "idx_ok st now" and a: "args_ok a" and ok: "scriptCommit st now a = (st', ReplyOk ver out)"
  shows "idx_ok st' now"
  unfolding idx_ok_def
proof (intro allI impI)
  let ?t = "ca_tid a"
  obtain st1 st2 st3 st4 out1 out2 where c:
    "\<forall>p \<in> set (ca_joined a). \<not> in_other_team st now ?t p"
    "\<forall>p \<in> set (ca_kept a). \<not> index_mismatch st now ?t p"
    "st1 = put_record st now ?t ver (ca_record a)"
    "set_members st1 now ?t (ca_joined a @ ca_kept a) = (st2, out1)"
    "clear_left st2 now ?t (ca_left a) = (st3, out2)"
    "st4 = fold (\<lambda>p s. zrem s now p ?t) (ca_removed a) st3"
    "st' = fold (\<lambda>(p, score) s. zadd s now p ?t score) (ca_added a) st4"
    by (rule scriptCommit_ok [OF ok])
  note pr = put_record_frame [of st now ?t ver "ca_record a", folded c(3)]
  note sm = set_members_frame [OF c(4)]
  note cl = clear_left_frame [OF c(5)]
  have st': "rd_rec st' = rd_rec st1" "rd_idx st' = rd_idx st3"
    using c(6,7) fold_zadd_frame fold_zrem sm cl by simp_all
  fix u e p assume e: "live_rec st' now u = Some e" and p: "p \<in> set (member_ids (re_pb e))"
  show "\<exists>i. rd_idx st' p = Some i \<and> ix_tid i = u \<and> re_expire e \<le> ix_expire i"
  proof (cases "u = ?t")
    case True
    then obtain pb info where rec: "ca_record a = Some (pb, info)" "re_pb e = pb" "re_expire e = now + teamTTL * 1000"
      using e pr by (auto simp: live_rec_def st' split: option.splits if_splits)
    then have mem: "p \<in> set (ca_joined a @ ca_kept a)" "p \<notin> set (ca_left a)"
      using a p by (auto simp: args_ok_def)
    then obtain i where "rd_idx st2 p = Some i" "ix_tid i = ?t" "ix_expire i = now + teamTTL * 1000"
      using sm by blast
    then show ?thesis using cl mem(2) rec(3) True by (simp add: st')
  next
    case False
    then have e0: "live_rec st now u = Some e" using e pr st' by (simp add: live_rec_def)
    obtain i where i: "rd_idx st p = Some i" "live_idx st now p = Some i" "ix_tid i = u" "re_expire e \<le> ix_expire i"
      by (rule idx_ok_live [OF inv e0 p])
    have "u \<noteq> 0" using assms(1) e0 by (auto simp: recs_ok_def team_wf_def)
    then have "p \<notin> set (ca_joined a @ ca_kept a)"
      using c(1,2) i False by (auto simp: in_other_team_def index_mismatch_def)
    then have "rd_idx st2 p = rd_idx st p" using sm pr by simp
    moreover from this have "live_idx st2 now p = Some i" using i(2) by (simp add: live_idx_def)
    ultimately show ?thesis using cl i False by (simp add: st')
  qed
qed

lemma scriptCommit_recs_ok:
  assumes "recs_ok st now" and a: "args_ok a" and ok: "scriptCommit st now a = (st', ReplyOk ver out)"
  shows "recs_ok st' now"
  unfolding recs_ok_def
proof (intro allI impI)
  let ?t = "ca_tid a"
  fix u e assume e: "live_rec st' now u = Some e"
  have rec: "rd_rec st' = rd_rec (put_record st now ?t ver (ca_record a))" "1 \<le> ver"
    using ok fold_zadd_frame fold_zrem by (auto elim!: scriptCommit_ok dest!: set_members_frame clear_left_frame)
  note pr = put_record_frame [of st now ?t ver "ca_record a"]
  show "team_wf (re_pb e) \<and> tr_team_id (re_pb e) = u \<and> 1 \<le> re_ver e"
  proof (cases "u = ?t")
    case True
    then obtain pb info where "ca_record a = Some (pb, info)" "re_pb e = pb" "re_ver e = ver"
      using e pr rec by (auto simp: live_rec_def split: option.splits if_splits)
    then show ?thesis using a True rec(2) by (simp add: args_ok_def)
  next
    case False
    then have "live_rec st now u = Some e" using e pr rec by (simp add: live_rec_def)
    then show ?thesis using assms(1) by (simp add: recs_ok_def)
  qed
qed

lemma scriptCommit_inv_ok:
  assumes "inv_ok st now" and a: "args_ok a" and ok: "scriptCommit st now a = (st', ReplyOk ver out)"
  shows "inv_ok st' now"
proof -
  let ?t = "ca_tid a"
  obtain st1 st2 st3 st4 out1 out2 where c:
    "\<forall>p \<in> set (map fst (ca_added a)). \<not> invite_full st now ?t p"
    "st1 = put_record st now ?t ver (ca_record a)"
    "set_members st1 now ?t (ca_joined a @ ca_kept a) = (st2, out1)"
    "clear_left st2 now ?t (ca_left a) = (st3, out2)"
    "st4 = fold (\<lambda>p s. zrem s now p ?t) (ca_removed a) st3"
    "st' = fold (\<lambda>(p, score) s. zadd s now p ?t score) (ca_added a) st4"
    by (rule scriptCommit_ok [OF ok])
  have "rd_inv st3 = rd_inv st"
    using put_record_frame [of st now ?t ver "ca_record a"] set_members_frame [OF c(3)] clear_left_frame [OF c(4)] c(2)
    by simp
  then have sc: "scores st3 now p = scores st now p" for p by (rule scores_cong)
  have i4: "inv_ok st4 now" using fold_zrem [of now ?t "ca_removed a" st3] assms(1) c(5) by (simp add: inv_ok_def sc)
  have "\<forall>p \<in> set (map fst (ca_added a)). \<not> invite_full st4 now ?t p"
  proof
    fix p assume p: "p \<in> set (map fst (ca_added a))"
    then have "p \<notin> set (ca_removed a)" using a by (auto simp: args_ok_def)
    then have "scores st4 now p = scores st now p"
      using fold_zrem [of now ?t "ca_removed a" st3] c(5) by (simp add: sc)
    moreover have "\<not> invite_full st now ?t p" using c(1) p by blast
    ultimately show "\<not> invite_full st4 now ?t p" by (simp add: invite_full_def)
  qed
  then show ?thesis using fold_zadd [of "ca_added a" st4 now ?t] i4 a c(6) by (simp add: args_ok_def)
qed

lemma scriptCommit_refused:
  assumes "scriptCommit st now a = (st', r)" and "\<forall>ver out. r \<noteq> ReplyOk ver out"
  shows "st' = st"
  using assms by (auto simp: scriptCommit_def Let_def split: if_splits option.splits prod.splits)

lemma scriptCommit_keeps:
  assumes "redis_inv st now" and "args_ok a" and "scriptCommit st now a = (st', r)"
  shows "redis_inv st' now"
proof (cases "\<exists>ver out. r = ReplyOk ver out")
  case True
  then show ?thesis
    using assms scriptCommit_recs_ok scriptCommit_idx_ok scriptCommit_inv_ok unfolding redis_inv_def by metis
next
  case False
  then show ?thesis using assms scriptCommit_refused by blast
qed

text \<open>The remaining scripts.\<close>

lemma scriptHealOrphan_keeps:
  assumes "redis_inv st now" and "scriptHealOrphan st now p t = (st', b)"
  shows "redis_inv st' now"
proof (cases b)
  case True
  then obtain i where d: "live_rec st now t = None" "live_idx st now p = Some i" "ix_tid i = t"
    and st': "rd_rec st' = rd_rec st" "rd_inv st' = rd_inv st" "\<forall>q. q \<noteq> p \<longrightarrow> rd_idx st' q = rd_idx st q"
    using assms(2) by (auto simp: scriptHealOrphan_def Let_def split: option.splits if_splits)
  have "idx_ok st' now"
    unfolding idx_ok_def
  proof (intro allI impI)
    fix u e q assume e: "live_rec st' now u = Some e" and q: "q \<in> set (member_ids (re_pb e))"
    then have e0: "live_rec st now u = Some e" using st'(1) by (simp add: live_rec_def)
    then obtain j where j: "rd_idx st q = Some j" "live_idx st now q = Some j" "ix_tid j = u" "re_expire e \<le> ix_expire j"
      using assms(1) q idx_ok_live unfolding redis_inv_def by metis
    then have "q \<noteq> p" using d e0 by auto
    then show "\<exists>i. rd_idx st' q = Some i \<and> ix_tid i = u \<and> re_expire e \<le> ix_expire i"
      using j st'(3) by simp
  qed
  then show ?thesis
    using assms(1) st' by (simp add: redis_inv_def recs_ok_def inv_ok_def live_rec_def scores_def)
next
  case False
  then have "st' = st" using assms(2) by (auto simp: scriptHealOrphan_def Let_def split: option.splits if_splits)
  then show ?thesis using assms(1) by simp
qed

lemma redis_inv_invites:
  assumes "redis_inv st now" and "rd_rec st' = rd_rec st" and "rd_idx st' = rd_idx st" and "inv_ok st' now"
  shows "redis_inv st' now"
  using assms by (simp add: redis_inv_def recs_ok_def idx_ok_def live_rec_def)

lemma scriptInviteList_keeps:
  assumes "redis_inv st now" and "scriptInviteList st now p = (st', out)"
  shows "redis_inv st' now"
proof (rule redis_inv_invites [OF assms(1)])
  show "rd_rec st' = rd_rec st" "rd_idx st' = rd_idx st"
    using assms(2) by (auto simp: scriptInviteList_def Let_def split: option.splits if_splits)
  have sc: "scores st' now q = scores st now q \<or> scores st' now q = filter (\<lambda>(t, s). now < s) (scores st now q)" for q
    using assms(2) by (auto simp: scriptInviteList_def Let_def scores_def split: option.splits if_splits)
  have "inv_le (scores st now q)" for q using assms(1) by (simp add: redis_inv_def inv_ok_le)
  then have "inv_le (scores st' now q)" for q using sc [of q] inv_le_filter by metis
  then show "inv_ok st' now" by (simp add: inv_ok_le)
qed

lemma scriptInvitePrune_keeps:
  assumes "redis_inv st now" and "scriptInvitePrune st now p t s = (st', b)"
  shows "redis_inv st' now"
proof -
  have "redis_inv (zrem st now p t) now"
    using redis_inv_invites [OF assms(1)] zrem_frame zrem_inv assms(1) by (simp add: redis_inv_def)
  then show ?thesis using assms by (auto simp: scriptInvitePrune_def split: if_splits)
qed

lemma touch_idx_frame:
  "rd_rec (fold (touch_idx now t) ps st) = rd_rec st \<and> rd_inv (fold (touch_idx now t) ps st) = rd_inv st"
proof (induction ps arbitrary: st)
  case (Cons p ps)
  have "rd_rec (touch_idx now t p st) = rd_rec st \<and> rd_inv (touch_idx now t p st) = rd_inv st"
    by (simp add: touch_idx_def split: option.split)
  then show ?case using Cons.IH [of "touch_idx now t p st"] by simp
qed simp

lemma touch_idx_other:
  "live_idx st now q = Some i \<Longrightarrow> ix_tid i \<noteq> t \<Longrightarrow> rd_idx (fold (touch_idx now t) ps st) q = rd_idx st q"
proof (induction ps arbitrary: st)
  case (Cons p ps)
  have same: "rd_idx (touch_idx now t p st) q = rd_idx st q"
    using Cons.prems by (auto simp: touch_idx_def split: option.split)
  then have "live_idx (touch_idx now t p st) now q = Some i"
    using Cons.prems(1) by (simp add: live_idx_def)
  then show ?case using Cons.IH [of "touch_idx now t p st"] Cons.prems(2) same by simp
qed simp

lemma touch_idx_own:
  "live_idx st now q = Some i \<Longrightarrow> ix_tid i = t \<Longrightarrow>
   \<exists>j. rd_idx (fold (touch_idx now t) ps st) q = Some j \<and> ix_tid j = t \<and> ix_epoch j = ix_epoch i \<and>
     (q \<in> set ps \<longrightarrow> ix_expire j = now + teamTTL * 1000) \<and>
     (ix_expire j = ix_expire i \<or> ix_expire j = now + teamTTL * 1000)"
proof (induction ps arbitrary: st i)
  case Nil
  then show ?case by (auto simp: live_idx_def split: option.splits if_splits)
next
  case (Cons p ps)
  define i' where "i' = (if p = q then i\<lparr>ix_expire := now + teamTTL * 1000\<rparr> else i)"
  have "live_idx (touch_idx now t p st) now q = Some i'"
    using Cons.prems by (auto simp: touch_idx_def i'_def live_idx_def teamTTL_def split: option.splits if_splits)
  then show ?case using Cons.IH [of "touch_idx now t p st" i'] Cons.prems(2) by (auto simp: i'_def split: if_splits)
qed

text \<open>A touch renews exactly the team whose version the caller knows, with that version's members.\<close>

lemma scriptTouch_cases:
  assumes "scriptTouch st now t ver info ps = (st', b)"
  obtains (kept) "\<not> b" "st' = st"
  | (renewed) e st2 where "b" "live_rec st now t = Some e" "re_ver e = ver"
      "rd_rec st2 = (rd_rec st)(t \<mapsto> e\<lparr>re_expire := now + teamTTL * 1000\<rparr>)" "rd_idx st2 = rd_idx st"
      "rd_inv st2 = rd_inv st" "st' = fold (touch_idx now t) ps st2"
proof (cases b)
  case False
  then show ?thesis
    using assms by (intro kept) (auto simp: scriptTouch_def Let_def split: option.splits if_splits)
next
  case True
  then obtain e where e: "live_rec st now t = Some e" "re_ver e = ver"
    using assms by (auto simp: scriptTouch_def split: option.splits if_splits)
  define st1 where "st1 = st\<lparr>rd_rec := (rd_rec st)(t \<mapsto> e\<lparr>re_expire := now + teamTTL * 1000\<rparr>)\<rparr>"
  define st2 where "st2 = (case live_proj st1 now t of
      Some q \<Rightarrow> st1\<lparr>rd_proj := (rd_proj st1)(t \<mapsto> q\<lparr>pe_expire := now + teamTTL * 1000\<rparr>)\<rparr>
    | None \<Rightarrow> st1\<lparr>rd_proj := (rd_proj st1)(t \<mapsto> \<lparr>pe_info = info, pe_expire = now + teamTTL * 1000\<rparr>)\<rparr>)"
  show ?thesis
    by (rule renewed [OF True e, of st2])
       (use assms e in \<open>simp_all add: scriptTouch_def Let_def st1_def st2_def split: option.splits\<close>)
qed

lemma scriptTouch_keeps:
  assumes inv: "redis_inv st now" and t: "scriptTouch st now t ver info ps = (st', b)"
    and ps: "\<And>e. live_rec st now t = Some e \<Longrightarrow> re_ver e = ver \<Longrightarrow> set (member_ids (re_pb e)) \<subseteq> set ps"
  shows "redis_inv st' now"
  using t
proof (cases rule: scriptTouch_cases)
  case kept
  then show ?thesis using inv by simp
next
  case (renewed e st2)
  define e' where "e' = e\<lparr>re_expire := now + teamTTL * 1000\<rparr>"
  note e = renewed(2,3)
  have st2: "rd_rec st2 = (rd_rec st)(t \<mapsto> e')" "rd_idx st2 = rd_idx st" "rd_inv st2 = rd_inv st"
      "st' = fold (touch_idx now t) ps st2"
    using renewed(4-7) by (simp_all add: e'_def)
  then have st': "rd_rec st' = (rd_rec st)(t \<mapsto> e')" "rd_inv st' = rd_inv st"
    using touch_idx_frame [of now t ps st2] by simp_all
  have li: "live_idx st2 now q = live_idx st now q" for q using st2(2) by (simp add: live_idx_def)
  have rec: "live_rec st' now u = (if u = t then Some e' else live_rec st now u)" for u
    by (simp add: live_rec_def st'(1) e'_def teamTTL_def)
  have "recs_ok st' now" using inv e by (auto simp: redis_inv_def recs_ok_def rec e'_def)
  moreover have "inv_ok st' now" using inv by (simp add: redis_inv_def inv_ok_def scores_def st'(2))
  moreover have "idx_ok st' now"
    unfolding idx_ok_def
  proof (intro allI impI)
    fix u f q assume f: "live_rec st' now u = Some f" and q: "q \<in> set (member_ids (re_pb f))"
    have "\<exists>f0. live_rec st now u = Some f0 \<and> re_pb f = re_pb f0 \<and> (u \<noteq> t \<longrightarrow> f = f0)"
      using f e rec [of u] by (auto simp: e'_def split: if_splits)
    then obtain f0 where f0: "live_rec st now u = Some f0" "re_pb f = re_pb f0" "u \<noteq> t \<longrightarrow> f = f0" by blast
    obtain i where i: "rd_idx st q = Some i" "live_idx st now q = Some i" "ix_tid i = u" "re_expire f0 \<le> ix_expire i"
      using idx_ok_live inv q f0 unfolding redis_inv_def by metis
    show "\<exists>i. rd_idx st' q = Some i \<and> ix_tid i = u \<and> re_expire f \<le> ix_expire i"
    proof (cases "u = t")
      case True
      then have "q \<in> set ps" using ps e f0 q by auto
      moreover have "re_expire f = now + teamTTL * 1000" using f rec True by (auto simp: e'_def)
      ultimately show ?thesis
        using touch_idx_own [of st2 now q i t ps] i True li st2(4) by auto
    next
      case False
      then show ?thesis using touch_idx_other [of st2 now q i t ps] i f0(3) li st2(2,4) by auto
    qed
  qed
  ultimately show ?thesis by (simp add: redis_inv_def)
qed

lemma scriptTouch_recs:
  assumes "scriptTouch st now t ver info ps = (st', b)"
  shows "map_option (\<lambda>e. (re_ver e, re_pb e)) (live_rec st' now u) =
    map_option (\<lambda>e. (re_ver e, re_pb e)) (live_rec st now u)"
  using assms
proof (cases rule: scriptTouch_cases)
  case (renewed e st2)
  then have "rd_rec st' = (rd_rec st)(t \<mapsto> e\<lparr>re_expire := now + teamTTL * 1000\<rparr>)"
    using touch_idx_frame by simp
  then show ?thesis using renewed(2) by (auto simp: live_rec_def teamTTL_def)
qed simp

section \<open>Epochs\<close>

text \<open>Team and epoch of a player as \<open>S_READ\<close> reports them, and how they may evolve: the epoch never
  falls, and it rises whenever the team changes.\<close>

definition seen_index :: "team_redis \<Rightarrow> nat \<Rightarrow> u64 \<Rightarrow> u64 \<times> nat" where
  "seen_index st now p = (case scriptRead st now p 0 of (t, e, _) \<Rightarrow> (t, e))"

definition seen_le :: "u64 \<times> nat \<Rightarrow> u64 \<times> nat \<Rightarrow> bool" where
  "seen_le a b \<longleftrightarrow> snd a < snd b \<or> a = b"

definition idx_evolves :: "nat \<Rightarrow> team_redis \<Rightarrow> team_redis \<Rightarrow> bool" where
  "idx_evolves now st st' \<longleftrightarrow> (\<forall>p. seen_le (seen_index st now p) (seen_index st' now p))"

lemma seen_index_alt:
  "seen_index st now p = (case live_idx st now p of None \<Rightarrow> (0, now) | Some i \<Rightarrow> (ix_tid i, ix_epoch i))"
  by (simp add: seen_index_def scriptRead_def Let_def split: option.split)

lemma seen_le_trans: "seen_le a b \<Longrightarrow> seen_le b c \<Longrightarrow> seen_le a c"
  by (auto simp: seen_le_def)

lemma idx_evolves_refl: "rd_idx st' = rd_idx st \<Longrightarrow> idx_evolves now st st'"
  by (simp add: idx_evolves_def seen_index_alt live_idx_def seen_le_def)

lemma idx_evolves_trans: "idx_evolves now a b \<Longrightarrow> idx_evolves now b c \<Longrightarrow> idx_evolves now a c"
  unfolding idx_evolves_def by (blast intro: seen_le_trans)

lemma setIdx_evolves: "setIdx st now p v = (st', e) \<Longrightarrow> idx_evolves now st st'"
  by (auto simp: idx_evolves_def seen_le_def seen_index_alt setIdx_def Let_def live_idx_def teamTTL_def
      split: option.splits if_splits)

lemma set_members_evolves: "set_members st now t ps = (st', out) \<Longrightarrow> idx_evolves now st st'"
proof (induction ps arbitrary: st out)
  case (Cons p ps)
  obtain st1 e where s: "setIdx st now p t = (st1, e)" by fastforce
  obtain out' where "set_members st1 now t ps = (st', out')" using Cons.prems s by (auto split: prod.splits)
  then show ?case using Cons.IH setIdx_evolves [OF s] idx_evolves_trans by blast
qed (simp add: idx_evolves_refl)

lemma clear_left_evolves: "clear_left st now t ps = (st', out) \<Longrightarrow> idx_evolves now st st'"
proof (induction ps arbitrary: st out)
  case (Cons p ps)
  obtain st1 e where s: "setIdx st now p 0 = (st1, e)" by fastforce
  have "(\<exists>o1. clear_left st now t ps = (st', o1)) \<or> (\<exists>o1. clear_left st1 now t ps = (st', o1))"
    using Cons.prems s by (auto split: prod.splits option.splits if_splits)
  then show ?case using Cons.IH setIdx_evolves [OF s] idx_evolves_trans by blast
qed (simp add: idx_evolves_refl)

lemma scriptCommit_evolves:
  assumes "scriptCommit st now a = (st', r)"
  shows "idx_evolves now st st'"
proof (cases "\<exists>ver out. r = ReplyOk ver out")
  case True
  then obtain ver out where ok: "scriptCommit st now a = (st', ReplyOk ver out)" using assms by auto
  let ?t = "ca_tid a"
  obtain st1 st2 st3 st4 out1 out2 where c:
    "st1 = put_record st now ?t ver (ca_record a)"
    "set_members st1 now ?t (ca_joined a @ ca_kept a) = (st2, out1)"
    "clear_left st2 now ?t (ca_left a) = (st3, out2)"
    "st4 = fold (\<lambda>p s. zrem s now p ?t) (ca_removed a) st3"
    "st' = fold (\<lambda>(p, score) s. zadd s now p ?t score) (ca_added a) st4"
    by (rule scriptCommit_ok [OF ok])
  have "idx_evolves now st st1" using put_record_frame c(1) by (intro idx_evolves_refl) simp
  moreover have "idx_evolves now st3 st'"
    using fold_zrem fold_zadd_frame c(4,5) by (intro idx_evolves_refl) simp
  ultimately show ?thesis
    using set_members_evolves [OF c(2)] clear_left_evolves [OF c(3)] idx_evolves_trans by blast
qed (use assms scriptCommit_refused idx_evolves_refl in blast)

lemma scriptHealOrphan_evolves: "scriptHealOrphan st now p t = (st', b) \<Longrightarrow> idx_evolves now st st'"
  by (auto simp: idx_evolves_def seen_le_def seen_index_alt scriptHealOrphan_def Let_def live_idx_def teamTTL_def
      split: option.splits if_splits)

lemma touch_evolves: "idx_evolves now st (fold (touch_idx now t) ps st)"
proof (induction ps arbitrary: st)
  case (Cons p ps)
  have "idx_evolves now st (touch_idx now t p st)"
    by (auto simp: idx_evolves_def seen_le_def seen_index_alt touch_idx_def live_idx_def teamTTL_def
        split: option.splits if_splits)
  then show ?case using Cons.IH [of "touch_idx now t p st"] idx_evolves_trans by auto
qed (simp add: idx_evolves_refl)

lemma scriptTouch_evolves:
  assumes "scriptTouch st now t ver info ps = (st', b)"
  shows "idx_evolves now st st'"
  using assms
proof (cases rule: scriptTouch_cases)
  case (renewed e st2)
  then show ?thesis using touch_evolves idx_evolves_trans idx_evolves_refl by blast
qed (simp add: idx_evolves_refl)

end
