(* ===== verification/TeamCommit.thy ===== *)
theory TeamCommit
  imports TeamRedis
begin

text \<open>
  From a \<open>Decision\<close> to the arguments of the commit script (\<open>go/match/internal/team/store.go\<close>):
  the projection, the set checks and the translation.  Every decision of the rules passes the checks,
  and what passes the checks makes the script keep the invariant of the store.
\<close>

section \<open>Definitions\<close>

definition projectionOf :: "TeamRecord \<Rightarrow> u64 \<times> u64 \<times> u64 list" where
  "projectionOf rec = (tr_team_id rec, tr_leader_id rec, MemberIds rec)"

definition buildCommitArgs :: "u64 \<Rightarrow> nat option \<Rightarrow> Decision \<Rightarrow> commit_args" where
  "buildCommitArgs teamId expectedVer d =
     \<lparr>ca_tid = teamId, ca_expected = expectedVer,
      ca_record = map_option (\<lambda>r. (r, projectionOf r)) (d_Record d),
      ca_joined = d_Joined d, ca_kept = d_Kept d, ca_left = d_Left d,
      ca_added = map (\<lambda>(invitee, expireAt). (invitee, unat expireAt)) (d_InvitesAdded d),
      ca_removed = d_InvitesRemoved d\<rparr>"

text \<open>Why a decision is refused.  The groups are visited in the random order of a Go map, so the two
  errors of that loop are one.\<close>

datatype sets_error =
    ErrTeamIdZero
  | ErrPeople
  | ErrDisbandMembers
  | ErrRecordTeam
  | ErrMemberSet
  | ErrLeaderMissing
  | ErrOverCapacity
  | ErrInvitesAdded
  | ErrInvitesRemoved

fun people_seen :: "u64 list \<Rightarrow> u64 list \<Rightarrow> bool" where
  "people_seen seen [] = True"
| "people_seen seen (p # ps) = (if p = 0 then False else if p \<in> set seen then False else people_seen (p # seen) ps)"

fun added_ok :: "u64 list \<Rightarrow> u64 list \<Rightarrow> bool" where
  "added_ok added [] = True"
| "added_ok added (p # ps) = (if p = 0 \<or> p \<in> set added then False else added_ok (p # added) ps)"

fun removed_ok :: "u64 list \<Rightarrow> u64 list \<Rightarrow> u64 list \<Rightarrow> bool" where
  "removed_ok added removed [] = True"
| "removed_ok added removed (p # ps) =
     (if p = 0 \<or> p \<in> set added \<or> p \<in> set removed then False else removed_ok added (p # removed) ps)"

definition validateCommitSets :: "u64 \<Rightarrow> Decision \<Rightarrow> sets_error option" where
  "validateCommitSets teamId d =
     (if teamId = 0 then Some ErrTeamIdZero
      else if \<not> people_seen [] (d_Joined d @ d_Kept d @ d_Left d) then Some ErrPeople
      else
        let recordErr =
          (case d_Record d of
             None \<Rightarrow> if length (d_Joined d) + length (d_Kept d) \<noteq> 0 then Some ErrDisbandMembers else None
           | Some r \<Rightarrow>
               if tr_team_id r \<noteq> teamId then Some ErrRecordTeam
               else if \<not> sameIdSet (MemberIds r) (d_Joined d @ d_Kept d) then Some ErrMemberSet
               else if FindMember r (tr_leader_id r) = None then Some ErrLeaderMissing
               else if length (tr_members r) > Capacity then Some ErrOverCapacity
               else None)
        in if recordErr \<noteq> None then recordErr
           else if \<not> added_ok [] (map fst (d_InvitesAdded d)) then Some ErrInvitesAdded
           else if \<not> removed_ok (map fst (d_InvitesAdded d)) [] (d_InvitesRemoved d) then Some ErrInvitesRemoved
           else None)"

section \<open>The loops\<close>

lemma people_seen_iff:
  "people_seen seen ps \<longleftrightarrow> distinct ps \<and> 0 \<notin> set ps \<and> set ps \<inter> set seen = {}"
  by (induction seen ps rule: people_seen.induct) auto

lemma added_ok_iff: "added_ok added ps \<longleftrightarrow> distinct ps \<and> 0 \<notin> set ps \<and> set ps \<inter> set added = {}"
  by (induction added ps rule: added_ok.induct) auto

lemma removed_ok_iff:
  "removed_ok added removed ps \<longleftrightarrow> distinct ps \<and> 0 \<notin> set ps \<and> set ps \<inter> (set added \<union> set removed) = {}"
  by (induction added removed ps rule: removed_ok.induct) auto

lemmas commit_loops = people_seen_iff added_ok_iff removed_ok_iff sameIdSet_iff mset_MemberIds

section \<open>Rules, checks and script agree\<close>

lemma contract_validates:
  assumes "team_wf orig" and "decision_contract orig d"
  shows "validateCommitSets (tr_team_id orig) d = None"
proof -
  have "0 \<notin> new_invitees d"
    using assms(2) by (auto simp: decision_contract_def team_wf_defs split: option.splits)
  then have inv: "added_ok [] (map fst (d_InvitesAdded d))" "removed_ok (map fst (d_InvitesAdded d)) [] (d_InvitesRemoved d)"
    using assms by (auto simp: decision_contract_def team_wf_defs commit_loops)
  have ppl: "people_seen [] (d_Joined d @ d_Kept d @ d_Left d)"
    using assms(2) by (auto simp: decision_contract_def commit_loops)
  have rec: "case d_Record d of None \<Rightarrow> d_Joined d = [] \<and> d_Kept d = []
      | Some r \<Rightarrow> team_wf r \<and> tr_team_id r = tr_team_id orig \<and> mset (member_ids r) = mset (d_Joined d @ d_Kept d)"
    using assms(2) by (simp add: decision_contract_def)
  show ?thesis
    using assms(1) inv ppl rec
    by (cases "d_Record d") (auto simp: validateCommitSets_def commit_loops team_wf_defs)
qed

lemma create_validates:
  assumes "d_Changed (applyCreate op rec now)"
  shows "validateCommitSets (op_NewTeamId op) (applyCreate op rec now) = None"
  using assms
  by (auto simp: validateCommitSets_def applyCreate_def reject_def decision_zero_def sameIdSet_iff MemberIds_def
      sortMembers_def FindMember_def Capacity_def split: if_splits)

lemma validated_args_ok:
  assumes "validateCommitSets t d = None" and "\<forall>r. d_Record d = Some r \<longrightarrow> team_wf r"
  shows "args_ok (buildCommitArgs t v d)"
proof -
  have m: "map fst (map (\<lambda>(i, e). (i, unat e)) xs) = map fst xs" for xs :: "(u64 \<times> u64) list"
    by (induction xs) auto
  have mem: "set (member_ids r) = set (d_Joined d @ d_Kept d)" if "mset (member_ids r) = mset (d_Joined d @ d_Kept d)" for r
    using that by (metis set_mset_mset)
  show ?thesis
    using assms mem
    by (auto simp: validateCommitSets_def args_ok_def buildCommitArgs_def commit_loops m Let_def simp del: map_map
        split: if_splits option.splits)
qed

end
