(* ===== verification/TeamSystem.thy ===== *)
theory TeamSystem
  imports TeamCommit
begin

text \<open>
  The team service as a concurrent system: any number of \<open>match\<close> instances run the read-decide-commit
  protocol of \<open>store.go\<close> against one Redis, whose scripts are atomic.  A state is the Redis content, its
  clock, and the history of committed records, a history variable that no operation reads.  A commit step
  may rest on any record read in the past, so every interleaving of the instances is a run.
\<close>

section \<open>States and atomic steps\<close>

record team_sys =
  sy_redis :: team_redis
  sy_now :: nat
  sy_log :: "u64 \<Rightarrow> nat \<rightharpoonup> TeamRecord"

text \<open>One run of the commit script.\<close>

definition exec_commit :: "commit_args \<Rightarrow> team_sys \<Rightarrow> commit_reply \<times> team_sys" where
  "exec_commit a s =
     (case scriptCommit (sy_redis s) (sy_now s) a of (st, r) \<Rightarrow>
        (r, s\<lparr>sy_redis := st,
              sy_log := (case (r, ca_record a) of
                 (ReplyOk v _, Some (pb, _)) \<Rightarrow> (sy_log s)(ca_tid a := (sy_log s (ca_tid a))(v \<mapsto> pb))
               | _ \<Rightarrow> sy_log s)\<rparr>))"

definition exec_heal :: "u64 \<Rightarrow> u64 \<Rightarrow> team_sys \<Rightarrow> bool \<times> team_sys" where
  "exec_heal p t s = (case scriptHealOrphan (sy_redis s) (sy_now s) p t of (st, b) \<Rightarrow> (b, s\<lparr>sy_redis := st\<rparr>))"

definition exec_touch :: "u64 \<Rightarrow> nat \<Rightarrow> TeamRecord \<Rightarrow> team_sys \<Rightarrow> bool \<times> team_sys" where
  "exec_touch t ver rec s =
     (case scriptTouch (sy_redis s) (sy_now s) t ver (projectionOf rec) (MemberIds rec) of (st, b) \<Rightarrow> (b, s\<lparr>sy_redis := st\<rparr>))"

definition exec_list :: "u64 \<Rightarrow> team_sys \<Rightarrow> (nat \<times> (u64 \<times> nat) list) \<times> team_sys" where
  "exec_list p s = (case scriptInviteList (sy_redis s) (sy_now s) p of (st, out) \<Rightarrow> (out, s\<lparr>sy_redis := st\<rparr>))"

definition exec_prune :: "u64 \<Rightarrow> u64 \<Rightarrow> nat \<Rightarrow> team_sys \<Rightarrow> bool \<times> team_sys" where
  "exec_prune p t score s =
     (case scriptInvitePrune (sy_redis s) (sy_now s) p t score of (st, b) \<Rightarrow> (b, s\<lparr>sy_redis := st\<rparr>))"

text \<open>The decisions the service takes on a record: a roster operation, the repair of members whose
  index went elsewhere, the match lock and its release.  The counter of \<open>join_seq\<close> has \<open>2^64\<close> values;
  an operation on a record that has used them all is left out.\<close>

inductive decides :: "TeamRecord \<Rightarrow> Decision \<Rightarrow> bool" where
  by_rule: "op_Caller op \<noteq> 0 \<Longrightarrow> tr_next_join_seq r \<noteq> - 1 \<Longrightarrow> d = Apply op (Some r) now ss cfg \<Longrightarrow> d_Changed d \<Longrightarrow> decides r d"
| by_repair: "d = RepairRemoveMembers (Some r) ps now ss \<Longrightarrow> d_Changed d \<Longrightarrow> decides r d"
| by_lock: "d = LockMatch (Some r) caller token roster expireAt now \<Longrightarrow> d_Changed d \<Longrightarrow> decides r d"
| by_release: "d = ReleaseMatchLock (Some r) token ok now ss \<Longrightarrow> d_Changed d \<Longrightarrow> decides r d"

inductive team_step :: "team_sys \<Rightarrow> team_sys \<Rightarrow> bool" where
  tick: "sy_now s \<le> n \<Longrightarrow> team_step s (s\<lparr>sy_now := n\<rparr>)"
| commit: "sy_log s t v = Some r \<Longrightarrow> decides r d \<Longrightarrow>
    exec_commit (buildCommitArgs t (Some v) d) s = (reply, s') \<Longrightarrow> team_step s s'"
| create: "\<forall>v. sy_log s (op_NewTeamId op) v = None \<Longrightarrow> d = applyCreate op None now \<Longrightarrow> d_Changed d \<Longrightarrow>
    exec_commit (buildCommitArgs (op_NewTeamId op) None d) s = (reply, s') \<Longrightarrow> team_step s s'"
| touch: "sy_log s t v = Some r \<Longrightarrow> exec_touch t v r s = (b, s') \<Longrightarrow> team_step s s'"
| heal: "exec_heal p t s = (b, s') \<Longrightarrow> team_step s s'"
| list: "exec_list p s = (out, s') \<Longrightarrow> team_step s s'"
| prune: "exec_prune p t score s = (b, s') \<Longrightarrow> team_step s s'"

section \<open>Invariant\<close>

lemma decides_contract: "decides r d \<Longrightarrow> team_wf r \<Longrightarrow> decision_contract r d"
  by (induction rule: decides.induct)
     (auto intro: Apply_keeps_contract Repair_keeps_contract LockMatch_keeps_contract Release_keeps_contract)

lemma decides_args_ok:
  assumes "decides r d" and "team_wf r"
  shows "args_ok (buildCommitArgs (tr_team_id r) v d)"
proof (rule validated_args_ok)
  show "validateCommitSets (tr_team_id r) d = None"
    using assms decides_contract contract_validates by blast
  show "\<forall>r'. d_Record d = Some r' \<longrightarrow> team_wf r'"
    using decides_contract [OF assms] by (auto simp: decision_contract_def)
qed

lemma create_args_ok:
  assumes "d_Changed (applyCreate op None now)"
  shows "args_ok (buildCommitArgs (op_NewTeamId op) v (applyCreate op None now))"
  using validated_args_ok [OF create_validates [OF assms]] applyCreate_wf [OF assms]
  by (metis option.inject)

text \<open>History: committed records are well-formed; the live record of a team is its newest version; the
  first version was created, and every later one was decided on the version right before it.\<close>

definition log_ok :: "team_sys \<Rightarrow> bool" where
  "log_ok s \<longleftrightarrow> (\<forall>t v r. sy_log s t v = Some r \<longrightarrow> 1 \<le> v \<and> team_wf r \<and> tr_team_id r = t \<and>
     (v = 1 \<and> (\<exists>op now. r = the (d_Record (applyCreate op None now)) \<and> op_NewTeamId op = t) \<or>
      (\<exists>r0 d. sy_log s t (v - 1) = Some r0 \<and> decides r0 d \<and> d_Record d = Some r)))"

definition current :: "team_sys \<Rightarrow> u64 \<rightharpoonup> nat \<times> TeamRecord" where
  "current s t = map_option (\<lambda>e. (re_ver e, re_pb e)) (live_rec (sy_redis s) (sy_now s) t)"

definition newest_ok :: "team_sys \<Rightarrow> bool" where
  "newest_ok s \<longleftrightarrow> (\<forall>t v r. current s t = Some (v, r) \<longrightarrow> sy_log s t v = Some r \<and> (\<forall>w > v. sy_log s t w = None))"

definition sys_inv :: "team_sys \<Rightarrow> bool" where
  "sys_inv s \<longleftrightarrow> redis_inv (sy_redis s) (sy_now s) \<and> log_ok s \<and> newest_ok s"

definition sys_start :: "team_sys \<Rightarrow> bool" where
  "sys_start s \<longleftrightarrow> sy_redis s = \<lparr>rd_rec = Map.empty, rd_proj = Map.empty, rd_idx = Map.empty, rd_inv = Map.empty\<rparr> \<and>
     (\<forall>t v. sy_log s t v = None)"

text \<open>What a successful commit does to record and history.\<close>

lemma exec_commit_cases:
  assumes "exec_commit (buildCommitArgs t ev d) s = (reply, s')"
  obtains (refused) "sy_redis s' = sy_redis s" "sy_log s' = sy_log s" "sy_now s' = sy_now s" "\<forall>ver out. reply \<noteq> ReplyOk ver out"
  | (written) ver out where "reply = ReplyOk ver out" "sy_now s' = sy_now s"
      "map_option fst (current s t) = ev" "ver = (case ev of None \<Rightarrow> 0 | Some v \<Rightarrow> v) + 1"
      "current s' = (current s)(t := map_option (Pair ver) (d_Record d))"
      "sy_log s' = (case d_Record d of None \<Rightarrow> sy_log s | Some r \<Rightarrow> (sy_log s)(t := (sy_log s t)(ver \<mapsto> r)))"
proof -
  let ?a = "buildCommitArgs t ev d"
  obtain st' where sc: "scriptCommit (sy_redis s) (sy_now s) ?a = (st', reply)" and s': "sy_redis s' = st'" "sy_now s' = sy_now s"
    and lg: "sy_log s' = (case (reply, ca_record ?a) of
                 (ReplyOk v _, Some (pb, _)) \<Rightarrow> (sy_log s)(ca_tid ?a := (sy_log s (ca_tid ?a))(v \<mapsto> pb))
               | _ \<Rightarrow> sy_log s)"
    using assms by (auto simp: exec_commit_def split: prod.splits)
  show ?thesis
  proof (cases "\<exists>ver out. reply = ReplyOk ver out")
    case True
    then obtain ver out where r: "reply = ReplyOk ver out" by blast
    obtain st1 st2 st3 st4 out1 out2 where c:
      "map_option re_ver (live_rec (sy_redis s) (sy_now s) (ca_tid ?a)) = ca_expected ?a"
      "ver = (case ca_expected ?a of None \<Rightarrow> 0 | Some v \<Rightarrow> v) + 1"
      "st1 = put_record (sy_redis s) (sy_now s) (ca_tid ?a) ver (ca_record ?a)"
      "set_members st1 (sy_now s) (ca_tid ?a) (ca_joined ?a @ ca_kept ?a) = (st2, out1)"
      "clear_left st2 (sy_now s) (ca_tid ?a) (ca_left ?a) = (st3, out2)"
      "st4 = fold (\<lambda>p s'. zrem s' (sy_now s) p (ca_tid ?a)) (ca_removed ?a) st3"
      "st' = fold (\<lambda>(p, score) s'. zadd s' (sy_now s) p (ca_tid ?a) score) (ca_added ?a) st4"
      by (rule scriptCommit_ok [OF sc [unfolded r]])
    have "rd_rec st' = rd_rec st1"
      using set_members_frame [OF c(4)] clear_left_frame [OF c(5)] c(6,7) fold_zrem fold_zadd_frame by simp
    then have "current s' u = ((current s)(t := map_option (Pair ver) (d_Record d))) u" for u
      using put_record_frame [of "sy_redis s" "sy_now s" t ver "ca_record ?a"] c(3) s'
      by (cases "d_Record d") (simp_all add: current_def live_rec_def buildCommitArgs_def teamTTL_def)
    then have "current s' = (current s)(t := map_option (Pair ver) (d_Record d))" ..
    moreover have "map_option fst (current s t) = ev"
      using c(1) by (simp add: current_def buildCommitArgs_def option.map_comp comp_def)
    ultimately show ?thesis
      using r c(2) lg s' by (intro written [of ver out]) (simp_all add: buildCommitArgs_def split: option.splits)
  next
    case False
    then show ?thesis
      using scriptCommit_refused [OF sc] lg s' by (intro refused) (auto split: commit_reply.splits)
  qed
qed

lemma exec_commit_redis:
  assumes "exec_commit a s = (reply, s')" and "redis_inv (sy_redis s) (sy_now s)" and "args_ok a"
  shows "redis_inv (sy_redis s') (sy_now s')"
  using assms by (auto simp: exec_commit_def split: prod.splits intro: scriptCommit_keeps)

text \<open>The scripts other than the commit leave history and current versions alone.\<close>

lemma exec_other:
  "exec_heal p t s = (b, s') \<Longrightarrow> current s' = current s \<and> sy_log s' = sy_log s \<and> sy_now s' = sy_now s"
  "exec_list p s = (out, s') \<Longrightarrow> current s' = current s \<and> sy_log s' = sy_log s \<and> sy_now s' = sy_now s"
  "exec_prune p t score s = (b, s') \<Longrightarrow> current s' = current s \<and> sy_log s' = sy_log s \<and> sy_now s' = sy_now s"
  by (auto simp: exec_heal_def exec_list_def exec_prune_def scriptHealOrphan_def scriptInviteList_def
      scriptInvitePrune_def zrem_def Let_def current_def live_rec_def fun_eq_iff split: option.splits if_splits)

lemma exec_touch_other:
  assumes "exec_touch t v r s = (b, s')"
  shows "current s' = current s \<and> sy_log s' = sy_log s \<and> sy_now s' = sy_now s"
proof -
  obtain st where st: "scriptTouch (sy_redis s) (sy_now s) t v (projectionOf r) (MemberIds r) = (st, b)"
    "s' = s\<lparr>sy_redis := st\<rparr>"
    using assms by (auto simp: exec_touch_def split: prod.splits)
  have "map_option (\<lambda>e. (re_ver e, re_pb e)) (live_rec st (sy_now s) u) =
      map_option (\<lambda>e. (re_ver e, re_pb e)) (live_rec (sy_redis s) (sy_now s) u)" for u
    using scriptTouch_recs [OF st(1)] by blast
  then show ?thesis by (auto simp: st(2) current_def fun_eq_iff)
qed

lemma log_ok_later: "log_ok s \<Longrightarrow> log_ok (s\<lparr>sy_now := n\<rparr>)"
  by (simp add: log_ok_def)

lemma log_ok_same: "log_ok s \<Longrightarrow> sy_log s' = sy_log s \<Longrightarrow> log_ok s'"
  by (simp add: log_ok_def)

lemma newest_ok_same: "newest_ok s \<Longrightarrow> current s' = current s \<Longrightarrow> sy_log s' = sy_log s \<Longrightarrow> newest_ok s'"
  by (simp add: newest_ok_def)

text \<open>Extending the history of one team by the version that follows its newest one.\<close>

lemma log_extend:
  assumes "log_ok s" and "newest_ok s" and "team_wf r'" and "tr_team_id r' = t"
    and "sy_log s' = (sy_log s)(t := (sy_log s t)(v + 1 \<mapsto> r'))" and "current s' = (current s)(t \<mapsto> (v + 1, r'))"
    and "\<forall>w > v. sy_log s t w = None"
    and "v = 0 \<and> (\<exists>op now. r' = the (d_Record (applyCreate op None now)) \<and> op_NewTeamId op = t) \<or>
         (\<exists>r d. sy_log s t v = Some r \<and> decides r d \<and> d_Record d = Some r')"
  shows "log_ok s' \<and> newest_ok s'"
proof
  show "log_ok s'"
    unfolding log_ok_def
  proof (intro allI impI)
    fix u w r assume r: "sy_log s' u w = Some r"
    let ?ok = "\<lambda>L. 1 \<le> w \<and> team_wf r \<and> tr_team_id r = u \<and>
      (w = 1 \<and> (\<exists>op now. r = the (d_Record (applyCreate op None now)) \<and> op_NewTeamId op = u) \<or>
       (\<exists>r0 d. L u (w - 1) = Some r0 \<and> decides r0 d \<and> d_Record d = Some r))"
    show "?ok (sy_log s')"
    proof (cases "u = t \<and> w = v + 1")
      case True
      then have "r = r'" using r assms(5) by simp
      then show ?thesis using True assms(3,4,8) by (auto simp: assms(5))
    next
      case False
      then have old: "sy_log s u w = Some r" using r assms(5) by (auto split: if_splits)
      then have "?ok (sy_log s)" using assms(1) unfolding log_ok_def by blast
      moreover have "w - 1 \<noteq> v + 1" if "u = t"
      proof
        assume "w - 1 = v + 1"
        then have "v < w" by simp
        then show False using assms(7) old that by simp
      qed
      ultimately show ?thesis by (auto simp: assms(5))
    qed
  qed
  show "newest_ok s'"
    using assms(2,5,6,7) by (auto simp: newest_ok_def split: if_splits)
qed

lemma commit_log:
  assumes "log_ok s" and "newest_ok s" and "exec_commit (buildCommitArgs t ev d) s = (reply, s')"
    and "\<forall>v. ev = Some v \<longrightarrow> (\<exists>r. sy_log s t v = Some r \<and> decides r d)"
    and "ev = None \<longrightarrow> (\<forall>v. sy_log s t v = None) \<and> (\<exists>op now. d = applyCreate op None now \<and> op_NewTeamId op = t)"
    and "\<forall>r'. d_Record d = Some r' \<longrightarrow> team_wf r' \<and> tr_team_id r' = t"
  shows "log_ok s' \<and> newest_ok s'"
  using assms(3)
proof (cases rule: exec_commit_cases)
  case refused
  then have "current s' = current s" by (simp add: current_def fun_eq_iff)
  then show ?thesis using assms(1,2) refused log_ok_same newest_ok_same by blast
next
  case (written ver out)
  let ?v = "case ev of None \<Rightarrow> 0 | Some v \<Rightarrow> v"
  have above: "\<forall>w > ?v. sy_log s t w = None"
    using assms(2,5) written(3) by (auto simp: newest_ok_def split: option.splits)
  show ?thesis
  proof (cases "d_Record d")
    case None
    then show ?thesis
      using assms(1,2) written by (auto simp: newest_ok_def intro: log_ok_same split: if_splits)
  next
    case (Some r')
    show ?thesis
    proof (rule log_extend [OF assms(1,2), of r' t _ "?v"])
      show "?v = 0 \<and> (\<exists>op now. r' = the (d_Record (applyCreate op None now)) \<and> op_NewTeamId op = t) \<or>
         (\<exists>r d. sy_log s t ?v = Some r \<and> decides r d \<and> d_Record d = Some r')"
      proof (cases ev)
        case None
        then obtain op now where "d = applyCreate op None now" "op_NewTeamId op = t" using assms(5) by blast
        then have "r' = the (d_Record (applyCreate op None now)) \<and> op_NewTeamId op = t" using Some by simp
        then show ?thesis using None by auto
      next
        case (Some v)
        then show ?thesis using assms(4) \<open>d_Record d = Some r'\<close> by auto
      qed
    qed (use assms(6) Some written above in simp_all)
  qed
qed

lemma sys_inv_step:
  assumes "sys_inv s" and "team_step s s'"
  shows "sys_inv s'"
  using assms(2,1)
proof (induction rule: team_step.induct)
  case (tick s n)
  have "current s t = Some x" if "current (s\<lparr>sy_now := n\<rparr>) t = Some x" for t x
    using that live_rec_mono [OF tick(1), of "sy_redis s" t] by (auto simp: current_def)
  then have "newest_ok (s\<lparr>sy_now := n\<rparr>)"
    using tick(2) by (simp add: sys_inv_def newest_ok_def)
  then show ?case
    using tick redis_inv_later [OF _ tick(1), of "sy_redis s"] log_ok_later by (simp add: sys_inv_def)
next
  case (commit s t v r d reply s')
  have r: "team_wf r" "tr_team_id r = t" using commit(1,4) by (auto simp: sys_inv_def log_ok_def)
  have rec: "\<forall>r'. d_Record d = Some r' \<longrightarrow> team_wf r' \<and> tr_team_id r' = t"
    using decides_contract [OF commit(2) r(1)] r(2) by (auto simp: decision_contract_def)
  have "redis_inv (sy_redis s') (sy_now s')"
    using exec_commit_redis [OF commit(3)] decides_args_ok [OF commit(2) r(1)] r(2) commit(4) by (simp add: sys_inv_def)
  moreover have "log_ok s' \<and> newest_ok s'"
    using commit_log [OF _ _ commit(3)] rec commit by (auto simp: sys_inv_def)
  ultimately show ?case by (simp add: sys_inv_def)
next
  case (create s op d now reply s')
  have rec: "\<forall>r'. d_Record d = Some r' \<longrightarrow> team_wf r' \<and> tr_team_id r' = op_NewTeamId op"
    using create(2,3) by (auto elim!: applyCreate_wf)
  have "redis_inv (sy_redis s') (sy_now s')"
    using exec_commit_redis [OF create(4)] create_args_ok create(2,3,5) by (simp add: sys_inv_def)
  moreover have "log_ok s' \<and> newest_ok s'"
    using commit_log [OF _ _ create(4)] rec create by (auto simp: sys_inv_def)
  ultimately show ?case by (simp add: sys_inv_def)
next
  case (touch s t v r b s')
  have "redis_inv (sy_redis s') (sy_now s')"
  proof -
    obtain st where st: "scriptTouch (sy_redis s) (sy_now s) t v (projectionOf r) (MemberIds r) = (st, b)"
      "s' = s\<lparr>sy_redis := st\<rparr>"
      using touch(2) by (auto simp: exec_touch_def split: prod.splits)
    have "redis_inv st (sy_now s)"
    proof (rule scriptTouch_keeps [OF _ st(1)])
      fix e assume "live_rec (sy_redis s) (sy_now s) t = Some e" "re_ver e = v"
      then have "sy_log s t v = Some (re_pb e)"
        using touch(3) by (auto simp: sys_inv_def newest_ok_def current_def)
      then show "set (member_ids (re_pb e)) \<subseteq> set (MemberIds r)" using touch(1) by simp
    qed (use touch(3) in \<open>simp add: sys_inv_def\<close>)
    then show ?thesis using st(2) by simp
  qed
  then show ?case
    using touch(3) exec_touch_other [OF touch(2)] log_ok_same newest_ok_same unfolding sys_inv_def by blast
next
  case (heal p t s b s')
  have "redis_inv (sy_redis s') (sy_now s')"
    using heal scriptHealOrphan_keeps by (auto simp: exec_heal_def sys_inv_def split: prod.splits)
  then show ?case using heal(2) exec_other(1) [OF heal(1)] log_ok_same newest_ok_same unfolding sys_inv_def by blast
next
  case (list p s out s')
  have "redis_inv (sy_redis s') (sy_now s')"
    using list by (auto simp: exec_list_def sys_inv_def split: prod.splits intro: scriptInviteList_keeps [of _ _ p _ out])
  then show ?case using list(2) exec_other(2) [OF list(1)] log_ok_same newest_ok_same unfolding sys_inv_def by blast
next
  case (prune p t score s b s')
  have "redis_inv (sy_redis s') (sy_now s')"
    using prune scriptInvitePrune_keeps by (auto simp: exec_prune_def sys_inv_def split: prod.splits)
  then show ?case using prune(2) exec_other(3) [OF prune(1)] log_ok_same newest_ok_same unfolding sys_inv_def by blast
qed

lemma sys_inv_start: "sys_start s \<Longrightarrow> sys_inv s"
  by (simp add: sys_start_def sys_inv_def redis_inv_def recs_ok_def idx_ok_def inv_ok_def log_ok_def newest_ok_def
      current_def live_rec_def scores_def)

interpretation ts: invariant_system sys_start team_step sys_inv
  by unfold_locales (auto intro: sys_inv_start sys_inv_step)

section \<open>Refinement\<close>

text \<open>The abstract service: a map from teams to version and record, changed atomically by one decision on
  the record as it is now.\<close>

inductive spec_step :: "(u64 \<rightharpoonup> nat \<times> TeamRecord) \<Rightarrow> (u64 \<rightharpoonup> nat \<times> TeamRecord) \<Rightarrow> bool" where
  expire: "A' \<subseteq>\<^sub>m A \<Longrightarrow> spec_step A A'"
| update: "A t = Some (v, r) \<Longrightarrow> decides r d \<Longrightarrow> spec_step A (A(t := map_option (Pair (v + 1)) (d_Record d)))"
| new: "A (op_NewTeamId op) = None \<Longrightarrow> d_Record (applyCreate op None now) = Some r \<Longrightarrow>
    spec_step A (A(op_NewTeamId op \<mapsto> (1, r)))"

lemma spec_stutter: "current s' = current s \<Longrightarrow> spec_step (current s) (current s')"
  by (rule expire) simp

lemma step_refines:
  assumes "sys_inv s" and "team_step s s'"
  shows "spec_step (current s) (current s')"
  using assms(2,1)
proof (induction rule: team_step.induct)
  case (tick s n)
  have "current (s\<lparr>sy_now := n\<rparr>) \<subseteq>\<^sub>m current s"
    using live_rec_mono [OF tick(1), of "sy_redis s"] by (fastforce simp: map_le_def dom_def current_def)
  then show ?case by (rule expire)
next
  case (commit s t v r d reply s')
  from commit(3) show ?case
  proof (cases rule: exec_commit_cases)
    case refused
    then show ?thesis by (intro spec_stutter) (simp add: current_def fun_eq_iff)
  next
    case (written ver out)
    then obtain r0 where r0: "current s t = Some (v, r0)" by auto
    then have "r0 = r" using commit(1,4) by (auto simp: sys_inv_def newest_ok_def)
    then have "spec_step (current s) ((current s)(t := map_option (Pair (v + 1)) (d_Record d)))"
      using update commit(2) r0 by blast
    then show ?thesis by (simp only: written(4,5) option.case)
  qed
next
  case (create s op d now reply s')
  from create(4) show ?case
  proof (cases rule: exec_commit_cases)
    case refused
    then show ?thesis by (intro spec_stutter) (simp add: current_def fun_eq_iff)
  next
    case (written ver out)
    obtain r where "d_Record d = Some r" using create(2,3) by (auto elim: applyCreate_wf)
    then have "spec_step (current s) ((current s)(op_NewTeamId op \<mapsto> (1, r)))"
      using new [of "current s" op now r] written(3) create(2) by simp
    then show ?thesis by (simp only: written(4,5) option.case \<open>d_Record d = Some r\<close> option.map add_0)
  qed
qed (auto intro!: spec_stutter simp: exec_other exec_touch_other)

lemma steps_refine:
  assumes "sys_inv s" and "team_step\<^sup>*\<^sup>* s s'"
  shows "spec_step\<^sup>*\<^sup>* (current s) (current s')"
  using assms(2)
proof (induction rule: rtranclp_induct)
  case (step s1 s2)
  have "sys_inv s1" using ts.inv_steps [OF step(1) assms(1)] .
  then show ?case using step_refines [OF _ step(2)] step.IH by (meson rtranclp.rtrancl_into_rtrancl)
qed simp





section \<open>Properties\<close>

text \<open>A concrete run for the witnesses: player 7 founds team 100.\<close>

definition demo_start :: team_sys where
  "demo_start = \<lparr>sy_redis = \<lparr>rd_rec = Map.empty, rd_proj = Map.empty, rd_idx = Map.empty, rd_inv = Map.empty\<rparr>,
     sy_now = 1000, sy_log = (\<lambda>_. Map.empty)\<rparr>"

definition demo_found :: Op where
  "demo_found = CreateOp 7 100 1"

definition demo_created :: team_sys where
  "demo_created = snd (exec_commit (buildCommitArgs 100 None (applyCreate demo_found None 1000)) demo_start)"

lemma demo_start: "sys_start demo_start"
  by (simp add: sys_start_def demo_start_def)

lemmas demo_eval = demo_created_def demo_start_def demo_found_def CreateOp_def applyCreate_def op_zero_def
  decision_zero_def buildCommitArgs_def exec_commit_def scriptCommit_def Let_def live_rec_def put_record_def
  setIdx_def live_idx_def teamTTL_def projectionOf_def in_other_team_def

lemma demo_step: "team_step demo_start demo_created"
proof -
  have "op_NewTeamId demo_found = 100" "d_Changed (applyCreate demo_found None 1000)"
    by (simp_all add: demo_found_def CreateOp_def applyCreate_def op_zero_def decision_zero_def)
  then show ?thesis
    using create [of demo_start demo_found "applyCreate demo_found None 1000" 1000]
    by (simp add: demo_start_def demo_created_def prod_eq_iff)
qed

lemma demo_reached: "team_step\<^sup>*\<^sup>* demo_start demo_created"
  using demo_step by (rule r_into_rtranclp)

text \<open>
  Property C5.  A player belongs to at most one team: in every state the service can reach, whatever
  the interleaving of its instances, no two live team records share a member, every live record is
  well-formed, and the index of each member points to the team.
\<close>

theorem one_team_per_player:
  assumes "sys_start s0" and "team_step\<^sup>*\<^sup>* s0 s" and "current s t = Some (v, r)" and "p \<in> set (member_ids r)"
  shows "team_wf r \<and> tr_team_id r = t \<and> map_option ix_tid (live_idx (sy_redis s) (sy_now s) p) = Some t \<and>
    (\<forall>u w q. current s u = Some (w, q) \<and> p \<in> set (member_ids q) \<longrightarrow> u = t)"
proof -
  have inv: "redis_inv (sy_redis s) (sy_now s)" using ts.inv_reachable [OF assms(1,2)] by (simp add: sys_inv_def)
  have idx: "map_option ix_tid (live_idx (sy_redis s) (sy_now s) p) = Some u"
    if cur: "current s u = Some (w, q)" and mem: "p \<in> set (member_ids q)" for u w q
  proof -
    obtain e where e: "live_rec (sy_redis s) (sy_now s) u = Some e" "q = re_pb e" using cur by (auto simp: current_def)
    obtain i where "live_idx (sy_redis s) (sy_now s) p = Some i" "ix_tid i = u"
      using idx_ok_live [of "sy_redis s" "sy_now s" u e p] inv e mem by (auto simp: redis_inv_def)
    then show ?thesis by simp
  qed
  moreover have "team_wf r \<and> tr_team_id r = t"
    using inv assms(3) by (auto simp: redis_inv_def recs_ok_def current_def)
  ultimately show ?thesis using assms(3,4) by (metis option.inject)
qed

theorem one_team_per_player_witness:
  "\<exists>r. current demo_created 100 = Some (1, r) \<and> 7 \<in> set (member_ids r) \<and>
     map_option ix_tid (live_idx (sy_redis demo_created) (sy_now demo_created) 7) = Some 100"
proof -
  obtain r where r: "current demo_created 100 = Some (1, r)" "7 \<in> set (member_ids r)"
    by (simp add: demo_eval current_def live_rec_def)
  then show ?thesis using one_team_per_player [OF demo_start demo_reached r] by blast
qed

text \<open>
  Property C6.  The service behaves like a single atomic table of teams: every step of every
  interleaving either leaves the current records alone, lets some expire, creates a new team, or
  replaces exactly one record by what the rules decide on that very record, with the version going up
  by one.  So no update is lost: each version in the history was decided on the version before it.
\<close>

theorem service_refines_atomic_spec:
  assumes "sys_start s0" and "team_step\<^sup>*\<^sup>* s0 s" and "team_step s s'"
  shows "spec_step (current s) (current s') \<and>
    (\<forall>t v r. sy_log s t v = Some r \<longrightarrow> 1 < v \<longrightarrow>
       (\<exists>r0 d. sy_log s t (v - 1) = Some r0 \<and> decides r0 d \<and> d_Record d = Some r)) \<and>
    (\<forall>t v r. current s t = Some (v, r) \<longrightarrow> sy_log s t v = Some r \<and> (\<forall>w > v. sy_log s t w = None))"
proof -
  have inv: "sys_inv s" using ts.inv_reachable [OF assms(1,2)] .
  then have "\<exists>r0 d. sy_log s t (v - 1) = Some r0 \<and> decides r0 d \<and> d_Record d = Some r"
    if "sy_log s t v = Some r" "1 < v" for t v r
    using that unfolding sys_inv_def log_ok_def by fastforce
  then show ?thesis using step_refines [OF inv assms(3)] inv by (auto simp: sys_inv_def newest_ok_def)
qed

theorem service_refines_atomic_spec_witness:
  "spec_step (current demo_created) (current (demo_created\<lparr>sy_now := 5000\<rparr>))"
proof -
  have "team_step demo_created (demo_created\<lparr>sy_now := 5000\<rparr>)"
    by (rule tick) (simp add: demo_created_def demo_start_def exec_commit_def split: prod.split)
  then show ?thesis using service_refines_atomic_spec [OF demo_start demo_reached] by blast
qed



text \<open>
  Property C32.  A player never has more than ten pending invites: in every reachable state the
  invite index of each player holds at most ten entries, one per team, and listing them returns
  exactly those that have not expired, earliest first.
\<close>

theorem invites_are_capped:
  assumes "sys_start s0" and "team_step\<^sup>*\<^sup>* s0 s"
  shows "length (scores (sy_redis s) (sy_now s) p) \<le> MaxPendingInvitesPerInvitee \<and>
    distinct (map fst (scores (sy_redis s) (sy_now s) p)) \<and>
    (case exec_list p s of ((now, out), s') \<Rightarrow>
       mset out = mset (filter (\<lambda>(t, e). sy_now s < e) (scores (sy_redis s) (sy_now s) p)) \<and>
       sorted (map snd out) \<and> set (scores (sy_redis s') (sy_now s') p) = set out)"
proof -
  have "inv_ok (sy_redis s) (sy_now s)"
    using ts.inv_reachable [OF assms] by (simp add: sys_inv_def redis_inv_def)
  moreover have "sorted (map snd (sort_key (\<lambda>(t, s). s) xs))" for xs :: "(u64 \<times> nat) list"
    using sorted_sort_key [of "\<lambda>(t, s). s" xs] by (simp add: case_prod_beta')
  ultimately show ?thesis
    by (auto simp: inv_ok_def exec_list_def scriptInviteList_def Let_def scores_def split: option.splits)
qed

theorem invites_are_capped_witness:
  "length (scores (sy_redis demo_created) (sy_now demo_created) 7) \<le> MaxPendingInvitesPerInvitee"
  using invites_are_capped [OF demo_start demo_reached, of 7] by simp

end
