(* ===== verification/TeamStore.thy ===== *)
theory TeamStore
  imports TeamSystem
begin

text \<open>
  The store of \<open>go/match/internal/team/store.go\<close> on its Redis back end: the loops that read, decide,
  commit and retry.  Every Redis call takes its surroundings from an environment: what other instances
  did before it, whether the script ran and whether the answer arrived, the sessions read right after
  it and whether the request's context has ended.  A call may also be sent twice by the client library.
\<close>

section \<open>Calls\<close>

datatype call_fate = Answered | NotSent | LostReply | Resent

record call_env =
  ce_others :: "team_sys \<Rightarrow> team_sys"
  ce_fate :: call_fate
  ce_sessions :: Sessions
  ce_ctxErr :: bool

record world =
  wd_sys :: team_sys
  wd_calls :: nat

datatype store_error =
    ErrRedis
  | ErrSets sets_error
  | ErrNoSnapshot
  | ErrRepairIndex nat nat
  | ErrRepairDiverged "u64 list"
  | ErrUnexpectedStatus
  | ErrUnstableRead
  | ErrMembersChanged

definition evalCtx :: "(nat \<Rightarrow> call_env) \<Rightarrow> (team_sys \<Rightarrow> 'a \<times> team_sys) \<Rightarrow> world \<Rightarrow> (store_error + 'a) \<times> world" where
  "evalCtx ev script w =
     (let e = ev (wd_calls w); s = ce_others e (wd_sys w);
          after = (\<lambda>s'. \<lparr>wd_sys = s', wd_calls = wd_calls w + 1\<rparr>)
      in case ce_fate e of
           Answered \<Rightarrow> (case script s of (x, s') \<Rightarrow> (Inr x, after s'))
         | NotSent \<Rightarrow> (Inl ErrRedis, after s)
         | LostReply \<Rightarrow> (case script s of (x, s') \<Rightarrow> (Inl ErrRedis, after s'))
         | Resent \<Rightarrow> (case script s of (_, s') \<Rightarrow> case script s' of (x, s'') \<Rightarrow> (Inr x, after s'')))"

section \<open>Snapshots\<close>

definition TouchThresholdSeconds :: int where "TouchThresholdSeconds = 43200"
definition CommitRetries :: nat where "CommitRetries = 3"
definition freeReadRetries :: nat where "freeReadRetries = 3"
definition readMembersRetries :: nat where "readMembersRetries = 3"

datatype bindMode = bindModeCaller | bindModeTarget | bindModeCreate

record Binding =
  bi_mode :: bindMode
  bi_playerId :: u64
  bi_teamId :: u64

definition BindCaller :: "u64 \<Rightarrow> u64 \<Rightarrow> Binding" where
  "BindCaller playerId expectedTeamId = \<lparr>bi_mode = bindModeCaller, bi_playerId = playerId, bi_teamId = expectedTeamId\<rparr>"

definition BindTarget :: "u64 \<Rightarrow> u64 \<Rightarrow> Binding" where
  "BindTarget playerId teamId = \<lparr>bi_mode = bindModeTarget, bi_playerId = playerId, bi_teamId = teamId\<rparr>"

definition BindCreate :: "u64 \<Rightarrow> u64 \<Rightarrow> Binding" where
  "BindCreate playerId newTeamId = \<lparr>bi_mode = bindModeCreate, bi_playerId = playerId, bi_teamId = newTeamId\<rparr>"

record Snapshot =
  sn_PlayerId :: u64
  sn_PlayerTeamId :: u64
  sn_PlayerEpoch :: nat
  sn_TeamId :: u64
  sn_Version :: nat
  sn_Record :: "TeamRecord option"
  sn_RecordTTLSeconds :: int
  sn_NowMs :: nat

definition snapshot_zero :: Snapshot where
  "snapshot_zero = \<lparr>sn_PlayerId = 0, sn_PlayerTeamId = 0, sn_PlayerEpoch = 0, sn_TeamId = 0, sn_Version = 0,
     sn_Record = None, sn_RecordTTLSeconds = 0, sn_NowMs = 0\<rparr>"

type_synonym IndexEntry = "u64 \<times> nat"

datatype Outcome =
    OutcomeUnset
  | OutcomeCommitted
  | OutcomeUnchanged
  | OutcomeRejected
  | OutcomeNotBound
  | OutcomeRecordMissing

record CommitResult =
  cr_TeamId :: u64
  cr_Version :: nat
  cr_Decision :: Decision
  cr_Indexes :: "u64 \<rightharpoonup> IndexEntry"
  cr_NowMs :: nat

record MutateResult =
  mr_Outcome :: Outcome
  mr_Code :: u32
  mr_CodeParam :: u64
  mr_Snapshot :: Snapshot
  mr_Decision :: Decision
  mr_Commit :: "CommitResult option"
  mr_Repairs :: "CommitResult list"
  mr_HealedOrphan :: bool
  mr_Conflicts :: nat

definition mutate_zero :: MutateResult where
  "mutate_zero = \<lparr>mr_Outcome = OutcomeUnset, mr_Code = 0, mr_CodeParam = 0, mr_Snapshot = snapshot_zero,
     mr_Decision = decision_zero, mr_Commit = None, mr_Repairs = [], mr_HealedOrphan = False, mr_Conflicts = 0\<rparr>"

definition rejected :: "MutateResult \<Rightarrow> u32 \<Rightarrow> u64 \<Rightarrow> MutateResult" where
  "rejected res code param = res\<lparr>mr_Outcome := OutcomeRejected, mr_Code := code, mr_CodeParam := param\<rparr>"

section \<open>Reading\<close>

definition read_script :: "u64 \<Rightarrow> u64 \<Rightarrow> team_sys \<Rightarrow> Snapshot \<times> team_sys" where
  "read_script playerId teamId s =
     (case scriptRead (sy_redis s) (sy_now s) playerId teamId of (tidNow, epoch, ver, pb, ttl, now) \<Rightarrow>
        (\<lparr>sn_PlayerId = playerId, sn_PlayerTeamId = tidNow, sn_PlayerEpoch = epoch, sn_TeamId = teamId, sn_Version = ver,
          sn_Record = (if ver \<noteq> 0 then pb else None), sn_RecordTTLSeconds = ttl, sn_NowMs = now\<rparr>, s))"

definition store_read :: "(nat \<Rightarrow> call_env) \<Rightarrow> u64 \<Rightarrow> u64 \<Rightarrow> world \<Rightarrow> (store_error + Snapshot) \<times> world" where
  "store_read ev playerId teamId w = evalCtx ev (read_script playerId teamId) w"

definition indexTeamId :: "(nat \<Rightarrow> call_env) \<Rightarrow> u64 \<Rightarrow> world \<Rightarrow> (store_error + u64) \<times> world" where
  "indexTeamId ev playerId w =
     evalCtx ev (\<lambda>s. (case live_idx (sy_redis s) (sy_now s) playerId of None \<Rightarrow> 0 | Some i \<Rightarrow> ix_tid i, s)) w"

text \<open>The sessions are read after the call with number \<open>n\<close>.\<close>

definition loadSessions :: "(nat \<Rightarrow> call_env) \<Rightarrow> nat \<Rightarrow> TeamRecord option \<Rightarrow> Sessions" where
  "loadSessions ev n rec = (case rec of None \<Rightarrow> Map.empty | Some _ \<Rightarrow> ce_sessions (ev n))"

definition HealOrphan :: "(nat \<Rightarrow> call_env) \<Rightarrow> u64 \<Rightarrow> u64 \<Rightarrow> world \<Rightarrow> (store_error + bool) \<times> world" where
  "HealOrphan ev playerId teamId w = evalCtx ev (exec_heal playerId teamId) w"

fun readFree_loop :: "nat \<Rightarrow> (nat \<Rightarrow> call_env) \<Rightarrow> u64 \<Rightarrow> bool \<Rightarrow> world \<Rightarrow> (store_error + Snapshot) \<times> bool \<times> world" where
  "readFree_loop 0 ev playerId healed w = (Inl ErrUnstableRead, healed, w)"
| "readFree_loop (Suc k) ev playerId healed w =
     (case indexTeamId ev playerId w of
        (Inl e, w1) \<Rightarrow> (Inl e, healed, w1)
      | (Inr tid, w1) \<Rightarrow>
          (case store_read ev playerId tid w1 of
             (Inl e, w2) \<Rightarrow> (Inl e, healed, w2)
           | (Inr snap, w2) \<Rightarrow>
               if sn_PlayerTeamId snap \<noteq> tid then readFree_loop k ev playerId healed w2
               else if tid \<noteq> 0 \<and> sn_Record snap = None then
                 (case HealOrphan ev playerId tid w2 of
                    (Inl e, w3) \<Rightarrow> (Inl e, healed, w3)
                  | (Inr ok, w3) \<Rightarrow> readFree_loop k ev playerId (healed \<or> ok) w3)
               else (Inr snap, healed, w2)))"

definition ReadFree :: "(nat \<Rightarrow> call_env) \<Rightarrow> u64 \<Rightarrow> world \<Rightarrow> (store_error + Snapshot) \<times> bool \<times> world" where
  "ReadFree ev playerId w = readFree_loop freeReadRetries ev playerId False w"

definition NeedsTouch :: "Snapshot option \<Rightarrow> bool" where
  "NeedsTouch snap = (case snap of None \<Rightarrow> False
     | Some s \<Rightarrow> sn_Record s \<noteq> None \<and> sn_RecordTTLSeconds s < TouchThresholdSeconds)"

definition Touch :: "(nat \<Rightarrow> call_env) \<Rightarrow> Snapshot option \<Rightarrow> world \<Rightarrow> (store_error + bool) \<times> world" where
  "Touch ev snap w =
     (case snap of
        None \<Rightarrow> (Inr False, w)
      | Some s \<Rightarrow> (case sn_Record s of
          None \<Rightarrow> (Inr False, w)
        | Some rec \<Rightarrow> evalCtx ev (exec_touch (tr_team_id rec) (sn_Version s) rec) w))"

record MembersSnapshot =
  ms_TeamId :: u64
  ms_Version :: nat
  ms_Record :: "TeamRecord option"
  ms_NowMs :: nat
  ms_Indexes :: "u64 \<rightharpoonup> IndexEntry"

fun readMembers_loop ::
    "nat \<Rightarrow> (nat \<Rightarrow> call_env) \<Rightarrow> u64 \<Rightarrow> u64 list \<Rightarrow> world \<Rightarrow> (store_error + MembersSnapshot) \<times> world" where
  "readMembers_loop 0 ev teamId members w = (Inl ErrMembersChanged, w)"
| "readMembers_loop (Suc k) ev teamId members w =
     (case evalCtx ev (\<lambda>s. (scriptReadMembers (sy_redis s) (sy_now s) teamId members, s)) w of
        (Inl e, w1) \<Rightarrow> (Inl e, w1)
      | (Inr (ver, pb, now, idx), w1) \<Rightarrow>
          if ver = 0 then
            (Inr \<lparr>ms_TeamId = teamId, ms_Version = ver, ms_Record = None, ms_NowMs = now, ms_Indexes = Map.empty\<rparr>, w1)
          else
            let rec = the pb; ids = MemberIds rec
            in if \<not> sameIdSet ids members then readMembers_loop k ev teamId ids w1
               else (Inr \<lparr>ms_TeamId = teamId, ms_Version = ver, ms_Record = Some rec, ms_NowMs = now,
                          ms_Indexes = map_of (rev (zip members idx))\<rparr>, w1))"

definition ReadMembers :: "(nat \<Rightarrow> call_env) \<Rightarrow> u64 \<Rightarrow> u64 list \<Rightarrow> world \<Rightarrow> (store_error + MembersSnapshot) \<times> world" where
  "ReadMembers ev teamId knownMembers w = readMembers_loop readMembersRetries ev teamId knownMembers w"

text \<open>An entry is team, expiry and the score text, here the same number.\<close>

definition ListInvites :: "(nat \<Rightarrow> call_env) \<Rightarrow> u64 \<Rightarrow> world \<Rightarrow> (store_error + nat \<times> (u64 \<times> nat \<times> nat) list) \<times> world" where
  "ListInvites ev playerId w =
     (case evalCtx ev (exec_list playerId) w of
        (Inl e, w1) \<Rightarrow> (Inl e, w1)
      | (Inr (now, out), w1) \<Rightarrow> (Inr (now, map (\<lambda>(t, score). (t, score, score)) out), w1))"

definition PruneInvite :: "(nat \<Rightarrow> call_env) \<Rightarrow> u64 \<Rightarrow> u64 \<Rightarrow> nat \<Rightarrow> world \<Rightarrow> (store_error + bool) \<times> world" where
  "PruneInvite ev playerId teamId score w = evalCtx ev (exec_prune playerId teamId score) w"

section \<open>Committing\<close>

datatype commitOutcome =
    commitOK CommitResult
  | commitConflict
  | commitMemberInTeam nat
  | commitIndexMismatch nat
  | commitInviteLimit nat

definition commit_outcome :: "u64 \<Rightarrow> Decision \<Rightarrow> nat \<Rightarrow> commit_reply \<Rightarrow> commitOutcome" where
  "commit_outcome teamId d nowMs reply =
     (case reply of
        ReplyConflict \<Rightarrow> commitConflict
      | ReplyMemberInTeam i \<Rightarrow> commitMemberInTeam i
      | ReplyIndexMismatch i \<Rightarrow> commitIndexMismatch i
      | ReplyInviteLimit i \<Rightarrow> commitInviteLimit i
      | ReplyOk ver out \<Rightarrow>
          commitOK \<lparr>cr_TeamId = teamId, cr_Version = ver, cr_Decision = d,
            cr_Indexes = map_of (rev (zip (d_Joined d @ d_Kept d @ d_Left d) out)), cr_NowMs = nowMs\<rparr>)"

definition commit ::
    "(nat \<Rightarrow> call_env) \<Rightarrow> u64 \<Rightarrow> nat option \<Rightarrow> Decision \<Rightarrow> nat \<Rightarrow> world \<Rightarrow> (store_error + commitOutcome) \<times> world" where
  "commit ev teamId expectedVer d nowMs w =
     (case validateCommitSets teamId d of
        Some e \<Rightarrow> (Inl (ErrSets e), w)
      | None \<Rightarrow>
          (case evalCtx ev (exec_commit (buildCommitArgs teamId expectedVer d)) w of
             (Inl e, w1) \<Rightarrow> (Inl e, w1)
           | (Inr reply, w1) \<Rightarrow> (Inr (commit_outcome teamId d nowMs reply), w1)))"

fun repair_rounds ::
    "nat \<Rightarrow> (nat \<Rightarrow> call_env) \<Rightarrow> Snapshot \<Rightarrow> nat option \<Rightarrow> Sessions \<Rightarrow> u64 list \<Rightarrow> u64 list \<Rightarrow> nat \<Rightarrow> world \<Rightarrow>
     (store_error + commitOutcome option) \<times> world" where
  "repair_rounds 0 ev snap expectedVer sessions kept bad index w = (Inl (ErrRepairDiverged bad), w)"
| "repair_rounds (Suc k) ev snap expectedVer sessions kept bad index w =
     (if index < 1 \<or> index > length kept then (Inl (ErrRepairIndex index (length kept)), w)
      else
        let bad' = bad @ [kept ! (index - 1)];
            fix = RepairRemoveMembers (sn_Record snap) bad' (of_nat (sn_NowMs snap)) sessions
        in if \<not> d_Changed fix then (Inr None, w)
           else
             (case commit ev (sn_TeamId snap) expectedVer fix (sn_NowMs snap) w of
                (Inl e, w1) \<Rightarrow> (Inl e, w1)
              | (Inr out, w1) \<Rightarrow>
                  (case out of
                     commitIndexMismatch j \<Rightarrow> repair_rounds k ev snap expectedVer sessions (d_Kept fix) bad' j w1
                   | _ \<Rightarrow> (Inr (Some out), w1))))"

definition repairIndexMismatch ::
    "(nat \<Rightarrow> call_env) \<Rightarrow> Snapshot \<Rightarrow> nat option \<Rightarrow> Decision \<Rightarrow> nat \<Rightarrow> Sessions \<Rightarrow> world \<Rightarrow>
     (store_error + commitOutcome option) \<times> world" where
  "repairIndexMismatch ev snap expectedVer d index sessions w =
     repair_rounds Capacity ev snap expectedVer sessions (d_Kept d) [] index w"

section \<open>Mutate\<close>

text \<open>One turn of the loop returns, or asks for another turn with the result so far and the number of
  repairs.\<close>

datatype turn = Return MutateResult | Again MutateResult nat

definition on_conflict :: "MutateResult \<Rightarrow> nat \<Rightarrow> turn" where
  "on_conflict res repairs =
     (let res1 = res\<lparr>mr_Conflicts := mr_Conflicts res + 1\<rparr>
      in if mr_Conflicts res1 \<ge> CommitRetries then Return (rejected res1 ErrStateChanged 0) else Again res1 repairs)"

definition on_repaired :: "MutateResult \<Rightarrow> nat \<Rightarrow> commitOutcome option \<Rightarrow> turn" where
  "on_repaired res repairs fixed =
     (case fixed of
        None \<Rightarrow> Return (rejected res ErrStateChanged 0)
      | Some (commitOK result) \<Rightarrow> Again (res\<lparr>mr_Repairs := mr_Repairs res @ [result]\<rparr>) repairs
      | Some commitConflict \<Rightarrow> on_conflict res repairs
      | Some _ \<Rightarrow> Return (rejected res ErrStateChanged 0))"

definition after_commit ::
    "(nat \<Rightarrow> call_env) \<Rightarrow> Snapshot \<Rightarrow> nat option \<Rightarrow> Sessions \<Rightarrow> MutateResult \<Rightarrow> nat \<Rightarrow> commitOutcome \<Rightarrow> world \<Rightarrow>
     (store_error + turn) \<times> world" where
  "after_commit ev snap expectedVer sessions res repairs out w =
     (let d = mr_Decision res
      in case out of
        commitOK result \<Rightarrow> (Inr (Return (res\<lparr>mr_Outcome := OutcomeCommitted, mr_Commit := Some result\<rparr>)), w)
      | commitConflict \<Rightarrow> (Inr (on_conflict res repairs), w)
      | commitMemberInTeam i \<Rightarrow> (Inr (Return (rejected res ErrMemberInTeam (d_Joined d ! (i - 1)))), w)
      | commitInviteLimit i \<Rightarrow> (Inr (Return (rejected res ErrInviteLimit (fst (d_InvitesAdded d ! (i - 1))))), w)
      | commitIndexMismatch i \<Rightarrow>
          if repairs + 1 > Capacity \<or> ce_ctxErr (ev (wd_calls w - 1))
          then (Inr (Return (rejected res ErrStateChanged 0)), w)
          else
            (case repairIndexMismatch ev snap expectedVer d i sessions w of
               (Inl e, w1) \<Rightarrow> (Inl e, w1)
             | (Inr fixed, w1) \<Rightarrow> (Inr (on_repaired res (repairs + 1) fixed), w1)))"

definition decide_and_commit ::
    "(nat \<Rightarrow> call_env) \<Rightarrow> RuleConfig \<Rightarrow> Binding \<Rightarrow> Op \<Rightarrow> Snapshot \<Rightarrow> MutateResult \<Rightarrow> nat \<Rightarrow> world \<Rightarrow>
     (store_error + turn) \<times> world" where
  "decide_and_commit ev cfg bnd op snap res repairs w =
     (let n = wd_calls w - 1;
          sessions = loadSessions ev n (sn_Record snap);
          d = Apply (op\<lparr>op_CallerTeamId := sn_PlayerTeamId snap\<rparr>) (sn_Record snap) (of_nat (sn_NowMs snap)) sessions cfg;
          res1 = res\<lparr>mr_Decision := d\<rparr>
      in if d_Code d \<noteq> 0 then (Inr (Return (rejected res1 (d_Code d) (d_CodeParam d))), w)
         else if \<not> d_Changed d then (Inr (Return (res1\<lparr>mr_Outcome := OutcomeUnchanged\<rparr>)), w)
         else if ce_ctxErr (ev n) then (Inr (Return (rejected res1 ErrStateChanged 0)), w)
         else
           let expectedVer = (if bi_mode bnd = bindModeCreate then None else Some (sn_Version snap))
           in case commit ev (bi_teamId bnd) expectedVer d (sn_NowMs snap) w of
                (Inl e, w1) \<Rightarrow> (Inl e, w1)
              | (Inr out, w1) \<Rightarrow> after_commit ev snap expectedVer sessions res1 repairs out w1)"

definition record_missing ::
    "(nat \<Rightarrow> call_env) \<Rightarrow> Binding \<Rightarrow> Snapshot \<Rightarrow> MutateResult \<Rightarrow> world \<Rightarrow> (store_error + turn) \<times> world" where
  "record_missing ev bnd snap res w =
     (let res1 = res\<lparr>mr_Outcome := OutcomeRecordMissing\<rparr>
      in if bi_teamId bnd \<noteq> 0 \<and> sn_PlayerTeamId snap = bi_teamId bnd then
           (case HealOrphan ev (bi_playerId bnd) (bi_teamId bnd) w of
              (Inl e, w1) \<Rightarrow> (Inl e, w1)
            | (Inr healed, w1) \<Rightarrow> (Inr (Return (res1\<lparr>mr_HealedOrphan := healed\<rparr>)), w1))
         else (Inr (Return res1), w))"

definition mutate_turn ::
    "(nat \<Rightarrow> call_env) \<Rightarrow> RuleConfig \<Rightarrow> Binding \<Rightarrow> Op \<Rightarrow> MutateResult \<Rightarrow> nat \<Rightarrow> world \<Rightarrow> (store_error + turn) \<times> world" where
  "mutate_turn ev cfg bnd op res repairs w =
     (case store_read ev (bi_playerId bnd) (bi_teamId bnd) w of
        (Inl e, w1) \<Rightarrow> (Inl e, w1)
      | (Inr snap, w1) \<Rightarrow>
          let res1 = res\<lparr>mr_Snapshot := snap\<rparr>
          in if bi_mode bnd = bindModeCaller \<and> (bi_teamId bnd = 0 \<or> sn_PlayerTeamId snap \<noteq> bi_teamId bnd)
             then (Inr (Return (res1\<lparr>mr_Outcome := OutcomeNotBound\<rparr>)), w1)
             else if bi_mode bnd = bindModeCreate \<and> sn_Record snap \<noteq> None
             then (Inr (Return (rejected res1 ErrInternal 0)), w1)
             else if bi_mode bnd \<noteq> bindModeCreate \<and> sn_Record snap = None
             then record_missing ev bnd snap res1 w1
             else decide_and_commit ev cfg bnd op snap res1 repairs w1)"

lemma on_conflict_again: "on_conflict res n = Again res' n' \<Longrightarrow> mr_Conflicts res' = mr_Conflicts res + 1 \<and> mr_Conflicts res' < CommitRetries \<and> n' = n"
  by (auto simp: on_conflict_def Let_def split: if_splits)

text \<open>Another turn means one more conflict below the limit or one more repair within it.\<close>

lemma after_commit_again:
  assumes "after_commit ev snap xv ss res n out w = (Inr (Again res' n'), w')"
  shows "mr_Conflicts res' = mr_Conflicts res + 1 \<and> mr_Conflicts res' < CommitRetries \<and> (n' = n \<or> n' = n + 1 \<and> n' \<le> Capacity) \<or>
    mr_Conflicts res' = mr_Conflicts res \<and> n' = n + 1 \<and> n' \<le> Capacity"
  using assms
  by (auto simp: after_commit_def on_repaired_def Let_def dest!: on_conflict_again
      split: commitOutcome.splits if_splits prod.splits sum.splits option.splits)

lemma mutate_turn_again:
  assumes "mutate_turn ev cfg bnd op res n w = (Inr (Again res' n'), w')"
  shows "mr_Conflicts res' = mr_Conflicts res + 1 \<and> mr_Conflicts res' < CommitRetries \<and> (n' = n \<or> n' = n + 1 \<and> n' \<le> Capacity) \<or>
    mr_Conflicts res' = mr_Conflicts res \<and> n' = n + 1 \<and> n' \<le> Capacity"
  using assms
  by (auto simp: mutate_turn_def decide_and_commit_def record_missing_def Let_def rejected_def dest!: after_commit_again
      split: if_splits prod.splits sum.splits)

function mutate_loop ::
    "(nat \<Rightarrow> call_env) \<Rightarrow> RuleConfig \<Rightarrow> Binding \<Rightarrow> Op \<Rightarrow> MutateResult \<Rightarrow> nat \<Rightarrow> world \<Rightarrow> (store_error + MutateResult) \<times> world" where
  "mutate_loop ev cfg bnd op res repairs w =
     (case mutate_turn ev cfg bnd op res repairs w of
        (Inl e, w1) \<Rightarrow> (Inl e, w1)
      | (Inr (Return res1), w1) \<Rightarrow> (Inr res1, w1)
      | (Inr (Again res1 repairs1), w1) \<Rightarrow> mutate_loop ev cfg bnd op res1 repairs1 w1)"
  by pat_completeness auto
termination
  by (relation "measure (\<lambda>(ev, cfg, bnd, op, res, repairs, w). (CommitRetries - mr_Conflicts res) + (Capacity - repairs))")
     (auto dest!: mutate_turn_again [OF sym])

definition Mutate :: "(nat \<Rightarrow> call_env) \<Rightarrow> RuleConfig \<Rightarrow> Binding \<Rightarrow> Op \<Rightarrow> world \<Rightarrow> (store_error + MutateResult) \<times> world" where
  "Mutate ev cfg bnd op w = mutate_loop ev cfg bnd op mutate_zero 0 w"

section \<open>Match lock\<close>

record PinnedResult =
  pr_Code :: u32
  pr_CodeParam :: u64
  pr_Commit :: "CommitResult option"
  pr_Repairs :: "CommitResult list"
  pr_Retry :: bool

definition pinned_zero :: PinnedResult where
  "pinned_zero = \<lparr>pr_Code = 0, pr_CodeParam = 0, pr_Commit = None, pr_Repairs = [], pr_Retry = False\<rparr>"

definition commitPinned :: "(nat \<Rightarrow> call_env) \<Rightarrow> Snapshot \<Rightarrow> Decision \<Rightarrow> world \<Rightarrow> (store_error + PinnedResult) \<times> world" where
  "commitPinned ev snap d w =
     (let expectedVer = Some (sn_Version snap)
      in case commit ev (sn_TeamId snap) expectedVer d (sn_NowMs snap) w of
           (Inl e, w1) \<Rightarrow> (Inl e, w1)
         | (Inr out, w1) \<Rightarrow>
             (case out of
                commitOK result \<Rightarrow> (Inr (pinned_zero\<lparr>pr_Commit := Some result\<rparr>), w1)
              | commitConflict \<Rightarrow> (Inr (pinned_zero\<lparr>pr_Retry := True\<rparr>), w1)
              | commitIndexMismatch i \<Rightarrow>
                  (case repairIndexMismatch ev snap expectedVer d i (loadSessions ev (wd_calls w1 - 1) (sn_Record snap)) w1 of
                     (Inl e, w2) \<Rightarrow> (Inl e, w2)
                   | (Inr fixed, w2) \<Rightarrow>
                       (Inr (pinned_zero\<lparr>pr_Retry := True,
                          pr_Repairs := (case fixed of Some (commitOK result) \<Rightarrow> [result] | _ \<Rightarrow> [])\<rparr>), w2))
              | _ \<Rightarrow> (Inl ErrUnexpectedStatus, w1)))"

text \<open>The context is looked at between the calls; the flag is that of the last call before.\<close>

definition CommitMatchLock ::
    "(nat \<Rightarrow> call_env) \<Rightarrow> Snapshot option \<Rightarrow> u64 \<Rightarrow> string \<Rightarrow> u64 list \<Rightarrow> u64 \<Rightarrow> world \<Rightarrow> (store_error + PinnedResult) \<times> world" where
  "CommitMatchLock ev snap caller token roster expireAtMs w =
     (case snap of
        None \<Rightarrow> (Inl ErrNoSnapshot, w)
      | Some s \<Rightarrow>
          if sn_Record s = None \<or> sn_Version s = 0 then (Inl ErrNoSnapshot, w)
          else
            let d = LockMatch (sn_Record s) caller token roster expireAtMs (of_nat (sn_NowMs s))
            in if d_Code d \<noteq> 0 then (Inr (pinned_zero\<lparr>pr_Code := d_Code d, pr_CodeParam := d_CodeParam d\<rparr>), w)
               else if ce_ctxErr (ev (wd_calls w - 1)) then (Inr (pinned_zero\<lparr>pr_Code := ErrStateChanged\<rparr>), w)
               else commitPinned ev s d w)"

datatype EndMatchStop =
    EndMatchReleased
  | EndMatchRecordMissing
  | EndMatchTokenMismatch
  | EndMatchLockExpired
  | EndMatchDeadline

text \<open>A round either stops without writing or hands back the pinned commit.\<close>

definition endMatchRound ::
    "(nat \<Rightarrow> call_env) \<Rightarrow> u64 \<Rightarrow> string \<Rightarrow> bool \<Rightarrow> world \<Rightarrow> (store_error + EndMatchStop + PinnedResult) \<times> world" where
  "endMatchRound ev teamId token ok w =
     (case store_read ev 0 teamId w of
        (Inl e, w1) \<Rightarrow> (Inl e, w1)
      | (Inr snap, w1) \<Rightarrow>
          (case sn_Record snap of
             None \<Rightarrow> (Inr (Inl EndMatchRecordMissing), w1)
           | Some rec \<Rightarrow>
               if tr_match_lock_token rec \<noteq> token then (Inr (Inl EndMatchTokenMismatch), w1)
               else if \<not> MatchLockActive (Some rec) (of_nat (sn_NowMs snap)) then (Inr (Inl EndMatchLockExpired), w1)
               else
                 let d = ReleaseMatchLock (Some rec) token ok (of_nat (sn_NowMs snap))
                           (loadSessions ev (wd_calls w1 - 1) (Some rec))
                 in if \<not> d_Changed d then (Inr (Inl EndMatchTokenMismatch), w1)
                    else (case commitPinned ev snap d w1 of
                            (Inl e, w2) \<Rightarrow> (Inl e, w2)
                          | (Inr pinned, w2) \<Rightarrow> (Inr (Inr pinned), w2))))"

definition ReleaseMatchLockOnce ::
    "(nat \<Rightarrow> call_env) \<Rightarrow> u64 \<Rightarrow> string \<Rightarrow> world \<Rightarrow> (store_error + EndMatchStop + PinnedResult) \<times> world" where
  "ReleaseMatchLockOnce ev teamId token w = endMatchRound ev teamId token False w"

text \<open>Durations in nanoseconds; the largest backoff is stretched by the jitter of a fifth.\<close>

definition endMatchRoundTimeout :: nat where "endMatchRoundTimeout = 2000000000"
definition endMatchBackoffInitial :: nat where "endMatchBackoffInitial = 50000000"
definition endMatchBackoffMax :: nat where "endMatchBackoffMax = 1000000000"

definition endMatchDeadline :: "nat \<Rightarrow> nat" where
  "endMatchDeadline lockTTL = (let maxBackoff = endMatchBackoffMax * 12 div 10 in lockTTL + endMatchRoundTimeout + maxBackoff)"

definition next_backoff :: "nat \<Rightarrow> nat" where
  "next_backoff b = (let b2 = b * 2 in if b2 > endMatchBackoffMax then endMatchBackoffMax else b2)"

record EndMatchResult =
  er_Stop :: "EndMatchStop option"
  er_Commit :: "CommitResult option"
  er_Repairs :: "CommitResult list"
  er_Conflicts :: nat
  er_LastErr :: "store_error option"

definition endmatch_zero :: EndMatchResult where
  "endmatch_zero = \<lparr>er_Stop = None, er_Commit = None, er_Repairs = [], er_Conflicts = 0, er_LastErr = None\<rparr>"

text \<open>The clock of the loop: how long the calls of a turn take, and how long the sleep after it lasts
  for the backoff handed to \<open>jittered\<close>.\<close>

record loop_clock =
  lc_took :: "nat \<Rightarrow> nat"
  lc_slept :: "nat \<Rightarrow> nat \<Rightarrow> nat"

fun endMatch_loop ::
    "nat \<Rightarrow> (nat \<Rightarrow> call_env) \<Rightarrow> loop_clock \<Rightarrow> nat \<Rightarrow> nat \<Rightarrow> u64 \<Rightarrow> string \<Rightarrow> bool \<Rightarrow> nat \<Rightarrow> nat \<Rightarrow> EndMatchResult \<Rightarrow> world \<Rightarrow>
     (EndMatchResult \<times> world) option" where
  "endMatch_loop 0 ev clk i elapsed teamId token ok deadline backoff res w = None"
| "endMatch_loop (Suc fuel) ev clk i elapsed teamId token ok deadline backoff res w =
     (if elapsed \<ge> deadline then Some (res\<lparr>er_Stop := Some EndMatchDeadline\<rparr>, w)
      else
        let worked = elapsed + lc_took clk i; waited = worked + lc_slept clk i backoff
        in case endMatchRound ev teamId token ok w of
           (Inl e, w1) \<Rightarrow>
             endMatch_loop fuel ev clk (i + 1) waited teamId token ok deadline (next_backoff backoff)
               (res\<lparr>er_LastErr := Some e\<rparr>) w1
         | (Inr (Inl stop), w1) \<Rightarrow> Some (res\<lparr>er_Stop := Some stop\<rparr>, w1)
         | (Inr (Inr pinned), w1) \<Rightarrow>
             let res1 = res\<lparr>er_Repairs := er_Repairs res @ pr_Repairs pinned\<rparr>
             in if pr_Commit pinned \<noteq> None
                then Some (res1\<lparr>er_Stop := Some EndMatchReleased, er_Commit := pr_Commit pinned\<rparr>, w1)
                else if pr_Repairs pinned \<noteq> []
                then endMatch_loop fuel ev clk (i + 1) worked teamId token ok deadline backoff res1 w1
                else endMatch_loop fuel ev clk (i + 1) waited teamId token ok deadline (next_backoff backoff)
                       (res1\<lparr>er_Conflicts := er_Conflicts res1 + 1\<rparr>) w1)"

definition EndMatch ::
    "nat \<Rightarrow> (nat \<Rightarrow> call_env) \<Rightarrow> loop_clock \<Rightarrow> u64 \<Rightarrow> string \<Rightarrow> bool \<Rightarrow> nat \<Rightarrow> world \<Rightarrow> (EndMatchResult \<times> world) option" where
  "EndMatch fuel ev clk teamId token ok lockTTL w =
     endMatch_loop fuel ev clk 0 0 teamId token ok (endMatchDeadline lockTTL) endMatchBackoffInitial endmatch_zero w"

section \<open>Calls under interference\<close>

text \<open>The other instances follow the protocol.\<close>

definition others_ok :: "(nat \<Rightarrow> call_env) \<Rightarrow> bool" where
  "others_ok ev \<longleftrightarrow> (\<forall>k s. sys_inv s \<longrightarrow> team_step\<^sup>*\<^sup>* s (ce_others (ev k) s))"

lemma sys_inv_steps: "team_step\<^sup>*\<^sup>* s t \<Longrightarrow> sys_inv s \<Longrightarrow> sys_inv t"
  by (rule ts.inv_steps)

lemma log_step:
  assumes "sys_inv s" and "team_step s s'" and "sy_log s t v = Some r"
  shows "sy_log s' t v = Some r"
  using assms(2,1,3)
proof (induction rule: team_step.induct)
  case (commit s u w q d reply s')
  from commit(3) show ?case
  proof (cases rule: exec_commit_cases)
    case (written ver out)
    then obtain q0 where "current s u = Some (w, q0)" by auto
    then have "sy_log s u ver = None" using commit(4) written(4) by (auto simp: sys_inv_def newest_ok_def)
    then show ?thesis using written(6) commit(5) by (auto split: option.splits)
  qed (use commit in simp)
next
  case (create s op d now reply s')
  from create(4) show ?case
    by (cases rule: exec_commit_cases) (use create in \<open>auto split: option.splits\<close>)
qed (auto simp: exec_other exec_touch_other)

lemma log_steps: "team_step\<^sup>*\<^sup>* s s' \<Longrightarrow> sys_inv s \<Longrightarrow> sy_log s t v = Some r \<Longrightarrow> sy_log s' t v = Some r"
  by (induction rule: rtranclp_induct) (auto intro: log_step sys_inv_steps)

text \<open>A call is a run of the protocol when the script is one from every state it may find.\<close>

lemma evalCtx_steps:
  assumes "others_ok ev" and "sys_inv (wd_sys w)" and "evalCtx ev script w = (r, w')"
    and "\<And>s x s'. team_step\<^sup>*\<^sup>* (wd_sys w) s \<Longrightarrow> sys_inv s \<Longrightarrow> script s = (x, s') \<Longrightarrow> team_step\<^sup>*\<^sup>* s s'"
  shows "team_step\<^sup>*\<^sup>* (wd_sys w) (wd_sys w')"
proof -
  let ?s = "ce_others (ev (wd_calls w)) (wd_sys w)"
  have s: "team_step\<^sup>*\<^sup>* (wd_sys w) ?s" using assms(1,2) by (simp add: others_ok_def)
  obtain x s1 where x: "script ?s = (x, s1)" by fastforce
  obtain y s2 where y: "script s1 = (y, s2)" by fastforce
  have s1: "team_step\<^sup>*\<^sup>* (wd_sys w) s1"
    using assms(4) [OF s sys_inv_steps [OF s assms(2)] x] s by (rule rtranclp_trans [rotated])
  have s2: "team_step\<^sup>*\<^sup>* (wd_sys w) s2"
    using assms(4) [OF s1 sys_inv_steps [OF s1 assms(2)] y] s1 by (rule rtranclp_trans [rotated])
  show ?thesis
    using assms(3) s s1 s2 x y by (auto simp: evalCtx_def Let_def split: call_fate.splits)
qed

lemma evalCtx_calls: "evalCtx ev script w = (r, w') \<Longrightarrow> wd_calls w' = wd_calls w + 1"
  by (auto simp: evalCtx_def Let_def split: call_fate.splits prod.splits)

lemma read_script_same: "read_script p t s = (snap, s') \<Longrightarrow> s' = s"
  by (auto simp: read_script_def split: prod.splits)

lemma store_read_inr:
  assumes "store_read ev p t w = (Inr snap, w')"
  shows "read_script p t (wd_sys w') = (snap, wd_sys w')"
  using assms
  by (auto simp: store_read_def evalCtx_def Let_def read_script_def split: call_fate.splits prod.splits)

lemma store_read_steps:
  assumes "others_ok ev" and "sys_inv (wd_sys w)" and "store_read ev p t w = (r, w')"
  shows "team_step\<^sup>*\<^sup>* (wd_sys w) (wd_sys w')"
  using evalCtx_steps [OF assms(1,2) assms(3) [unfolded store_read_def]] read_script_same by blast

lemma read_script_rec:
  assumes "read_script p t s = (snap, s')"
  shows "sn_TeamId snap = t \<and>
    (case current s t of
       None \<Rightarrow> sn_Version snap = 0 \<and> sn_Record snap = None
     | Some (v, r) \<Rightarrow> sn_Version snap = v \<and> sn_Record snap = (if v \<noteq> 0 then Some r else None))"
  using assms by (cases "live_rec (sy_redis s) (sy_now s) t") (auto simp: read_script_def scriptRead_def Let_def current_def)

lemma snapshot_logged:
  assumes "sys_inv s" and "read_script p t s = (snap, s')"
  shows "sn_TeamId snap = t" and "sn_Record snap = Some r \<Longrightarrow> sy_log s t (sn_Version snap) = Some r"
    and "sn_Record snap = None \<Longrightarrow> current s t = None"
proof -
  note rs = read_script_rec [OF assms(2)]
  show "sn_TeamId snap = t" using rs by simp
  have cur: "1 \<le> v \<and> sy_log s t v = Some q" if "current s t = Some (v, q)" for v q
  proof -
    have "sy_log s t v = Some q" using assms(1) that by (simp add: sys_inv_def newest_ok_def)
    moreover from this have "1 \<le> v" using assms(1) unfolding sys_inv_def log_ok_def by blast
    ultimately show ?thesis by simp
  qed
  show "sy_log s t (sn_Version snap) = Some r" if "sn_Record snap = Some r"
    using rs cur that by (auto split: option.splits)
  show "current s t = None" if "sn_Record snap = None"
    using rs cur that by (fastforce split: option.splits)
qed

lemma evalCtx_script:
  assumes "evalCtx ev script w = (r, w')"
  obtains s where "wd_sys w' = s" "s = ce_others (ev (wd_calls w)) (wd_sys w)"
  | s x where "script (ce_others (ev (wd_calls w)) (wd_sys w)) = (x, wd_sys w')" "r = Inr x \<or> r = Inl ErrRedis"
  | s x y where "ce_fate (ev (wd_calls w)) = Resent" "script (ce_others (ev (wd_calls w)) (wd_sys w)) = (x, s)"
      "script s = (y, wd_sys w')" "r = Inr y"
  using assms by (auto simp: evalCtx_def Let_def split: call_fate.splits prod.splits)

lemma commit_call:
  assumes "commit ev t xv d now w = (r, w')"
  shows "w' = w \<and> validateCommitSets t d \<noteq> None \<or>
    (\<exists>q. validateCommitSets t d = None \<and> evalCtx ev (exec_commit (buildCommitArgs t xv d)) w = (q, w') \<and>
       r = map_sum id (commit_outcome t d now) q)"
  using assms by (auto simp: commit_def split: option.splits prod.splits sum.splits)

lemma commit_steps:
  assumes "others_ok ev" and "sys_inv (wd_sys w)" and "commit ev t (Some v) d now w = (x, w')"
    and "sy_log (wd_sys w) t v = Some r" and "decides r d"
  shows "team_step\<^sup>*\<^sup>* (wd_sys w) (wd_sys w')"
proof -
  have "team_step\<^sup>*\<^sup>* s s'"
    if "team_step\<^sup>*\<^sup>* (wd_sys w) s" "exec_commit (buildCommitArgs t (Some v) d) s = (y, s')" for s y s'
    using team_step.commit [OF log_steps [OF that(1) assms(2,4)] assms(5) that(2)] by (rule r_into_rtranclp)
  then have "team_step\<^sup>*\<^sup>* (wd_sys w) (wd_sys w')"
    if "evalCtx ev (exec_commit (buildCommitArgs t (Some v) d)) w = (q, w')" for q
    using evalCtx_steps [OF assms(1,2) that] by blast
  then show ?thesis using commit_call [OF assms(3)] by auto
qed

lemma repair_rounds_steps:
  assumes "others_ok ev" and "sn_Record snap = Some r"
  shows "sys_inv (wd_sys w) \<Longrightarrow> sy_log (wd_sys w) (sn_TeamId snap) v = Some r \<Longrightarrow>
    repair_rounds k ev snap (Some v) ss kept bad i w = (x, w') \<Longrightarrow> team_step\<^sup>*\<^sup>* (wd_sys w) (wd_sys w')"
proof (induction k arbitrary: kept bad i w)
  case (Suc k)
  define bad' where "bad' = bad @ [kept ! (i - 1)]"
  define fx where "fx = RepairRemoveMembers (Some r) bad' (of_nat (sn_NowMs snap)) ss"
  obtain c w1 where c: "commit ev (sn_TeamId snap) (Some v) fx (sn_NowMs snap) w = (c, w1)" by fastforce
  have rr: "repair_rounds (Suc k) ev snap (Some v) ss kept bad i w =
      (if i < 1 \<or> i > length kept then (Inl (ErrRepairIndex i (length kept)), w)
       else if \<not> d_Changed fx then (Inr None, w)
       else (case c of Inl e \<Rightarrow> (Inl e, w1)
         | Inr (commitIndexMismatch j) \<Rightarrow> repair_rounds k ev snap (Some v) ss (d_Kept fx) bad' j w1
         | Inr out \<Rightarrow> (Inr (Some out), w1)))"
    using c by (simp add: bad'_def fx_def assms(2) Let_def split: sum.split commitOutcome.split)
  show ?case
  proof (cases "i < 1 \<or> i > length kept \<or> \<not> d_Changed fx")
    case True
    then show ?thesis using Suc.prems(3) unfolding rr by (auto split: if_splits)
  next
    case False
    then have "decides r fx" using by_repair fx_def by blast
    then have st: "team_step\<^sup>*\<^sup>* (wd_sys w) (wd_sys w1)" using commit_steps [OF assms(1) Suc.prems(1) c Suc.prems(2)] by blast
    then have "w' = w1 \<or> (\<exists>j. repair_rounds k ev snap (Some v) ss (d_Kept fx) bad' j w1 = (x, w'))"
      using Suc.prems(3) False unfolding rr by (auto split: sum.splits commitOutcome.splits)
    then show ?thesis
      using Suc.IH [of w1] st sys_inv_steps [OF st Suc.prems(1)] log_steps [OF st Suc.prems(1,2)]
      by (meson rtranclp_trans)
  qed
qed simp

section \<open>Mutate takes protocol steps only\<close>

lemma after_commit_steps:
  assumes "others_ok ev" and "sys_inv (wd_sys w)" and "sn_Record snap = Some r"
    and "sy_log (wd_sys w) (sn_TeamId snap) v = Some r"
    and "after_commit ev snap (Some v) ss res n out w = (x, w')"
  shows "team_step\<^sup>*\<^sup>* (wd_sys w) (wd_sys w')"
proof -
  have "w' = w \<or> (\<exists>i y. repairIndexMismatch ev snap (Some v) (mr_Decision res) i ss w = (y, w'))"
    using assms(5) by (auto simp: after_commit_def Let_def split: commitOutcome.splits if_splits prod.splits sum.splits)
  then show ?thesis
    using repair_rounds_steps [OF assms(1,3,2,4)] unfolding repairIndexMismatch_def by blast
qed

lemma decide_steps:
  assumes "others_ok ev" and "sys_inv (wd_sys w)" and "op_Caller op \<noteq> 0"
    and "bi_mode bnd \<noteq> bindModeCreate" and "sn_TeamId snap = bi_teamId bnd" and "sn_Record snap = Some r"
    and "sy_log (wd_sys w) (bi_teamId bnd) (sn_Version snap) = Some r" and "tr_next_join_seq r \<noteq> - 1"
    and "decide_and_commit ev cfg bnd op snap res n w = (x, w')"
  shows "team_step\<^sup>*\<^sup>* (wd_sys w) (wd_sys w')"
proof -
  let ?op = "op\<lparr>op_CallerTeamId := sn_PlayerTeamId snap\<rparr>" and ?v = "sn_Version snap"
  let ?ss = "loadSessions ev (wd_calls w - 1) (sn_Record snap)"
  define d where "d = Apply ?op (Some r) (of_nat (sn_NowMs snap)) ?ss cfg"
  obtain c w1 where c: "commit ev (bi_teamId bnd) (Some ?v) d (sn_NowMs snap) w = (c, w1)" by fastforce
  have cases: "w' = w \<or> d_Changed d \<and> (w' = w1 \<or> (\<exists>out. after_commit ev snap (Some ?v) ?ss (res\<lparr>mr_Decision := d\<rparr>) n out w1 = (x, w')))"
    using assms(4,9) c by (auto simp: decide_and_commit_def Let_def assms(6) d_def split: if_splits sum.splits)
  show ?thesis
  proof (cases "w' = w")
    case False
    then have "decides r d" using by_rule [of ?op r d] assms(3,8) cases d_def by simp
    then have st: "team_step\<^sup>*\<^sup>* (wd_sys w) (wd_sys w1)" using commit_steps [OF assms(1,2) c assms(7)] by blast
    have "sy_log (wd_sys w1) (sn_TeamId snap) ?v = Some r" using log_steps [OF st assms(2,7)] assms(5) by simp
    then show ?thesis
      using cases False after_commit_steps [OF assms(1) sys_inv_steps [OF st assms(2)] assms(6)] st
      by (meson rtranclp_trans)
  qed simp
qed

text \<open>A new team: its id comes from the generator and nobody else commits to it.\<close>

definition fresh_team :: "u64 \<Rightarrow> team_sys \<Rightarrow> bool" where
  "fresh_team t s \<longleftrightarrow> (\<forall>v. sy_log s t v = None)"

definition owns_new_id :: "(nat \<Rightarrow> call_env) \<Rightarrow> u64 \<Rightarrow> bool" where
  "owns_new_id ev t \<longleftrightarrow> (\<forall>k. ce_fate (ev k) \<noteq> Resent \<and> (\<forall>s. fresh_team t s \<longrightarrow> fresh_team t (ce_others (ev k) s)))"

lemma create_kept: "applyCreate op rec now = d \<Longrightarrow> d_Kept d = []"
  by (auto simp: applyCreate_def reject_def decision_zero_def)

lemma exec_commit_kept: "exec_commit a s = (ReplyIndexMismatch i, s') \<Longrightarrow> 1 \<le> i \<and> i \<le> length (ca_kept a)"
  by (auto simp: exec_commit_def scriptCommit_def Let_def dest!: first_pos_Some split: prod.splits if_splits option.splits)

lemma evalCtx_inr: "evalCtx ev script w = (Inr q, w') \<Longrightarrow> \<exists>s. script s = (q, wd_sys w')"
  by (auto simp: evalCtx_def Let_def split: call_fate.splits prod.splits)

lemma commit_inr:
  assumes "commit ev t xv d now w = (Inr out, w')"
  obtains q s where "evalCtx ev (exec_commit (buildCommitArgs t xv d)) w = (Inr q, w')" "out = commit_outcome t d now q"
    "exec_commit (buildCommitArgs t xv d) s = (q, wd_sys w')" "validateCommitSets t d = None"
  using assms by (auto simp: commit_def split: option.splits prod.splits sum.splits dest!: evalCtx_inr)

lemma commit_mismatch_range:
  assumes "commit ev t xv d now w = (Inr (commitIndexMismatch i), w')"
  shows "1 \<le> i \<and> i \<le> length (d_Kept d)"
proof -
  obtain q s where q: "commitIndexMismatch i = commit_outcome t d now q" "exec_commit (buildCommitArgs t xv d) s = (q, wd_sys w')"
    by (rule commit_inr [OF assms])
  then have "q = ReplyIndexMismatch i" by (auto simp: commit_outcome_def split: commit_reply.splits)
  then show ?thesis using q(2) exec_commit_kept by (fastforce simp: buildCommitArgs_def)
qed

lemma evalCtx_once:
  assumes "evalCtx ev script w = (r, w')" and "ce_fate (ev (wd_calls w)) \<noteq> Resent"
  shows "wd_sys w' = ce_others (ev (wd_calls w)) (wd_sys w) \<and> r = Inl ErrRedis \<or>
    (\<exists>x. script (ce_others (ev (wd_calls w)) (wd_sys w)) = (x, wd_sys w') \<and> (r = Inr x \<or> r = Inl ErrRedis))"
  using assms by (auto simp: evalCtx_def Let_def split: call_fate.splits prod.splits)

lemma create_commit:
  assumes "others_ok ev" and "sys_inv (wd_sys w)" and "owns_new_id ev t" and "fresh_team t (wd_sys w)"
    and "d = applyCreate op None now" and "d_Changed d" and "commit ev t None d now' w = (x, w')"
  shows "team_step\<^sup>*\<^sup>* (wd_sys w) (wd_sys w') \<and> (x = Inr commitConflict \<longrightarrow> fresh_team t (wd_sys w'))"
  using commit_call [OF assms(7)]
proof (elim disjE exE conjE)
  assume "w' = w" then show ?thesis using assms(4) by simp
next
  fix q assume v: "validateCommitSets t d = None" and q: "evalCtx ev (exec_commit (buildCommitArgs t None d)) w = (q, w')"
    and x: "x = map_sum id (commit_outcome t d now') q"
  let ?s = "ce_others (ev (wd_calls w)) (wd_sys w)"
  obtain r where "d_Record d = Some r" "tr_team_id r = op_NewTeamId op"
    using assms(5,6) by (auto elim: applyCreate_wf)
  then have t: "op_NewTeamId op = t" using v by (auto simp: validateCommitSets_def Let_def split: if_splits)
  have s: "team_step\<^sup>*\<^sup>* (wd_sys w) ?s" "fresh_team t ?s"
    using assms(1-4) by (simp_all add: others_ok_def owns_new_id_def)
  have step: "team_step\<^sup>*\<^sup>* (wd_sys w) s' \<and> (y = ReplyConflict \<longrightarrow> fresh_team t s')"
    if e: "exec_commit (buildCommitArgs t None d) ?s = (y, s')" for y s'
  proof
    have "team_step ?s s'" using create [of ?s op d now] s(2) assms(5,6) t e by (simp add: fresh_team_def)
    with s(1) show "team_step\<^sup>*\<^sup>* (wd_sys w) s'" by (rule rtranclp.rtrancl_into_rtrancl)
    show "y = ReplyConflict \<longrightarrow> fresh_team t s'"
      using e by (cases rule: exec_commit_cases) (use s(2) in \<open>auto simp: fresh_team_def\<close>)
  qed
  have "ce_fate (ev (wd_calls w)) \<noteq> Resent" using assms(3) by (simp add: owns_new_id_def)
  from evalCtx_once [OF q this] show ?thesis
  proof (elim disjE exE conjE)
    fix y assume y: "exec_commit (buildCommitArgs t None d) ?s = (y, wd_sys w')" "q = Inr y"
    have "x = Inr commitConflict \<Longrightarrow> y = ReplyConflict"
      using x y(2) by (auto simp: commit_outcome_def split: commit_reply.splits)
    then show ?thesis using step [OF y(1)] by blast
  qed (use s step x in \<open>auto simp: id_def\<close>)
qed

lemma create_steps:
  assumes "others_ok ev" and "sys_inv (wd_sys w)" and "owns_new_id ev (bi_teamId bnd)" and "fresh_team (bi_teamId bnd) (wd_sys w)"
    and "bi_mode bnd = bindModeCreate" and "sn_Record snap = None"
    and "decide_and_commit ev cfg bnd op snap res n w = (x, w')"
  shows "team_step\<^sup>*\<^sup>* (wd_sys w) (wd_sys w') \<and> (\<forall>res' n'. x = Inr (Again res' n') \<longrightarrow> fresh_team (bi_teamId bnd) (wd_sys w'))"
proof -
  let ?op = "op\<lparr>op_CallerTeamId := sn_PlayerTeamId snap\<rparr>" and ?now = "of_nat (sn_NowMs snap)"
  let ?ss = "loadSessions ev (wd_calls w - 1) None"
  define d where "d = Apply ?op None ?now ?ss cfg"
  obtain c w1 where c: "commit ev (bi_teamId bnd) None d (sn_NowMs snap) w = (c, w1)" by fastforce
  have cases: "w' = w \<and> (\<nexists>res' n'. x = Inr (Again res' n')) \<or> d_Changed d \<and>
      (case c of Inl e \<Rightarrow> x = Inl e \<and> w' = w1
       | Inr out \<Rightarrow> after_commit ev snap None ?ss (res\<lparr>mr_Decision := d\<rparr>) n out w1 = (x, w'))"
    using assms(5,7) c by (auto simp: decide_and_commit_def Let_def assms(6) d_def split: if_splits sum.splits)
  show ?thesis
  proof (cases "d_Changed d")
    case False
    then show ?thesis using cases by auto
  next
    case True
    then have d: "d = applyCreate ?op None ?now" by (auto simp: d_def Apply_def reject_def decision_zero_def split: if_splits)
    note cc = create_commit [OF assms(1-4) d True c]
    have "c \<noteq> Inr (commitIndexMismatch i)" for i
      using commit_mismatch_range [of ev "bi_teamId bnd" None d "sn_NowMs snap" w i w1] c create_kept [OF d [symmetric]] by auto
    then have "w' = w \<or> w' = w1 \<and> (\<forall>res' n'. x = Inr (Again res' n') \<longrightarrow> c = Inr commitConflict)"
      using cases by (cases c) (auto simp: after_commit_def Let_def split: commitOutcome.splits)
    then show ?thesis using cc assms(4) by auto
  qed
qed

lemma store_read_fresh:
  assumes "owns_new_id ev t" and "fresh_team t (wd_sys w)" and "store_read ev p t w = (r, w')"
  shows "fresh_team t (wd_sys w')"
  using assms read_script_same evalCtx_once [OF assms(3) [unfolded store_read_def]]
  by (fastforce simp: owns_new_id_def)

lemma record_missing_steps:
  assumes "others_ok ev" and "sys_inv (wd_sys w)" and "record_missing ev bnd snap res w = (x, w')"
  shows "team_step\<^sup>*\<^sup>* (wd_sys w) (wd_sys w')"
proof -
  have "w' = w \<or> (\<exists>y. evalCtx ev (exec_heal (bi_playerId bnd) (bi_teamId bnd)) w = (y, w'))"
    using assms(3) by (auto simp: record_missing_def HealOrphan_def Let_def split: if_splits prod.splits sum.splits)
  then show ?thesis using evalCtx_steps [OF assms(1,2)] heal by (metis r_into_rtranclp rtranclp.rtrancl_refl)
qed

definition join_exhausted :: "team_sys \<Rightarrow> bool" where
  "join_exhausted s \<longleftrightarrow> (\<exists>t v r. sy_log s t v = Some r \<and> tr_next_join_seq r = - 1)"

text \<open>A run of the protocol, unless some team has used up its \<open>2^64\<close> joining numbers on the way.\<close>

definition protocol_run :: "team_sys \<Rightarrow> team_sys \<Rightarrow> bool" where
  "protocol_run s s' \<longleftrightarrow> team_step\<^sup>*\<^sup>* s s' \<or> (\<exists>s1. team_step\<^sup>*\<^sup>* s s1 \<and> join_exhausted s1)"

lemma protocol_run_trans: "team_step\<^sup>*\<^sup>* s s1 \<Longrightarrow> protocol_run s1 s2 \<Longrightarrow> protocol_run s s2"
  unfolding protocol_run_def by (meson rtranclp_trans)

lemma mutate_turn_run:
  assumes "others_ok ev" and "sys_inv (wd_sys w)" and "op_Caller op \<noteq> 0"
    and new: "bi_mode bnd = bindModeCreate \<Longrightarrow> owns_new_id ev (bi_teamId bnd) \<and> fresh_team (bi_teamId bnd) (wd_sys w)"
    and "mutate_turn ev cfg bnd op res n w = (x, w')"
  shows "team_step\<^sup>*\<^sup>* (wd_sys w) (wd_sys w') \<and>
      (\<forall>res' n'. x = Inr (Again res' n') \<longrightarrow> bi_mode bnd = bindModeCreate \<longrightarrow> fresh_team (bi_teamId bnd) (wd_sys w')) \<or>
    (\<exists>s1. team_step\<^sup>*\<^sup>* (wd_sys w) s1 \<and> join_exhausted s1)"
proof -
  obtain r w1 where r: "store_read ev (bi_playerId bnd) (bi_teamId bnd) w = (r, w1)" by fastforce
  have st: "team_step\<^sup>*\<^sup>* (wd_sys w) (wd_sys w1)" by (rule store_read_steps [OF assms(1,2) r])
  have inv: "sys_inv (wd_sys w1)" by (rule sys_inv_steps [OF st assms(2)])
  show ?thesis
  proof (cases r)
    case (Inl e)
    then show ?thesis using assms(5) r st by (auto simp: mutate_turn_def)
  next
    case (Inr snap)
    note rs = store_read_inr [OF r [unfolded Inr]]
    note log = snapshot_logged [OF inv rs]
    let ?res = "res\<lparr>mr_Snapshot := snap\<rparr>"
    have "w' = w1 \<and> (\<forall>res' n'. x \<noteq> Inr (Again res' n')) \<or>
        record_missing ev bnd snap ?res w1 = (x, w') \<and> bi_mode bnd \<noteq> bindModeCreate \<or>
        decide_and_commit ev cfg bnd op snap ?res n w1 = (x, w') \<and> (bi_mode bnd = bindModeCreate \<longleftrightarrow> sn_Record snap = None)"
      using assms(5) r Inr by (auto simp: mutate_turn_def Let_def split: if_splits)
    then show ?thesis
    proof (elim disjE conjE)
      assume d: "decide_and_commit ev cfg bnd op snap ?res n w1 = (x, w')" and m: "bi_mode bnd = bindModeCreate \<longleftrightarrow> sn_Record snap = None"
      show ?thesis
      proof (cases "sn_Record snap")
        case None
        then have c: "bi_mode bnd = bindModeCreate" using m by simp
        have "fresh_team (bi_teamId bnd) (wd_sys w1)" using store_read_fresh r new [OF c] by blast
        then have "team_step\<^sup>*\<^sup>* (wd_sys w1) (wd_sys w') \<and>
            (\<forall>res' n'. x = Inr (Again res' n') \<longrightarrow> fresh_team (bi_teamId bnd) (wd_sys w'))"
          using create_steps [OF assms(1) inv _ _ c None d] new [OF c] by blast
        then show ?thesis using rtranclp_trans [OF st] by blast
      next
        case (Some q)
        show ?thesis
        proof (cases "tr_next_join_seq q = - 1")
          case True
          then show ?thesis using st log(2) [OF Some] unfolding join_exhausted_def by blast
        next
          case False
          have "team_step\<^sup>*\<^sup>* (wd_sys w1) (wd_sys w')"
            using decide_steps [OF assms(1) inv assms(3) _ log(1) Some log(2) [OF Some] False d] m Some by simp
          then show ?thesis using st m Some by (auto intro: rtranclp_trans)
        qed
      qed
    next
      assume "record_missing ev bnd snap ?res w1 = (x, w')" and "bi_mode bnd \<noteq> bindModeCreate"
      then show ?thesis using record_missing_steps [OF assms(1) inv] rtranclp_trans [OF st] by blast
    qed (use st in auto)
  qed
qed

lemma mutate_loop_run:
  "others_ok ev \<Longrightarrow> op_Caller op \<noteq> 0 \<Longrightarrow> sys_inv (wd_sys w) \<Longrightarrow>
    (bi_mode bnd = bindModeCreate \<longrightarrow> owns_new_id ev (bi_teamId bnd) \<and> fresh_team (bi_teamId bnd) (wd_sys w)) \<Longrightarrow>
    mutate_loop ev cfg bnd op res n w = (x, w') \<Longrightarrow> protocol_run (wd_sys w) (wd_sys w')"
proof (induction ev cfg bnd op res n w rule: mutate_loop.induct)
  case (1 ev cfg bnd op res n w)
  obtain y w1 where y: "mutate_turn ev cfg bnd op res n w = (y, w1)" by fastforce
  show ?case
  proof (cases "\<exists>s1. team_step\<^sup>*\<^sup>* (wd_sys w) s1 \<and> join_exhausted s1")
    case True
    then show ?thesis by (simp add: protocol_run_def)
  next
    case False
    then have t: "team_step\<^sup>*\<^sup>* (wd_sys w) (wd_sys w1)"
      "\<forall>res' n'. y = Inr (Again res' n') \<longrightarrow> bi_mode bnd = bindModeCreate \<longrightarrow> fresh_team (bi_teamId bnd) (wd_sys w1)"
      using mutate_turn_run [OF 1(2) 1(4) 1(3) _ y] 1(5) by blast+
    show ?thesis
    proof (cases "\<exists>res' n'. y = Inr (Again res' n')")
      case True
      then obtain res' n' where a: "y = Inr (Again res' n')" by blast
      have "mutate_loop ev cfg bnd op res' n' w1 = (x, w')" using 1(6) y a by simp
      then have "protocol_run (wd_sys w1) (wd_sys w')"
        using 1(1) [OF y [symmetric] a refl 1(2,3) sys_inv_steps [OF t(1) 1(4)]] t(2) 1(5) a by blast
      then show ?thesis by (rule protocol_run_trans [OF t(1)])
    next
      case False
      then have "w' = w1" using 1(6) y by (auto split: sum.splits turn.splits)
      then show ?thesis using t(1) by (simp add: protocol_run_def)
    qed
  qed
qed

end
