(* ===== verification/TeamTheorems.thy ===== *)
theory TeamTheorems
  imports TeamInvariant
begin

text \<open>
  The properties of the roster rules.
\<close>

section \<open>What the single operations do to the roster\<close>

text \<open>While the match lock is active every operation leaves members, lock and identity alone.\<close>

definition same_roster :: "ruleCtx \<Rightarrow> ruleCtx \<Rightarrow> bool" where
  "same_roster c c' \<longleftrightarrow> \<not> rc_disbanded c' \<and>
     tr_members (rc_rec c') = tr_members (rc_rec c) \<and>
     tr_match_lock_token (rc_rec c') = tr_match_lock_token (rc_rec c) \<and>
     tr_match_lock_expire_at_ms (rc_rec c') = tr_match_lock_expire_at_ms (rc_rec c) \<and>
     tr_match_lock_roster (rc_rec c') = tr_match_lock_roster (rc_rec c)"

lemma same_roster_fail: "\<not> rc_disbanded c \<Longrightarrow> same_roster c (fail k p c)"
  by (simp add: same_roster_def)

lemma same_roster_zone: "\<not> rc_disbanded c \<Longrightarrow> zoneCheck z c = Some c' \<Longrightarrow> same_roster c c'"
  using zoneCheck_Some same_roster_fail by blast

lemma evict_lock_fields [simp]:
  "tr_match_lock_token (evictOldestApplications r p) = tr_match_lock_token r"
  "tr_match_lock_expire_at_ms (evictOldestApplications r p) = tr_match_lock_expire_at_ms r"
  "tr_match_lock_roster (evictOldestApplications r p) = tr_match_lock_roster r"
  "tr_match_lock_token (evictOldestInvites r p) = tr_match_lock_token r"
  "tr_match_lock_expire_at_ms (evictOldestInvites r p) = tr_match_lock_expire_at_ms r"
  "tr_match_lock_roster (evictOldestInvites r p) = tr_match_lock_roster r"
  by (simp_all add: evictOldestApplications_def evictOldestInvites_def)

lemma apply_same_roster: "\<not> rc_disbanded c \<Longrightarrow> same_roster c (rc_apply c)"
  unfolding rc_apply_def Let_def
  by (auto split: option.splits intro: same_roster_fail same_roster_zone) (simp_all add: same_roster_def)

lemma invite_same_roster: "\<not> rc_disbanded c \<Longrightarrow> same_roster c (rc_invite c)"
  unfolding rc_invite_def Let_def
  by (auto split: option.splits intro: same_roster_fail same_roster_zone) (simp_all add: same_roster_def)

lemma locked_same_roster:
  assumes "run_op k = Some step" and "locked c" and "\<not> rc_disbanded c"
  shows "same_roster c (step c)"
proof -
  note f = same_roster_fail [OF assms(3)]
  have id: "same_roster c c" using assms(3) by (simp add: same_roster_def)
  have ha: "same_roster c (rc_handleApplication c)"
    using assms f id
    by (auto simp: rc_handleApplication_def Let_def removeApplication_def same_roster_def split: option.splits)
  have ri: "same_roster c (rc_respondInvite c)"
    using assms f id
    by (auto simp: rc_respondInvite_def Let_def removeInvite_def same_roster_def split: option.splits)
  have le: "same_roster c (rc_leave c)" "same_roster c (rc_kick c)" "same_roster c (rc_transferLeader c)"
    "same_roster c (rc_disband c)"
    using assms f id
    by (auto simp: rc_leave_def rc_kick_def rc_transferLeader_def rc_disband_def Let_def same_roster_def)
  show ?thesis
    using assms(1) id ha ri le apply_same_roster [OF assms(3)] invite_same_roster [OF assms(3)]
    by (cases k) (auto simp: run_op_def)
qed


section \<open>Leaders\<close>

abbreviation join_key :: "TeamMemberRecord \<Rightarrow> u32 \<times> u64" where
  "join_key m \<equiv> (tm_join_seq m, tm_player_id m)"

lemma sorted_find_least:
  assumes "sorted (map k xs)" and "List.find P xs = Some m" and "m' \<in> set xs" and "P m'"
  shows "k m \<le> k m'"
  using assms by (induction xs) (auto split: if_splits)

text \<open>The successor: the earliest online candidate, and the earliest of all when none is online and
  an offline leader is allowed.\<close>

lemma pickLeader_spec:
  assumes "ms \<noteq> []"
  shows "(\<exists>m \<in> set ms. session_of s (tm_player_id m) = SessionOnline \<and> pickLeader ms s b = tm_player_id m \<and>
            (\<forall>m' \<in> set ms. session_of s (tm_player_id m') = SessionOnline \<longrightarrow> join_key m \<le> join_key m')) \<or>
         (\<forall>m' \<in> set ms. session_of s (tm_player_id m') \<noteq> SessionOnline) \<and>
         (if b then pickLeader ms s b = 0
          else \<exists>m \<in> set ms. pickLeader ms s b = tm_player_id m \<and> (\<forall>m' \<in> set ms. join_key m \<le> join_key m'))"
proof -
  let ?P = "\<lambda>m. session_of s (tm_player_id m) = SessionOnline"
  have srt: "sorted (map join_key (sortMembers ms))" by (simp add: sortMembers_def)
  show ?thesis
  proof (cases "List.find ?P (sortMembers ms)")
    case (Some m)
    then have "pickLeader ms s b = tm_player_id m" by (simp only: pickLeader_def Let_def option.case)
    then show ?thesis
      using find_mem [OF Some] sorted_find_least [OF srt Some] by (intro disjI1 bexI [of _ m]) auto
  next
    case None
    then have off: "\<forall>m' \<in> set ms. \<not> ?P m'" by (auto simp: find_None_iff)
    obtain m xs where cons: "sortMembers ms = m # xs"
      using assms by (cases "sortMembers ms") (metis set_empty set_sortMembers, simp)
    have eq: "pickLeader ms s b = (if b then 0 else tm_player_id m)"
      using None cons by (simp only: pickLeader_def Let_def option.case list.case)
    have "m \<in> set ms" "\<forall>m' \<in> set ms. join_key m \<le> join_key m'"
      using srt cons set_sortMembers [of ms] by (force simp del: set_sortMembers)+
    with off eq show ?thesis by auto
  qed
qed


lemma open_ctx_pending [simp]:
  "tr_applications (rc_rec (open_ctx op r now s cfg)) = filter (\<lambda>a. ta_expire_at_ms a > now) (tr_applications r)"
  "tr_invites (rc_rec (open_ctx op r now s cfg)) = filter (\<lambda>i. ti_expire_at_ms i > now) (tr_invites r)"
  by (rule open_ctx_rec [of op r now s cfg], simp add: pruneExpired_def Let_def)+

lemma open_ctx_locked [simp]: "locked (open_ctx op r now s cfg) = MatchLockActive (Some r) now"
  by (simp add: locked_def MatchLockActive_def)

lemma open_ctx_full [simp]: "full (open_ctx op r now s cfg) = (length (tr_members r) \<ge> Capacity)"
  by (simp add: full_def)



section \<open>Repeating and undoing\<close>

lemma lazyTransferLeader_again: "lazyTransferLeader r s = (r', t) \<Longrightarrow> lazyTransferLeader r' s = (r', False)"
  by (frule lazyTransferLeader_cases [where thesis = "lazyTransferLeader r' s = (r', False)"])
     (auto simp: lazyTransferLeader_def Let_def)

lemma pruneExpired_again: "pruneExpired r now = (r', a, i) \<Longrightarrow> pruneExpired (r'\<lparr>tr_leader_id := l\<rparr>) now = (r'\<lparr>tr_leader_id := l\<rparr>, False, False)"
  by (auto simp: pruneExpired_def Let_def list_ex_iff)




section \<open>A concrete team\<close>

definition mem :: "u64 \<Rightarrow> u32 \<Rightarrow> TeamMemberRecord" where
  "mem p q = \<lparr>tm_player_id = p, tm_zone_id = 9, tm_joined_at_ms = 5, tm_join_seq = q\<rparr>"

definition demo_team :: TeamRecord where
  "demo_team = \<lparr>tr_team_id = 77, tr_leader_id = 1, tr_zone_id = 9, tr_created_at_ms = 5,
     tr_members = [mem 1 1, mem 2 2],
     tr_applications = [\<lparr>ta_player_id = 3, ta_zone_id = 9, ta_applied_at_ms = 50, ta_expire_at_ms = 500\<rparr>],
     tr_invites = [\<lparr>ti_invitee_id = 4, ti_inviter_id = 1, ti_zone_id = 9, ti_invited_at_ms = 60, ti_expire_at_ms = 90\<rparr>],
     tr_next_join_seq = 3, tr_match_lock_token = '''', tr_match_lock_expire_at_ms = 0,
     tr_match_lock_roster = []\<rparr>"

lemma demo_team_wf: "team_wf demo_team"
  by (simp add: demo_team_def mem_def team_wf_defs Capacity_def MaxApplications_def MaxInvitesPerTeam_def)

section \<open>Properties\<close>

text \<open>
  Property C25.  Every change the roster rules decide on a well-formed record keeps the documented
  contract: the new record is well-formed again (at most five distinct members in joining order, the
  leader among them, at most ten applications and ten invites, none of a member), its members are
  exactly the joined and the kept, everyone who is gone is listed as left, and exactly the invites
  that disappeared are removed from the reverse index.
\<close>

theorem Apply_contract:
  assumes "team_wf r" and "op_Caller op \<noteq> 0" and "tr_next_join_seq r \<noteq> - 1"
    and "d_Changed (Apply op (Some r) now s cfg)"
  shows "decision_contract r (Apply op (Some r) now s cfg)"
  by (rule Apply_keeps_contract [OF assms])

theorem Apply_contract_witness:
  "decision_contract demo_team (Apply (HandleApplicationOp 1 3 True) (Some demo_team) 100 Map.empty cfg_zero)"
proof (rule Apply_contract [OF demo_team_wf])
  show "d_Changed (Apply (HandleApplicationOp 1 3 True) (Some demo_team) 100 Map.empty cfg_zero)" by code_simp
qed (simp_all add: HandleApplicationOp_def demo_team_def)



text \<open>
  Property C27.  An active match lock freezes the roster: whatever operation is requested, the team is
  not disbanded, nobody joins, no member leaves, and the lock itself is untouched.
\<close>

theorem lock_freezes_roster:
  assumes "team_wf r" and "MatchLockActive (Some r) now" and "op_Caller op \<noteq> 0"
    and "tr_next_join_seq r \<noteq> - 1" and "d_Changed (Apply op (Some r) now s cfg)"
  shows "\<exists>r'. d_Record (Apply op (Some r) now s cfg) = Some r' \<and> tr_members r' = tr_members r \<and>
    tr_match_lock_token r' = tr_match_lock_token r \<and>
    tr_match_lock_expire_at_ms r' = tr_match_lock_expire_at_ms r \<and>
    tr_match_lock_roster r' = tr_match_lock_roster r \<and>
    d_Joined (Apply op (Some r) now s cfg) = [] \<and>
    set (d_Left (Apply op (Some r) now s cfg)) \<inter> set (member_ids r) = {}"
proof -
  obtain step where step: "run_op (op_Kind op) = Some step"
      "Apply op (Some r) now s cfg = finish (step (open_ctx op r now s cfg)) r"
    using Apply_open changed_code [OF assms(5)] by metis
  let ?c = "step (open_ctx op r now s cfg)"
  have same: "same_roster (open_ctx op r now s cfg) ?c"
    by (rule locked_same_roster [OF step(1)]) (use assms(2) in simp_all)
  have "ctx_ok (tr_team_id r) ?c"
    using run_op_ok [OF step(1) open_ctx_fresh [OF assms(1,3,4)]] by simp
  then have rec: "\<not> rc_disbanded ?c \<Longrightarrow> team_wf (rc_rec ?c)" by (simp add: ctx_ok_def)
  have chg: "rc_code ?c = 0" "rc_opChanged ?c \<or> rc_appsExpired ?c \<or> rc_invitesExpired ?c \<or> rc_transferred ?c"
    using assms(5) unfolding step(2)
    by (auto simp: finish_def Let_def reject_def decision_zero_def split: if_splits)
  have "MemberIds (rc_rec ?c) = MemberIds r" using same by (simp add: same_roster_def MemberIds_def)
  then show ?thesis
    unfolding step(2) using finish_fields [OF chg rec, of r] same
    by (auto simp: same_roster_def filter_empty_conv)
qed

theorem lock_freezes_roster_witness:
  "\<exists>r'. d_Record (Apply (InviteOp 1 8 9) (Some (demo_team\<lparr>tr_match_lock_token := ''t'', tr_match_lock_expire_at_ms := 900\<rparr>)) 100 Map.empty cfg_zero) = Some r' \<and>
    tr_members r' = tr_members demo_team"
proof -
  let ?r = "demo_team\<lparr>tr_match_lock_token := ''t'', tr_match_lock_expire_at_ms := 900\<rparr>"
  have wf: "team_wf ?r" using demo_team_wf by (simp add: team_wf_defs)
  have lck: "MatchLockActive (Some ?r) 100" by code_simp
  have "d_Changed (Apply (InviteOp 1 8 9) (Some ?r) 100 Map.empty cfg_zero)" by code_simp
  from lock_freezes_roster [OF wf lck _ _ this] show ?thesis
    by (auto simp: InviteOp_def demo_team_def)
qed



text \<open>
  Property C29.  Succession: when the leader is taken out of a team that goes on, the new leader is the
  online member who joined first, and the member who joined first of all when nobody is online.
\<close>

theorem leader_succession:
  assumes "team_wf (rc_rec c)" and "p = tr_leader_id (rc_rec c)"
    and "kept = filter (\<lambda>m. tm_player_id m \<noteq> p) (tr_members (rc_rec c))" and "kept \<noteq> []"
  shows "\<exists>m \<in> set kept. tr_leader_id (rc_rec (removeMember p c)) = tm_player_id m \<and>
    (if \<exists>m' \<in> set kept. session_of (rc_sessions c) (tm_player_id m') = SessionOnline
     then session_of (rc_sessions c) (tm_player_id m) = SessionOnline \<and>
       (\<forall>m' \<in> set kept. session_of (rc_sessions c) (tm_player_id m') = SessionOnline \<longrightarrow> join_key m \<le> join_key m')
     else \<forall>m' \<in> set kept. join_key m \<le> join_key m')"
proof -
  have "tr_leader_id (rc_rec (removeMember p c)) = pickLeader kept (rc_sessions c) False"
    using assms(2-4) by (simp add: removeMember_def Let_def)
  then show ?thesis
    using pickLeader_spec [OF assms(4), of "rc_sessions c" False] by auto
qed

theorem leader_succession_witness:
  "tr_leader_id (rc_rec (removeMember 1 (new_ctx op_zero demo_team 100 Map.empty cfg_zero))) = 2"
proof -
  let ?c = "new_ctx op_zero demo_team 100 Map.empty cfg_zero"
  have "team_wf (rc_rec ?c)" using demo_team_wf by (simp add: new_ctx_def)
  moreover have "1 = tr_leader_id (rc_rec ?c)"
    "[mem 2 2] = filter (\<lambda>m. tm_player_id m \<noteq> 1) (tr_members (rc_rec ?c))"
    by (simp_all add: new_ctx_def demo_team_def mem_def)
  ultimately have "\<exists>m \<in> set [mem 2 2]. tr_leader_id (rc_rec (removeMember 1 ?c)) = tm_player_id m"
    using leader_succession [of ?c 1 "[mem 2 2]"] by blast
  then show ?thesis by (simp add: mem_def)
qed

text \<open>
  The battle roster starts with the leader, lists every member exactly once, and keeps
  the others in joining order.
\<close>

lemma MatchRoster_leader_first:
  assumes "team_wf r"
  shows "MatchRoster r = tr_leader_id r # filter (\<lambda>i. i \<noteq> tr_leader_id r) (member_ids r) \<and>
    mset (MatchRoster r) = mset (member_ids r)"
proof -
  have ids: "MemberIds r = member_ids r"
    using assms by (simp add: MemberIds_def sortMembers_id team_wf_defs)
  have l: "tr_leader_id r \<in> set (member_ids r)" "distinct (member_ids r)"
    using assms by (simp_all add: team_wf_defs)
  have roster: "MatchRoster r = tr_leader_id r # filter (\<lambda>i. i \<noteq> tr_leader_id r) (member_ids r)"
    using l(1) by (simp add: MatchRoster_def Let_def ids)
  moreover have "mset (MatchRoster r) = mset (member_ids r)"
    using l by (intro set_eq_iff_mset_eq_distinct [THEN iffD1]) (auto simp: roster)
  ultimately show ?thesis by simp
qed

text \<open>
  Recomputing a decision on its own result changes nothing more: after a refresh has
  pruned expired entries and passed on an absent leader's role, refreshing again at the same time with
  the same sessions decides that there is nothing to do.
\<close>

lemma refresh_settles:
  assumes "team_wf r" and "d_Record (Apply (RefreshOp p) (Some r) now s cfg) = Some r'"
  shows "\<not> d_Changed (Apply (RefreshOp q) (Some r') now s cfg)"
proof -
  let ?c = "open_ctx (RefreshOp p) r now s cfg"
  obtain r1 a i where prune: "pruneExpired r now = (r1, a, i)" by (metis prod_cases3)
  obtain r2 t where lazy: "lazyTransferLeader r1 s = (r2, t)" by fastforce
  have rec: "rc_rec ?c = r2"
    using prune lazy by (simp add: open_ctx_def ctx_transfer_def ctx_prune_def new_ctx_def)
  have wf: "team_wf r2" using open_ctx_base [OF assms(1)] rec by (metis ctx_base_def)
  have "r' = r2\<lparr>tr_members := sortMembers (tr_members r2)\<rparr>"
    using assms(2) rec
    by (auto simp: Apply_def RefreshOp_def run_op_def open_ctx_def [symmetric] finish_def reject_def
        decision_zero_def Let_def split: if_splits)
  then have r': "r' = r2" using wf by (simp add: sortMembers_id team_wf_defs)
  have "pruneExpired r2 now = (r2, False, False)"
    using lazy pruneExpired_again [OF prune]
    by (cases rule: lazyTransferLeader_cases) (metis TeamRecord.surjective TeamRecord.update_convs(2), simp)
  then show ?thesis
    using lazyTransferLeader_again [OF lazy]
    by (simp add: Apply_def RefreshOp_def run_op_def r' ctx_transfer_def ctx_prune_def new_ctx_def finish_def
        decision_zero_def Let_def)
qed



text \<open>
  A full list makes room by dropping the oldest entry, never the one just added: after
  eviction at most ten applications (invites) are left, and every dropped entry belongs to somebody
  else and is at least as old as every other entry that stays.
\<close>

lemma eviction_drops_oldest:
  assumes "distinct (applicant_ids r)" and "distinct (invitee_ids r)"
  shows "(\<exists>dropped. mset (tr_applications r) = mset (tr_applications (evictOldestApplications r p)) + dropped \<and>
       length (tr_applications (evictOldestApplications r p)) \<le> MaxApplications \<and>
       (\<forall>a \<in># dropped. ta_player_id a \<noteq> p \<and>
          (\<forall>b \<in> set (tr_applications (evictOldestApplications r p)). ta_player_id b \<noteq> p \<longrightarrow>
             older ta_player_id ta_applied_at_ms a b))) \<and>
     (\<exists>dropped. mset (tr_invites r) = mset (tr_invites (evictOldestInvites r p)) + dropped \<and>
       length (tr_invites (evictOldestInvites r p)) \<le> MaxInvitesPerTeam \<and>
       (\<forall>a \<in># dropped. ti_invitee_id a \<noteq> p \<and>
          (\<forall>b \<in> set (tr_invites (evictOldestInvites r p)). ti_invitee_id b \<noteq> p \<longrightarrow>
             older ti_invitee_id ti_invited_at_ms a b)))"
proof -
  have caps: "0 < MaxApplications" "0 < MaxInvitesPerTeam" by (simp_all add: MaxApplications_def MaxInvitesPerTeam_def)
  have rec: "tr_applications (evictOldestApplications r p) =
      evict_oldest ta_player_id ta_applied_at_ms MaxApplications p (tr_applications r)"
    "tr_invites (evictOldestInvites r p) =
      evict_oldest ti_invitee_id ti_invited_at_ms MaxInvitesPerTeam p (tr_invites r)"
    by (simp_all add: evictOldestApplications_def evictOldestInvites_def)
  show ?thesis
    unfolding rec
    using evict_oldest_spec [of "tr_applications r" ta_player_id ta_applied_at_ms MaxApplications p]
      evict_oldest_spec [of "tr_invites r" ti_invitee_id ti_invited_at_ms MaxInvitesPerTeam p]
      evict_oldest_keeps(3) [OF assms(1) caps(1), where timef = ta_applied_at_ms and keep = p]
      evict_oldest_keeps(3) [OF assms(2) caps(2), where timef = ti_invited_at_ms and keep = p]
    by blast
qed

end
