(* ===== verification/TeamStoreTheorems.thy ===== *)
theory TeamStoreTheorems
  imports TeamStore TeamTheorems "HOL-Library.Sublist"
begin

text \<open>
  What the store operations of \<open>store.go\<close> guarantee under arbitrary interference: they keep to the
  protocol, they end, they fail only when Redis fails, and their results tell what was written.
\<close>

section \<open>Repair\<close>








section \<open>The loop as a sequence of turns\<close>

definition goes_on ::
    "(nat \<Rightarrow> call_env) \<Rightarrow> RuleConfig \<Rightarrow> Binding \<Rightarrow> Op \<Rightarrow> MutateResult \<times> nat \<times> world \<Rightarrow> MutateResult \<times> nat \<times> world \<Rightarrow> bool" where
  "goes_on ev cfg bnd op a b \<longleftrightarrow>
     (case (a, b) of ((res, n, w), (res', n', w')) \<Rightarrow> mutate_turn ev cfg bnd op res n w = (Inr (Again res' n'), w'))"

lemma mutate_loop_turns:
  "mutate_loop ev cfg bnd op res n w = (x, w') \<Longrightarrow>
   \<exists>res0 n0 w0. (goes_on ev cfg bnd op)\<^sup>*\<^sup>* (res, n, w) (res0, n0, w0) \<and>
     (mutate_turn ev cfg bnd op res0 n0 w0 = (map_sum id Return x, w'))"
proof (induction ev cfg bnd op res n w rule: mutate_loop.induct)
  case (1 ev cfg bnd op res n w)
  obtain y w1 where y: "mutate_turn ev cfg bnd op res n w = (y, w1)" by fastforce
  show ?case
  proof (cases "\<exists>res' n'. y = Inr (Again res' n')")
    case True
    then obtain res' n' where a: "y = Inr (Again res' n')" by blast
    have "mutate_loop ev cfg bnd op res' n' w1 = (x, w')" using 1(2) y a by simp
    from 1(1) [OF y [symmetric] a refl this] obtain res0 n0 w0 where
        rest: "(goes_on ev cfg bnd op)\<^sup>*\<^sup>* (res', n', w1) (res0, n0, w0)"
      and final: "mutate_turn ev cfg bnd op res0 n0 w0 = (map_sum id Return x, w')" by blast
    have "goes_on ev cfg bnd op (res, n, w) (res', n', w1)" using y a by (simp add: goes_on_def)
    from converse_rtranclp_into_rtranclp [OF this rest] final show ?thesis by blast
  next
    case False
    then have "w' = w1 \<and> y = map_sum id Return x" using 1(2) y by (auto split: sum.splits turn.splits)
    then show ?thesis using y by blast
  qed
qed




section \<open>Number of calls\<close>

lemma commit_calls: "commit ev t xv d now w = (x, w') \<Longrightarrow> wd_calls w' \<le> wd_calls w + 1"
  by (auto simp: commit_def dest: evalCtx_calls split: option.splits prod.splits sum.splits)

lemma repair_calls: "repair_rounds k ev snap xv ss kept bad i w = (x, w') \<Longrightarrow> wd_calls w' \<le> wd_calls w + k"
proof (induction k arbitrary: kept bad i w)
  case (Suc k)
  define fx where "fx = RepairRemoveMembers (sn_Record snap) (bad @ [kept ! (i - 1)]) (of_nat (sn_NowMs snap)) ss"
  obtain c w1 where c: "commit ev (sn_TeamId snap) xv fx (sn_NowMs snap) w = (c, w1)" by fastforce
  have "w' = w \<or> w' = w1 \<or> (\<exists>kept bad j. repair_rounds k ev snap xv ss kept bad j w1 = (x, w'))"
    using Suc.prems c
    by (auto simp: fx_def Let_def split: if_splits sum.splits commitOutcome.splits)
  then show ?case using Suc.IH [of _ _ _ w1] commit_calls [OF c] by fastforce
qed simp

lemma mutate_turn_calls:
  assumes "mutate_turn ev cfg bnd op res n w = (x, w')"
  shows "wd_calls w' \<le> wd_calls w + 7"
proof -
  obtain r w1 where r: "store_read ev (bi_playerId bnd) (bi_teamId bnd) w = (r, w1)" by fastforce
  have w1: "wd_calls w1 = wd_calls w + 1" using r evalCtx_calls unfolding store_read_def by blast
  have dec: "wd_calls w' \<le> wd_calls w1 + 6" if d: "decide_and_commit ev cfg bnd op snap res' n w1 = (x, w')" for snap res'
  proof -
    let ?d = "Apply (op\<lparr>op_CallerTeamId := sn_PlayerTeamId snap\<rparr>) (sn_Record snap) (of_nat (sn_NowMs snap))
        (loadSessions ev (wd_calls w1 - 1) (sn_Record snap)) cfg"
    let ?xv = "if bi_mode bnd = bindModeCreate then None else Some (sn_Version snap)"
    obtain c w2 where c: "commit ev (bi_teamId bnd) ?xv ?d (sn_NowMs snap) w1 = (c, w2)" by fastforce
    have "w' = w1 \<or> w' = w2 \<or> (\<exists>i xv ss y. repairIndexMismatch ev snap xv ?d i ss w2 = (y, w'))"
      using d c
      by (auto simp: decide_and_commit_def after_commit_def Let_def
          split: if_splits sum.splits commitOutcome.splits prod.splits)
    then show ?thesis
      using commit_calls [OF c] repair_calls [of Capacity] unfolding repairIndexMismatch_def Capacity_def by fastforce
  qed
  have mis: "wd_calls w' \<le> wd_calls w1 + 1" if "record_missing ev bnd snap res' w1 = (x, w')" for snap res'
    using that by (auto simp: record_missing_def HealOrphan_def Let_def dest: evalCtx_calls split: if_splits prod.splits sum.splits)
  have "w' = w1 \<or> (\<exists>snap res'. record_missing ev bnd snap res' w1 = (x, w')) \<or>
      (\<exists>snap res'. decide_and_commit ev cfg bnd op snap res' n w1 = (x, w'))"
    using assms r by (auto simp: mutate_turn_def Let_def split: if_splits sum.splits)
  then show ?thesis using w1 dec mis by fastforce
qed

lemma turns_calls:
  assumes "(goes_on ev cfg bnd op)\<^sup>*\<^sup>* (res, n, w) b" and "mr_Conflicts res \<le> 2" and "n \<le> Capacity"
  shows "case b of (res0, n0, w0) \<Rightarrow> mr_Conflicts res0 \<le> 2 \<and> n0 \<le> Capacity \<and>
    wd_calls w0 + 7 * ((2 - mr_Conflicts res0) + (Capacity - n0)) \<le> wd_calls w + 7 * ((2 - mr_Conflicts res) + (Capacity - n))"
  using assms(1)
proof (induction rule: rtranclp_induct)
  case (step y z)
  obtain ry ny wy where y: "y = (ry, ny, wy)" by (metis prod_cases3)
  obtain rz nz wz where z: "z = (rz, nz, wz)" by (metis prod_cases3)
  have t: "mutate_turn ev cfg bnd op ry ny wy = (Inr (Again rz nz), wz)" using step(2) by (simp add: goes_on_def y z)
  show ?case
    using step.IH mutate_turn_again [OF t] mutate_turn_calls [OF t] by (auto simp: y z CommitRetries_def)
qed (use assms in simp)

section \<open>Nothing is written unless reported\<close>

definition undisturbed :: "(nat \<Rightarrow> call_env) \<Rightarrow> bool" where
  "undisturbed ev \<longleftrightarrow> (\<forall>k. ce_fate (ev k) = Answered \<and> (\<forall>s. ce_others (ev k) s = s))"

lemma evalCtx_undisturbed:
  "undisturbed ev \<Longrightarrow> evalCtx ev script w = (x, w') \<Longrightarrow> \<exists>y. x = Inr y \<and> script (wd_sys w) = (y, wd_sys w')"
  by (auto simp: evalCtx_def undisturbed_def Let_def split: prod.splits)

lemma commit_quiet:
  assumes "undisturbed ev" and "commit ev t xv d now w = (x, w')" and "\<forall>cr. x \<noteq> Inr (commitOK cr)"
  shows "wd_sys w' = wd_sys w"
  using commit_call [OF assms(2)]
proof (elim disjE exE conjE)
  fix q assume q: "evalCtx ev (exec_commit (buildCommitArgs t xv d)) w = (q, w')" "x = map_sum id (commit_outcome t d now) q"
  then obtain y where y: "q = Inr y" "exec_commit (buildCommitArgs t xv d) (wd_sys w) = (y, wd_sys w')"
    using evalCtx_undisturbed [OF assms(1)] by blast
  from y(2) show ?thesis
  proof (cases rule: exec_commit_cases)
    case refused
    then show ?thesis by simp
  next
    case (written ver out)
    then show ?thesis using assms(3) q(2) y(1) by (simp add: commit_outcome_def)
  qed
qed simp

lemma repair_quiet:
  assumes "undisturbed ev"
  shows "repair_rounds k ev snap xv ss kept bad i w = (x, w') \<Longrightarrow> \<forall>cr. x \<noteq> Inr (Some (commitOK cr)) \<Longrightarrow> wd_sys w' = wd_sys w"
proof (induction k arbitrary: kept bad i w)
  case (Suc k)
  define fx where "fx = RepairRemoveMembers (sn_Record snap) (bad @ [kept ! (i - 1)]) (of_nat (sn_NowMs snap)) ss"
  obtain c w1 where c: "commit ev (sn_TeamId snap) xv fx (sn_NowMs snap) w = (c, w1)" by fastforce
  have "w' = w \<or> w' = w1 \<and> (\<forall>cr. c \<noteq> Inr (commitOK cr)) \<or>
      (\<exists>kept bad j. repair_rounds k ev snap xv ss kept bad j w1 = (x, w')) \<and> (\<forall>cr. c \<noteq> Inr (commitOK cr))"
    using Suc.prems c
    by (auto simp: fx_def Let_def split: if_splits sum.splits commitOutcome.splits)
  then show ?case using Suc.IH [of _ _ _ w1] Suc.prems(2) commit_quiet [OF assms c] by metis
qed simp

text \<open>What one turn reports about the repairs it made.\<close>

definition turn_repairs :: "turn \<Rightarrow> CommitResult list" where
  "turn_repairs t = (case t of Return res \<Rightarrow> mr_Repairs res | Again res _ \<Rightarrow> mr_Repairs res)"

definition wrote_nothing :: "turn \<Rightarrow> MutateResult \<Rightarrow> bool" where
  "wrote_nothing t res \<longleftrightarrow> turn_repairs t = mr_Repairs res \<and>
     (\<forall>res'. t = Return res' \<longrightarrow> mr_Outcome res' \<in> {OutcomeRejected, OutcomeUnchanged, OutcomeNotBound})"

lemma after_commit_quiet:
  assumes "undisturbed ev" and "after_commit ev snap xv ss res n out w = (Inr t, w')" and "wrote_nothing t res"
  shows "wd_sys w' = wd_sys w \<and> (\<forall>cr. out \<noteq> commitOK cr)"
  using assms(2,3) repair_quiet [OF assms(1)]
  by (auto simp: after_commit_def repairIndexMismatch_def on_conflict_def on_repaired_def wrote_nothing_def
      turn_repairs_def rejected_def Let_def
      split: commitOutcome.splits if_splits prod.splits sum.splits option.splits)

lemma after_commit_repairs:
  assumes "after_commit ev snap xv ss res n out w = (Inr t, w')"
  shows "prefix (mr_Repairs res) (turn_repairs t)"
  using assms
  by (auto simp: after_commit_def on_conflict_def on_repaired_def turn_repairs_def rejected_def Let_def
      split: commitOutcome.splits if_splits prod.splits sum.splits option.splits)

lemma mutate_turn_repairs:
  assumes "mutate_turn ev cfg bnd op res n w = (Inr t, w')"
  shows "prefix (mr_Repairs res) (turn_repairs t)"
  using assms
  by (auto simp: mutate_turn_def decide_and_commit_def record_missing_def turn_repairs_def rejected_def Let_def
      dest!: after_commit_repairs split: if_splits prod.splits sum.splits)

lemma mutate_turn_quiet:
  assumes "undisturbed ev" and "mutate_turn ev cfg bnd op res n w = (Inr t, w')" and "wrote_nothing t res"
  shows "wd_sys w' = wd_sys w"
proof -
  obtain r w1 where r: "store_read ev (bi_playerId bnd) (bi_teamId bnd) w = (r, w1)" by fastforce
  have w1: "wd_sys w1 = wd_sys w"
    using evalCtx_undisturbed [OF assms(1) r [unfolded store_read_def]] read_script_same by fastforce
  have dec: "wd_sys w' = wd_sys w1" if d: "decide_and_commit ev cfg bnd op snap (res\<lparr>mr_Snapshot := snap\<rparr>) n w1 = (Inr t, w')" for snap
  proof -
    let ?d = "Apply (op\<lparr>op_CallerTeamId := sn_PlayerTeamId snap\<rparr>) (sn_Record snap) (of_nat (sn_NowMs snap))
        (loadSessions ev (wd_calls w1 - 1) (sn_Record snap)) cfg"
    let ?xv = "if bi_mode bnd = bindModeCreate then None else Some (sn_Version snap)"
    obtain c w2 where c: "commit ev (bi_teamId bnd) ?xv ?d (sn_NowMs snap) w1 = (c, w2)" by fastforce
    have "w' = w1 \<or> (\<exists>out ss. c = Inr out \<and>
        after_commit ev snap ?xv ss (res\<lparr>mr_Snapshot := snap, mr_Decision := ?d\<rparr>) n out w2 = (Inr t, w'))"
      using d c by (auto simp: decide_and_commit_def Let_def split: if_splits sum.splits)
    moreover have "wrote_nothing t (res\<lparr>mr_Snapshot := snap, mr_Decision := ?d\<rparr>)"
      using assms(3) by (simp add: wrote_nothing_def)
    ultimately show ?thesis using after_commit_quiet [OF assms(1)] commit_quiet [OF assms(1) c] by fastforce
  qed
  have "w' = w1 \<or> (\<exists>snap. decide_and_commit ev cfg bnd op snap (res\<lparr>mr_Snapshot := snap\<rparr>) n w1 = (Inr t, w'))"
    using assms(2,3) r
    by (auto simp: mutate_turn_def record_missing_def wrote_nothing_def Let_def split: if_splits prod.splits sum.splits)
  then show ?thesis using w1 dec by auto
qed

lemma mutate_loop_quiet:
  "undisturbed ev \<Longrightarrow> mutate_loop ev cfg bnd op res n w = (Inr res', w') \<Longrightarrow> mr_Repairs res' = mr_Repairs res \<Longrightarrow>
   mr_Outcome res' \<in> {OutcomeRejected, OutcomeUnchanged, OutcomeNotBound} \<Longrightarrow> wd_sys w' = wd_sys w"
proof -
  assume q: "undisturbed ev" and l: "mutate_loop ev cfg bnd op res n w = (Inr res', w')"
    and rep: "mr_Repairs res' = mr_Repairs res" and out: "mr_Outcome res' \<in> {OutcomeRejected, OutcomeUnchanged, OutcomeNotBound}"
  obtain res0 n0 w0 where g: "(goes_on ev cfg bnd op)\<^sup>*\<^sup>* (res, n, w) (res0, n0, w0)"
    and t: "mutate_turn ev cfg bnd op res0 n0 w0 = (Inr (Return res'), w')"
    using mutate_loop_turns [OF l] by auto
  have pre: "case b of (res1, _, w1) \<Rightarrow> prefix (mr_Repairs res) (mr_Repairs res1) \<and>
      (mr_Repairs res1 = mr_Repairs res \<longrightarrow> wd_sys w1 = wd_sys w)"
    if "(goes_on ev cfg bnd op)\<^sup>*\<^sup>* (res, n, w) b" for b
    using that
  proof (induction rule: rtranclp_induct)
    case (step y z)
    obtain ry ny wy where y: "y = (ry, ny, wy)" by (metis prod_cases3)
    obtain rz nz wz where z: "z = (rz, nz, wz)" by (metis prod_cases3)
    have t: "mutate_turn ev cfg bnd op ry ny wy = (Inr (Again rz nz), wz)" using step(2) by (simp add: goes_on_def y z)
    have p: "prefix (mr_Repairs ry) (mr_Repairs rz)" using mutate_turn_repairs [OF t] by (simp add: turn_repairs_def)
    have "wd_sys wz = wd_sys wy" if "mr_Repairs rz = mr_Repairs ry"
      using mutate_turn_quiet [OF q t] that by (simp add: wrote_nothing_def turn_repairs_def)
    then show ?case
      using step.IH p by (auto simp: y z intro: prefix_order.trans dest: prefix_order.antisym)
  qed simp
  have "prefix (mr_Repairs res0) (mr_Repairs res')" using mutate_turn_repairs [OF t] by (simp add: turn_repairs_def)
  then have "mr_Repairs res0 = mr_Repairs res" using pre [OF g] rep by (auto intro: prefix_order.antisym)
  then show ?thesis
    using pre [OF g] mutate_turn_quiet [OF q t] rep out by (simp add: wrote_nothing_def turn_repairs_def)
qed

section \<open>What a commit reports\<close>

lemma setIdx_reports: "setIdx st now p v = (st', e) \<Longrightarrow> seen_index st' now p = (v, e)"
  by (auto simp: setIdx_def Let_def seen_index_alt live_idx_def teamTTL_def)

lemma seen_index_cong: "rd_idx st' p = rd_idx st p \<Longrightarrow> seen_index st' now p = seen_index st now p"
  by (simp add: seen_index_alt live_idx_def)

lemma set_members_reports:
  "distinct ps \<Longrightarrow> set_members st now t ps = (st', out) \<Longrightarrow> out = map (seen_index st' now) ps"
proof (induction ps arbitrary: st out)
  case (Cons p ps)
  obtain st1 e where s: "setIdx st now p t = (st1, e)" by fastforce
  obtain out' where m: "set_members st1 now t ps = (st', out')" "out = (t, e) # out'"
    using Cons.prems(2) s by (auto split: prod.splits)
  have "seen_index st' now p = seen_index st1 now p"
    using set_members_frame [OF m(1)] Cons.prems(1) by (intro seen_index_cong) simp
  then show ?case using Cons.IH [OF _ m(1)] Cons.prems(1) m(2) setIdx_reports [OF s] by simp
qed simp

lemma clear_left_reports:
  "distinct ps \<Longrightarrow> clear_left st now t ps = (st', out) \<Longrightarrow> out = map (seen_index st' now) ps"
proof (induction ps arbitrary: st out)
  case (Cons p ps)
  obtain st1 e where s: "setIdx st now p 0 = (st1, e)" by fastforce
  have "\<exists>st2 out'. clear_left st2 now t ps = (st', out') \<and> out = seen_index st2 now p # out'"
  proof (cases "\<exists>i. live_idx st now p = Some i \<and> ix_tid i \<noteq> t")
    case True
    then have "\<exists>out'. clear_left st now t ps = (st', out') \<and> out = seen_index st now p # out'"
      using Cons.prems(2) by (auto simp: seen_index_alt split: prod.splits)
    then show ?thesis by blast
  next
    case False
    then have "\<exists>out'. clear_left st1 now t ps = (st', out') \<and> out = (0, e) # out'"
      using Cons.prems(2) s by (auto split: prod.splits option.splits if_splits)
    then show ?thesis using setIdx_reports [OF s] by metis
  qed
  then obtain st2 out' where c: "clear_left st2 now t ps = (st', out')" "out = seen_index st2 now p # out'" by blast
  have "seen_index st' now p = seen_index st2 now p"
    using clear_left_frame [OF c(1)] Cons.prems(1) by (intro seen_index_cong) simp
  then show ?case using Cons.IH [OF _ c(1)] Cons.prems(1) c(2) by simp
qed simp

lemma scriptCommit_reports:
  assumes "scriptCommit st now a = (st', ReplyOk ver out)" and "distinct (ca_joined a @ ca_kept a @ ca_left a)"
  shows "out = map (seen_index st' now) (ca_joined a @ ca_kept a @ ca_left a)"
proof -
  let ?t = "ca_tid a"
  obtain st1 st2 st3 st4 out1 out2 where c:
    "set_members st1 now ?t (ca_joined a @ ca_kept a) = (st2, out1)"
    "clear_left st2 now ?t (ca_left a) = (st3, out2)"
    "st4 = fold (\<lambda>p s. zrem s now p ?t) (ca_removed a) st3"
    "st' = fold (\<lambda>(p, score) s. zadd s now p ?t score) (ca_added a) st4" "out = out1 @ out2"
    by (rule scriptCommit_ok [OF assms(1)])
  have idx: "rd_idx st' = rd_idx st3" using c(3,4) fold_zrem fold_zadd_frame by simp
  have "out1 = map (seen_index st2 now) (ca_joined a @ ca_kept a)"
    using set_members_reports [OF _ c(1)] assms(2) by auto
  also have "\<dots> = map (seen_index st' now) (ca_joined a @ ca_kept a)"
    using clear_left_frame [OF c(2)] assms(2) idx by (intro map_cong refl seen_index_cong [symmetric]) auto
  moreover have "out2 = map (seen_index st' now) (ca_left a)"
    using clear_left_reports [OF _ c(2)] assms(2) idx by (auto simp: seen_index_alt live_idx_def)
  ultimately show ?thesis using c(5) by simp
qed

lemma map_of_rev_zip: "p \<in> set ps \<Longrightarrow> map_of (rev (zip ps (map f ps))) p = Some (f p)"
proof (cases "map_of (rev (zip ps (map f ps))) p")
  case None
  assume "p \<in> set ps"
  moreover have "p \<notin> set (map fst (zip ps (map f ps)))"
    using None unfolding set_map by (simp add: map_of_eq_None_iff)
  ultimately show ?thesis by simp
next
  case (Some x)
  then have "(p, x) \<in> set (zip ps (map f ps))" using map_of_SomeD by fastforce
  then show ?thesis using Some by (auto simp: set_zip)
qed

lemma exec_commit_script:
  "exec_commit a s = (q, s') \<Longrightarrow> scriptCommit (sy_redis s) (sy_now s) a = (sy_redis s', q) \<and> sy_now s' = sy_now s"
  by (auto simp: exec_commit_def split: prod.splits)

lemma commit_ok_reports:
  assumes "commit ev t xv d now w = (Inr (commitOK cr), w')"
  shows "cr_TeamId cr = t \<and> cr_Decision cr = d \<and> cr_Version cr = (case xv of None \<Rightarrow> 0 | Some v \<Rightarrow> v) + 1 \<and>
    current (wd_sys w') t = map_option (Pair (cr_Version cr)) (d_Record d) \<and>
    (\<forall>p \<in> set (d_Joined d @ d_Kept d @ d_Left d). cr_Indexes cr p = Some (seen_index (sy_redis (wd_sys w')) (sy_now (wd_sys w')) p))"
proof -
  obtain q s where q: "commitOK cr = commit_outcome t d now q" "exec_commit (buildCommitArgs t xv d) s = (q, wd_sys w')"
    "validateCommitSets t d = None"
    by (rule commit_inr [OF assms])
  then obtain ver out where r: "q = ReplyOk ver out"
    and cr: "cr = \<lparr>cr_TeamId = t, cr_Version = ver, cr_Decision = d,
      cr_Indexes = map_of (rev (zip (d_Joined d @ d_Kept d @ d_Left d) out)), cr_NowMs = now\<rparr>"
    by (auto simp: commit_outcome_def split: commit_reply.splits)
  have dist: "distinct (d_Joined d @ d_Kept d @ d_Left d)"
    using q(3) by (auto simp: validateCommitSets_def people_seen_iff split: if_splits)
  have out: "out = map (seen_index (sy_redis (wd_sys w')) (sy_now (wd_sys w'))) (d_Joined d @ d_Kept d @ d_Left d)"
    using exec_commit_script [OF q(2)] r dist
      scriptCommit_reports [of "sy_redis s" "sy_now s" "buildCommitArgs t xv d" "sy_redis (wd_sys w')" ver out]
    by (simp add: buildCommitArgs_def)
  from q(2) show ?thesis
  proof (cases rule: exec_commit_cases)
    case (written ver' out')
    have "\<forall>p \<in> set (d_Joined d @ d_Kept d @ d_Left d).
        cr_Indexes cr p = Some (seen_index (sy_redis (wd_sys w')) (sy_now (wd_sys w')) p)"
      unfolding cr out by (auto intro: map_of_rev_zip simp del: map_append)
    then show ?thesis using written r cr by simp
  qed (use r in simp)
qed

lemma after_commit_committed:
  assumes "after_commit ev snap xv ss res n out w = (Inr (Return res'), w')" and "mr_Outcome res' = OutcomeCommitted"
  shows "\<exists>cr. out = commitOK cr \<and> w' = w \<and> res' = res\<lparr>mr_Outcome := OutcomeCommitted, mr_Commit := Some cr\<rparr>"
proof (cases out)
  case (commitIndexMismatch i)
  then show ?thesis
    using assms
    by (auto simp: after_commit_def on_conflict_def on_repaired_def rejected_def Let_def
        split: commitOutcome.splits if_splits prod.splits sum.splits option.splits)
qed (use assms in \<open>auto simp: after_commit_def on_conflict_def rejected_def Let_def split: if_splits\<close>)

lemma mutate_turn_committed:
  assumes "mutate_turn ev cfg bnd op res n w = (Inr (Return res'), w')" and "mr_Outcome res' = OutcomeCommitted"
  shows "\<exists>w1 ss cr. mr_Decision res' = Apply (op\<lparr>op_CallerTeamId := sn_PlayerTeamId (mr_Snapshot res')\<rparr>)
      (sn_Record (mr_Snapshot res')) (of_nat (sn_NowMs (mr_Snapshot res'))) ss cfg \<and>
    mr_Commit res' = Some cr \<and>
    commit ev (bi_teamId bnd) (if bi_mode bnd = bindModeCreate then None else Some (sn_Version (mr_Snapshot res')))
      (mr_Decision res') (sn_NowMs (mr_Snapshot res')) w1 = (Inr (commitOK cr), w')"
proof -
  obtain snap w1 where dc: "decide_and_commit ev cfg bnd op snap (res\<lparr>mr_Snapshot := snap\<rparr>) n w1 = (Inr (Return res'), w')"
    using assms
    by (auto simp: mutate_turn_def record_missing_def rejected_def Let_def split: if_splits prod.splits sum.splits)
  define d where "d = Apply (op\<lparr>op_CallerTeamId := sn_PlayerTeamId snap\<rparr>) (sn_Record snap) (of_nat (sn_NowMs snap))
        (loadSessions ev (wd_calls w1 - 1) (sn_Record snap)) cfg"
  let ?xv = "if bi_mode bnd = bindModeCreate then None else Some (sn_Version snap)"
  obtain c w2 where c: "commit ev (bi_teamId bnd) ?xv d (sn_NowMs snap) w1 = (c, w2)" by fastforce
  have "\<exists>out ss. c = Inr out \<and>
      after_commit ev snap ?xv ss (res\<lparr>mr_Snapshot := snap, mr_Decision := d\<rparr>) n out w2 = (Inr (Return res'), w')"
    using dc c assms(2)
    by (auto simp: decide_and_commit_def d_def rejected_def Let_def split: if_splits sum.splits)
  then obtain cr where "c = Inr (commitOK cr)" "w' = w2"
      "res' = res\<lparr>mr_Snapshot := snap, mr_Decision := d, mr_Outcome := OutcomeCommitted, mr_Commit := Some cr\<rparr>"
    using after_commit_committed assms(2) by fastforce
  then show ?thesis using c d_def by auto
qed

section \<open>Ending a match\<close>






section \<open>Properties\<close>

text \<open>Surroundings for the witnesses: nobody interferes and every call is answered.\<close>

definition calm_env :: "nat \<Rightarrow> call_env" where
  "calm_env k = \<lparr>ce_others = (\<lambda>s. s), ce_fate = Answered, ce_sessions = Map.empty, ce_ctxErr = False\<rparr>"

definition calm_world :: world where
  "calm_world = \<lparr>wd_sys = demo_start, wd_calls = 0\<rparr>"

lemma calm_env_ok: "others_ok calm_env" "owns_new_id calm_env t" "undisturbed calm_env"
  by (simp_all add: others_ok_def owns_new_id_def undisturbed_def calm_env_def)






text \<open>
  Property C35.  What \<open>Mutate\<close> reports as committed is what is stored: the decision is the rules' verdict on
  the record of the reported snapshot, its version is the snapshot's version plus one, at the moment of
  return the team's current record is the decided one (or gone, when it was disbanded), and the reported
  index entries are those in Redis for everybody who joined, stayed or left.
\<close>

theorem Mutate_reports_what_is_stored:
  assumes "Mutate ev cfg bnd op w = (Inr res, w')" and "mr_Outcome res = OutcomeCommitted"
  shows "\<exists>cr ss. mr_Commit res = Some cr \<and> cr_TeamId cr = bi_teamId bnd \<and> cr_Decision cr = mr_Decision res \<and>
    mr_Decision res = Apply (op\<lparr>op_CallerTeamId := sn_PlayerTeamId (mr_Snapshot res)\<rparr>)
      (sn_Record (mr_Snapshot res)) (of_nat (sn_NowMs (mr_Snapshot res))) ss cfg \<and>
    cr_Version cr = (if bi_mode bnd = bindModeCreate then 1 else sn_Version (mr_Snapshot res) + 1) \<and>
    current (wd_sys w') (bi_teamId bnd) = map_option (Pair (cr_Version cr)) (d_Record (mr_Decision res)) \<and>
    (\<forall>p \<in> set (d_Joined (mr_Decision res) @ d_Kept (mr_Decision res) @ d_Left (mr_Decision res)).
       cr_Indexes cr p = Some (seen_index (sy_redis (wd_sys w')) (sy_now (wd_sys w')) p))"
proof -
  obtain res0 n0 w0 where t: "mutate_turn ev cfg bnd op res0 n0 w0 = (Inr (Return res), w')"
    using mutate_loop_turns assms(1) unfolding Mutate_def by fastforce
  from mutate_turn_committed [OF t assms(2)] show ?thesis
    using commit_ok_reports by (fastforce split: if_splits)
qed

lemma calm_create:
  "\<exists>res w'. Mutate calm_env cfg_zero (BindCreate 7 100) (CreateOp 7 100 1) calm_world = (Inr res, w') \<and>
     mr_Outcome res = OutcomeCommitted \<and> mr_Repairs res = []"
  by (simp add: Mutate_def mutate_turn_def store_read_def evalCtx_def calm_env_def read_script_def scriptRead_def
      calm_world_def decide_and_commit_def Apply_def commit_def validateCommitSets_def after_commit_def commit_outcome_def
      BindCreate_def people_seen_iff sameIdSet_iff MemberIds_def sortMembers_def FindMember_def Capacity_def
      mutate_zero_def demo_eval)

theorem Mutate_reports_what_is_stored_witness:
  "\<exists>res w'. Mutate calm_env cfg_zero (BindCreate 7 100) (CreateOp 7 100 1) calm_world = (Inr res, w') \<and>
     (\<exists>cr. mr_Commit res = Some cr \<and> cr_TeamId cr = 100 \<and> cr_Version cr = 1)"
proof -
  obtain res w' where m: "Mutate calm_env cfg_zero (BindCreate 7 100) (CreateOp 7 100 1) calm_world = (Inr res, w')"
    "mr_Outcome res = OutcomeCommitted" using calm_create by blast
  from Mutate_reports_what_is_stored [OF this] show ?thesis using m(1) by (fastforce simp: BindCreate_def)
qed

text \<open>
  Property C36.  A refused change leaves no trace: when nobody interferes and every call is answered, a
  \<open>Mutate\<close> that ends as rejected, unchanged or not bound and reports no repair has written nothing.
\<close>

theorem Mutate_refused_writes_nothing:
  assumes "undisturbed ev" and "Mutate ev cfg bnd op w = (Inr res, w')" and "mr_Repairs res = []"
    and "mr_Outcome res \<in> {OutcomeRejected, OutcomeUnchanged, OutcomeNotBound}"
  shows "wd_sys w' = wd_sys w"
  using mutate_loop_quiet [OF assms(1)] assms(2-4) unfolding Mutate_def by (simp add: mutate_zero_def)

theorem Mutate_refused_writes_nothing_witness:
  "\<exists>res w'. Mutate calm_env cfg_zero (BindCaller 7 100) (LeaveOp 7) calm_world = (Inr res, w') \<and>
     mr_Outcome res = OutcomeNotBound \<and> wd_sys w' = demo_start"
proof -
  obtain res w' where m: "Mutate calm_env cfg_zero (BindCaller 7 100) (LeaveOp 7) calm_world = (Inr res, w')"
    "mr_Outcome res = OutcomeNotBound" "mr_Repairs res = []"
    by (simp add: Mutate_def mutate_turn_def store_read_def evalCtx_def calm_env_def read_script_def scriptRead_def
        calm_world_def BindCaller_def mutate_zero_def demo_start_def live_idx_def Let_def)
  have "wd_sys w' = wd_sys calm_world"
    by (rule Mutate_refused_writes_nothing [OF calm_env_ok(3) m(1,3)]) (simp add: m(2))
  then show ?thesis using m by (simp add: calm_world_def)
qed

text \<open>
  Property C37.  \<open>Mutate\<close> ends: whatever the environment does it returns after at most eight turns
  (three commit conflicts, five repairs) and at most 56 Redis calls.
\<close>

theorem Mutate_call_bound:
  shows "\<exists>x w'. Mutate ev cfg bnd op w = (x, w') \<and> wd_calls w' \<le> wd_calls w + 56"
proof -
  obtain x w' where m: "Mutate ev cfg bnd op w = (x, w')" by fastforce
  obtain res0 n0 w0 where g: "(goes_on ev cfg bnd op)\<^sup>*\<^sup>* (mutate_zero, 0, w) (res0, n0, w0)"
    and t: "mutate_turn ev cfg bnd op res0 n0 w0 = (map_sum id Return x, w')"
    using mutate_loop_turns m unfolding Mutate_def by blast
  show ?thesis
    using turns_calls [OF g] mutate_turn_calls [OF t] m by (auto simp: mutate_zero_def Capacity_def)
qed



end
