(* ===== verification/InboxDecide.thy ===== *)
theory InboxDecide
  imports Mmo_Prelude
begin

text \<open>
  Pure decisions of the player inbox (\<open>go/player_inbox/internal/inbox\<close>): the rows and enumerations
  of its tables, the shard function, the owner-epoch fence, the allocation of sequence numbers and
  the decision functions of \<open>decide.go\<close> that the store transactions call.  Integers keep the
  width of the source, Go strings and byte slices are lists of bytes.  Enumeration values outside
  the declared ones are kept as one extra constructor where the code has a branch for them.
\<close>

section \<open>Bytes and enumerations\<close>

type_synonym byte = "8 word"
type_synonym bytes = "byte list"

datatype PlayerInboxItemState = ITEM_UNSPECIFIED | ITEM_PENDING | ITEM_APPLIED | ITEM_REJECTED
  | ITEM_VOIDED | ITEM_SETTLED_UNKNOWN | ITEM_OTHER u32

datatype PlayerInboxDirective = DIRECTIVE_NONE | DIRECTIVE_VOID | DIRECTIVE_OTHER u32

datatype PlayerInboxVoidReason = VOID_UNSPECIFIED | VOID_CANCELLED | VOID_QUARANTINED | VOID_OTHER u32

datatype PlayerInboxFinalizer = FINALIZER_UNSPECIFIED | FINALIZER_CONSUMER | FINALIZER_ADMIN

datatype PlayerInboxOutcome = OUTCOME_UNSPECIFIED | OUTCOME_APPLIED | OUTCOME_REJECTED
  | OUTCOME_SKIPPED | OUTCOME_UNKNOWN | OUTCOME_OTHER u32

datatype PlayerInboxFenceVerdict = FENCE_UNSPECIFIED | FENCE_NO_STREAM | FENCE_FIRST | FENCE_MATCH
  | FENCE_ADVANCE | FENCE_STALE | FENCE_EPOCH_REQUIRED | FENCE_EPOCH_AHEAD

datatype PlayerInboxAckResult = ACK_UNSPECIFIED | ACK_FINALIZED | ACK_ALREADY_SAME | ACK_CONFLICT
  | ACK_UNKNOWN_SEQ | ACK_NOT_DELIVERED | ACK_SKIP_NOT_REQUESTED | ACK_MISMATCH

datatype PlayerInboxVoidMode = VOID_MODE_NORMAL | VOID_MODE_FORCE_MISMATCH | VOID_MODE_OTHER u32

datatype PlayerInboxForceVoidVerdict = FORCE_VOID_UNSPECIFIED | FORCE_VOID_PROVEN
  | FORCE_VOID_NOT_DELIVERED | FORCE_VOID_LEDGER_ABSENT | FORCE_VOID_NOT_DECIDED
  | FORCE_VOID_SEQ_NOT_IN_RING | FORCE_VOID_REQUEST_IN_LEDGER | FORCE_VOID_LEDGER_INVALID

datatype PlayerInboxReconcileDiffKind = RECONCILE_DIFF_UNSPECIFIED | RECONCILE_FINAL_NOT_IN_LEDGER
  | RECONCILE_PENDING_BUT_DECIDED

datatype PlayerInboxAuditAction = AUDIT_UNSPECIFIED | AUDIT_SANCTION | AUDIT_VOID | AUDIT_FORCE_VOID

text \<open>Producers, domains and message types are open number spaces; the values the code names:\<close>

definition PRODUCER_GM :: u32 where "PRODUCER_GM = 1"
definition PRODUCER_MATCH :: u32 where "PRODUCER_MATCH = 2"
definition DOMAIN_SCENE_GM_SANCTION :: u32 where "DOMAIN_SCENE_GM_SANCTION = 1"
definition DOMAIN_SCENE_BATTLE_SETTLEMENT :: u32 where "DOMAIN_SCENE_BATTLE_SETTLEMENT = 2"
definition MSG_GM_BLOCK_CURRENCY_GAIN :: u32 where "MSG_GM_BLOCK_CURRENCY_GAIN = 1"
definition MSG_GM_UNBLOCK_CURRENCY_GAIN :: u32 where "MSG_GM_UNBLOCK_CURRENCY_GAIN = 2"
definition MSG_GM_ATTACH_CURRENCY_DEBT :: u32 where "MSG_GM_ATTACH_CURRENCY_DEBT = 3"
definition MSG_BATTLE_SETTLEMENT :: u32 where "MSG_BATTLE_SETTLEMENT = 4"

text \<open>Tip codes: their numbers are generated from a table, only their identity matters.\<close>

datatype tip = ErrInvalidParameter | ErrDisabled | ErrUnknownType | ErrPlayerNotFound
  | ErrPayloadInvalid | ErrPayloadTooLarge | ErrTextTooLong | ErrIssuedOutOfWindow | ErrFull
  | ErrIdempotencyConflict | ErrStaleOwner | ErrEpochRequired | ErrEpochAhead | ErrItemNotFound
  | ErrItemStateConflict

section \<open>Rows\<close>

record PlayerInboxItemRow =
  it_shard :: u32
  it_player_id :: u64
  it_domain :: u32
  it_seq :: u64
  it_msg_type :: u32
  it_producer_kind :: u32
  it_request_id :: u64
  it_content_sha256 :: bytes
  it_payload :: bytes
  it_state :: PlayerInboxItemState
  it_directive :: PlayerInboxDirective
  it_void_reason :: PlayerInboxVoidReason
  it_delivery_count :: u32
  it_last_delivered_epoch :: u64
  it_last_delivered_ms :: u64
  it_outcome_reason :: u32
  it_finalized_by :: PlayerInboxFinalizer
  it_decided_epoch :: u64
  it_issued_at_ms :: u64
  it_created_ms :: u64
  it_updated_ms :: u64
  it_operator_name :: bytes
  it_note :: bytes
  it_owner_account :: bytes
  it_owner_revision :: u64

record PlayerInboxStream =
  ps_shard :: u32
  ps_player_id :: u64
  ps_domain :: u32
  ps_next_seq :: u64
  ps_fence_epoch :: u64
  ps_open_count :: u32
  ps_notify_due_ms :: u64
  ps_created_ms :: u64
  ps_updated_ms :: u64

record PlayerInboxAudit =
  pa_shard :: u32
  pa_player_id :: u64
  pa_domain :: u32
  pa_seq :: u64
  pa_action :: PlayerInboxAuditAction
  pa_operator :: bytes
  pa_peer_addr :: bytes
  pa_reason :: bytes
  pa_created_ms :: u64
  pa_msg_type :: u32
  pa_request_id :: u64
  pa_issued_at_ms :: u64
  pa_content_sha256 :: bytes
  pa_payload :: bytes
  pa_void_reason :: PlayerInboxVoidReason

record PlayerInboxDecisionReport =
  dr_seq :: u64
  dr_request_id :: u64
  dr_outcome :: PlayerInboxOutcome
  dr_reason :: u32

section \<open>Shards\<close>

definition ShardCount :: u64 where "ShardCount = 64"

definition Mix64 :: "u64 \<Rightarrow> u64" where
  "Mix64 x0 =
     (let x1 = x0 XOR drop_bit 30 x0;
          x2 = x1 * 0xbf58476d1ce4e5b9;
          x3 = x2 XOR drop_bit 27 x2;
          x4 = x3 * 0x94d049bb133111eb
      in x4 XOR drop_bit 31 x4)"

definition RowShard :: "u64 \<Rightarrow> u32" where
  "RowShard playerID = ucast (Mix64 playerID mod ShardCount)"

text \<open>Every round of the mixer can be undone: a word equal to its own right shift is zero, and
  the two multipliers are odd.\<close>

lemma xor_drop_bit_inj:
  fixes x y :: u64
  assumes "x XOR drop_bit k x = y XOR drop_bit k y" and "0 < k"
  shows "x = y"
proof -
  have zero: "d = 0" if "d = drop_bit k d" for d :: u64
  proof -
    have "drop_bit (n * k) d = d" for n
    proof (induction n)
      case (Suc n)
      have "drop_bit (Suc n * k) d = drop_bit (n * k) (drop_bit k d)"
        by (simp add: add.commute)
      then show ?case using that Suc by simp
    qed simp
    from this [of 64] have "drop_bit (64 * k) d = d" .
    moreover have "drop_bit (64 * k) d = 0"
    proof (rule bit_word_eqI)
      fix n assume "n < LENGTH(64)"
      have "64 * k + n \<ge> 64" using assms(2) by (cases k) auto
      then have "\<not> bit d (64 * k + n)" using bit_imp_le_length [of d "64 * k + n"] by auto
      then show "bit (drop_bit (64 * k) d) n = bit (0::u64) n" by (simp add: bit_drop_bit_eq)
    qed
    ultimately show "d = 0" by simp
  qed
  have "x XOR y = drop_bit k (x XOR y)"
  proof (rule bit_word_eqI)
    fix n assume n: "n < LENGTH(64)"
    have "bit (x XOR drop_bit k x) n = bit (y XOR drop_bit k y) n" using assms(1) by simp
    then show "bit (x XOR y) n = bit (drop_bit k (x XOR y)) n"
      by (auto simp: bit_simps)
  qed
  then have "x XOR y = 0" by (rule zero)
  then show "x = y" by (metis xor.right_neutral xor.assoc xor_self_eq)
qed

lemma mult_unit_inj:
  fixes x y :: "'a::len word"
  assumes "c * c' = 1" and "x * c = y * c"
  shows "x = y"
proof -
  have "x * c * c' = y * c * c'" using assms(2) by simp
  then show ?thesis using assms(1) by (simp add: mult.assoc)
qed

lemma Mix64_inj: "Mix64 x = Mix64 y \<Longrightarrow> x = y"
proof -
  define a where "a = (\<lambda>z::u64. z XOR drop_bit 30 z)"
  define b where "b = (\<lambda>z. a z * 0xbf58476d1ce4e5b9)"
  define c where "c = (\<lambda>z. b z XOR drop_bit 27 (b z))"
  define d where "d = (\<lambda>z. c z * 0x94d049bb133111eb)"
  assume "Mix64 x = Mix64 y"
  then have "d x XOR drop_bit 31 (d x) = d y XOR drop_bit 31 (d y)"
    by (simp add: Mix64_def Let_def a_def b_def c_def d_def)
  then have "d x = d y" by (rule xor_drop_bit_inj) simp
  then have "c x = c y"
    unfolding d_def by (rule mult_unit_inj [where c' = "0x319642b2d24d8ec3", rotated]) simp
  then have "b x = b y" unfolding c_def by (rule xor_drop_bit_inj) simp
  then have "a x = a y"
    unfolding b_def by (rule mult_unit_inj [where c' = "0x96de1b173f119089", rotated]) simp
  then show "x = y" unfolding a_def by (rule xor_drop_bit_inj) simp
qed

lemma Mix64_bij: "bij Mix64"
proof -
  have "inj Mix64" by (auto intro: injI Mix64_inj)
  then show ?thesis by (simp add: bij_def finite_UNIV_inj_surj)
qed

lemma RowShard_bound: "RowShard p < 64"
proof -
  have "unat (Mix64 p mod 64) < 64" by (simp add: unat_mod)
  then have "unat (RowShard p) < 64"
    unfolding RowShard_def ShardCount_def
    by (simp add: unsigned_ucast_eq unsigned_take_bit_eq le_less_trans [OF take_bit_nat_less_eq_self])
  then show ?thesis by (simp add: word_less_nat_alt)
qed

section \<open>Owner-epoch fence\<close>

definition NeedsEpochBound :: "u64 \<Rightarrow> u64 \<Rightarrow> bool" where
  "NeedsEpochBound req fence \<longleftrightarrow> req \<noteq> 0 \<and> req > fence"

definition DecideFence :: "u64 \<Rightarrow> u64 \<Rightarrow> u64 \<Rightarrow> PlayerInboxFenceVerdict" where
  "DecideFence req fence r =
     (if req = 0 then FENCE_EPOCH_REQUIRED
      else if req < fence then FENCE_STALE
      else if req = fence then FENCE_MATCH
      else if req > r then FENCE_EPOCH_AHEAD
      else if fence = 0 then FENCE_FIRST
      else FENCE_ADVANCE)"

fun FenceAllows :: "PlayerInboxFenceVerdict \<Rightarrow> bool" where
  "FenceAllows FENCE_MATCH = True"
| "FenceAllows FENCE_FIRST = True"
| "FenceAllows FENCE_ADVANCE = True"
| "FenceAllows _ = False"

definition FenceWrites :: "PlayerInboxFenceVerdict \<Rightarrow> bool" where
  "FenceWrites v \<longleftrightarrow> v = FENCE_FIRST \<or> v = FENCE_ADVANCE"

datatype StaleKind = StaleUnclassified | StaleZombie | StaleFenceRegressed

definition ClassifyStale :: "u64 \<Rightarrow> u64 \<Rightarrow> StaleKind" where
  "ClassifyStale req r = (if r \<le> req then StaleFenceRegressed else StaleZombie)"

definition fenceRejectTip :: "PlayerInboxFenceVerdict \<Rightarrow> tip option" where
  "fenceRejectTip v =
     (case v of FENCE_STALE \<Rightarrow> Some ErrStaleOwner
      | FENCE_EPOCH_REQUIRED \<Rightarrow> Some ErrEpochRequired
      | FENCE_EPOCH_AHEAD \<Rightarrow> Some ErrEpochAhead
      | _ \<Rightarrow> None)"

lemma DecideFence_indep_r: "\<not> NeedsEpochBound req fence \<Longrightarrow> DecideFence req fence r = DecideFence req fence r'"
  unfolding NeedsEpochBound_def DecideFence_def by (auto simp: word_neq_0_conv)

lemma DecideFence_self_allows: "FenceAllows (DecideFence e f e) \<longleftrightarrow> e \<noteq> 0 \<and> f \<le> e"
  unfolding DecideFence_def by (auto simp: not_less)

lemma DecideFence_self_writes:
  "FenceAllows (DecideFence e f e) \<Longrightarrow> (if FenceWrites (DecideFence e f e) then e else f) = e"
  unfolding DecideFence_def FenceWrites_def by (auto split: if_splits)

lemma DecideFence_never_ahead: "DecideFence e f e \<noteq> FENCE_EPOCH_AHEAD"
  unfolding DecideFence_def by simp

section \<open>Sequence numbers\<close>

definition seqClockShift :: nat where "seqClockShift = 12"
definition maxSeqClockMs :: u64 where "maxSeqClockMs = push_bit (63 - seqClockShift) 1"

text \<open>The only error of the allocation is an unusable clock, here \<open>None\<close>.\<close>

definition NextSeq :: "u64 \<Rightarrow> u64 \<Rightarrow> u64 option" where
  "NextSeq nextSeq nowMs =
     (if nowMs = 0 \<or> nowMs \<ge> maxSeqClockMs then None
      else Some (max (max nextSeq (push_bit seqClockShift nowMs)) 1))"

definition RaiseNextSeq :: "u64 \<Rightarrow> u64 \<Rightarrow> u64 \<times> bool" where
  "RaiseNextSeq nextSeq consumerDecidedThrough =
     (if consumerDecidedThrough < nextSeq then (nextSeq, False) else (consumerDecidedThrough + 1, True))"

definition IsCursorAhead :: "u64 \<Rightarrow> u64 \<Rightarrow> bool" where
  "IsCursorAhead nextSeq consumerDecidedThrough \<longleftrightarrow> consumerDecidedThrough \<ge> nextSeq"

definition nowMs :: "int \<Rightarrow> u64" where
  "nowMs ms = (if ms < 0 then 0 else word_of_int ms)"

lemma RaiseNextSeq_raised: "snd (RaiseNextSeq n w) \<longleftrightarrow> IsCursorAhead n w"
  unfolding RaiseNextSeq_def IsCursorAhead_def by auto

lemma RaiseNextSeq_above:
  assumes "w \<noteq> - 1"
  shows "n \<le> fst (RaiseNextSeq n w)" and "w < fst (RaiseNextSeq n w)"
  using word_less_inc [OF assms] unfolding RaiseNextSeq_def
  by (auto simp: not_less)

text \<open>With a watermark of all ones the raise wraps around and lowers \<open>next_seq\<close> to zero.\<close>

lemma RaiseNextSeq_wraps: "RaiseNextSeq n (- 1) = (0, True)"
  unfolding RaiseNextSeq_def by simp

lemma NextSeq_ge: "NextSeq n now = Some s \<Longrightarrow> n \<le> s \<and> s \<noteq> 0"
  unfolding NextSeq_def by (auto split: if_splits simp: max_def)

lemma NextSeq_bound:
  assumes "NextSeq n now = Some s" and "unat n \<le> 2 ^ 63 + k"
  shows "unat s \<le> 2 ^ 63 + k"
proof -
  have "now < maxSeqClockMs" and s: "s = max (max n (push_bit 12 now)) 1"
    using assms(1) unfolding NextSeq_def seqClockShift_def by (auto split: if_splits)
  then have "unat now < 2 ^ 51"
    unfolding maxSeqClockMs_def seqClockShift_def by (simp add: word_less_nat_alt)
  then have "unat (push_bit 12 now) = unat now * 2 ^ 12" and "unat now * 2 ^ 12 < 2 ^ 63"
    using unat_push_bit_small [of now 51 12] by simp_all
  then have "unat (push_bit 12 now) < 2 ^ 63" by linarith
  then show ?thesis using s assms(2) by (auto simp: max_def)
qed

section \<open>Content digest and duplicate detection\<close>

fun be_bytes :: "nat \<Rightarrow> 'a::len word \<Rightarrow> bytes" where
  "be_bytes 0 w = []"
| "be_bytes (Suc n) w = ucast (drop_bit (8 * n) w) # be_bytes n w"

text \<open>\<open>sha\<close> stands for the 32-byte digest of \<open>crypto/sha256\<close>.\<close>

definition ContentSHA256 :: "(bytes \<Rightarrow> bytes) \<Rightarrow> u32 \<Rightarrow> u64 \<Rightarrow> bytes \<Rightarrow> bytes" where
  "ContentSHA256 sha t issuedAtMs payload = sha (be_bytes 4 t @ be_bytes 8 issuedAtMs @ payload)"

datatype existingVerdict = existingDuplicate | existingConflict

definition decideExisting :: "bytes \<Rightarrow> bytes \<Rightarrow> existingVerdict" where
  "decideExisting stored requested =
     (if length stored = 32 \<and> stored = requested then existingDuplicate else existingConflict)"

lemma length_be_bytes [simp]: "length (be_bytes n w) = n"
  by (induction n) auto

lemma be_bytes_bits:
  assumes "be_bytes n v = be_bytes n (w :: 'a::len word)" and "i < 8 * n"
  shows "bit v i = bit w i"
  using assms
proof (induction n)
  case (Suc n)
  show ?case
  proof (cases "i < 8 * n")
    case True then show ?thesis using Suc by simp
  next
    case False
    then obtain j where i: "i = 8 * n + j" and j: "j < 8"
      using Suc.prems(2) by (metis add_less_cancel_left le_add_diff_inverse mult_Suc_right not_less add.commute)
    have "bit (ucast (drop_bit (8 * n) v) :: byte) j = bit (ucast (drop_bit (8 * n) w) :: byte) j"
      using Suc.prems(1) by simp
    then show ?thesis using i j by (simp add: bit_ucast_iff bit_drop_bit_eq)
  qed
qed simp

lemma be_bytes_inj: "LENGTH('a::len) \<le> 8 * n \<Longrightarrow> be_bytes n v = be_bytes n (w :: 'a word) \<Longrightarrow> v = w"
  by (rule bit_word_eqI) (meson be_bytes_bits order_less_le_trans)

text \<open>The bytes that are hashed determine type, issue time and payload.\<close>

lemma content_unambiguous:
  "be_bytes 4 (t::u32) @ be_bytes 8 (i::u64) @ p = be_bytes 4 t' @ be_bytes 8 i' @ p' \<longleftrightarrow>
   t = t' \<and> i = i' \<and> p = p'"
  using be_bytes_inj [of 4 t t'] be_bytes_inj [of 8 i i'] by auto

section \<open>States and outcomes\<close>

definition IsTerminalState :: "PlayerInboxItemState \<Rightarrow> bool" where
  "IsTerminalState s \<longleftrightarrow> s \<in> {ITEM_APPLIED, ITEM_REJECTED, ITEM_VOIDED, ITEM_SETTLED_UNKNOWN}"

definition outcomeToState :: "PlayerInboxOutcome \<Rightarrow> PlayerInboxItemState" where
  "outcomeToState out =
     (case out of OUTCOME_APPLIED \<Rightarrow> ITEM_APPLIED
      | OUTCOME_REJECTED \<Rightarrow> ITEM_REJECTED
      | OUTCOME_SKIPPED \<Rightarrow> ITEM_VOIDED
      | OUTCOME_UNKNOWN \<Rightarrow> ITEM_SETTLED_UNKNOWN
      | _ \<Rightarrow> ITEM_UNSPECIFIED)"

definition sameOutcome :: "PlayerInboxItemState \<Rightarrow> u32 \<Rightarrow> PlayerInboxOutcome \<Rightarrow> u32 \<Rightarrow> bool" where
  "sameOutcome state stateReason outcome reason =
     (let want = outcomeToState outcome in
      if want = ITEM_UNSPECIFIED \<or> state \<noteq> want then False
      else want \<noteq> ITEM_REJECTED \<or> stateReason = reason)"

lemma outcomeToState_terminal: "outcomeToState r \<noteq> ITEM_UNSPECIFIED \<Longrightarrow> IsTerminalState (outcomeToState r)"
  unfolding outcomeToState_def IsTerminalState_def by (cases r) auto

lemma sameOutcome_terminal: "sameOutcome s sr r rr \<Longrightarrow> IsTerminalState s"
  using outcomeToState_terminal [of r] unfolding sameOutcome_def by (auto simp: Let_def split: if_splits)

section \<open>Acknowledging, voiding, enqueueing\<close>

record ackDecision =
  ad_result :: PlayerInboxAckResult
  ad_finalize :: bool
  ad_newState :: PlayerInboxItemState
  ad_state :: PlayerInboxItemState

definition ack_only :: "PlayerInboxAckResult \<Rightarrow> PlayerInboxItemState \<Rightarrow> ackDecision" where
  "ack_only result state =
     \<lparr>ad_result = result, ad_finalize = False, ad_newState = ITEM_UNSPECIFIED, ad_state = state\<rparr>"

definition decideAck :: "PlayerInboxItemRow option \<Rightarrow> PlayerInboxDecisionReport \<Rightarrow> ackDecision" where
  "decideAck row report =
     (case row of None \<Rightarrow> ack_only ACK_UNKNOWN_SEQ ITEM_UNSPECIFIED
      | Some r \<Rightarrow>
        let state = it_state r; want = outcomeToState (dr_outcome report) in
        if it_request_id r \<noteq> dr_request_id report then ack_only ACK_MISMATCH state
        else if state = ITEM_PENDING then
          if it_delivery_count r = 0 then ack_only ACK_NOT_DELIVERED state
          else if dr_outcome report = OUTCOME_SKIPPED \<and> it_directive r \<noteq> DIRECTIVE_VOID
          then ack_only ACK_SKIP_NOT_REQUESTED state
          else \<lparr>ad_result = ACK_FINALIZED, ad_finalize = True, ad_newState = want, ad_state = want\<rparr>
        else if sameOutcome state (it_outcome_reason r) (dr_outcome report) (dr_reason report)
        then ack_only ACK_ALREADY_SAME state
        else ack_only ACK_CONFLICT state)"

definition ackOutcomeReason :: "PlayerInboxDecisionReport \<Rightarrow> u32" where
  "ackOutcomeReason report =
     (if dr_outcome report = OUTCOME_REJECTED \<or> dr_outcome report = OUTCOME_SKIPPED
      then dr_reason report else 0)"

datatype voidAction = voidNotFound | voidTerminal | voidDirect | voidDirective
  | voidAlreadyRequested | voidForced | voidForceRefused

definition decideVoid :: "PlayerInboxItemRow option \<Rightarrow> voidAction" where
  "decideVoid row =
     (case row of None \<Rightarrow> voidNotFound
      | Some r \<Rightarrow>
        if it_state r \<noteq> ITEM_PENDING then voidTerminal
        else if it_delivery_count r = 0 then voidDirect
        else if it_directive r = DIRECTIVE_VOID then voidAlreadyRequested
        else voidDirective)"

text \<open>The loop of \<open>validateAckReports\<close> carries the previous sequence number.\<close>

fun ack_reports_ok :: "u64 \<Rightarrow> PlayerInboxDecisionReport list \<Rightarrow> bool" where
  "ack_reports_ok prev [] = True"
| "ack_reports_ok prev (r # rs) =
     (if dr_seq r = 0 \<or> dr_seq r \<le> prev then False
      else if outcomeToState (dr_outcome r) = ITEM_UNSPECIFIED then False
      else ack_reports_ok (dr_seq r) rs)"

definition validateAckReports :: "PlayerInboxDecisionReport list \<Rightarrow> nat \<Rightarrow> bool" where
  "validateAckReports reports maxReports =
     (if reports = [] \<or> length reports > maxReports then False else ack_reports_ok 0 reports)"

lemma ack_reports_ok_sorted:
  "ack_reports_ok prev rs \<Longrightarrow> sorted_wrt (<) (prev # map dr_seq rs) \<and>
     (\<forall>r \<in> set rs. dr_seq r \<noteq> 0 \<and> IsTerminalState (outcomeToState (dr_outcome r)))"
proof (induction rs arbitrary: prev)
  case (Cons r rs)
  then have "prev < dr_seq r" and "ack_reports_ok (dr_seq r) rs"
    and "outcomeToState (dr_outcome r) \<noteq> ITEM_UNSPECIFIED" and "dr_seq r \<noteq> 0"
    by (auto split: if_splits)
  then show ?case using Cons.IH [of "dr_seq r"] outcomeToState_terminal
    by (auto intro: order_less_trans)
qed simp

lemma validateAckReports_distinct:
  "validateAckReports rs n \<Longrightarrow> distinct (map dr_seq rs) \<and> length rs \<le> n"
  using ack_reports_ok_sorted [of 0 rs]
  by (auto simp: validateAckReports_def strict_sorted_iff split: if_splits)

definition clampFetchItems :: "u32 \<Rightarrow> nat \<Rightarrow> nat \<Rightarrow> nat" where
  "clampFetchItems requested def maxItems = (if requested = 0 then def else min (unat requested) maxItems)"

lemma clampFetchItems_range:
  "0 < def \<Longrightarrow> def \<le> m \<Longrightarrow> 0 < clampFetchItems r def m \<and> clampFetchItems r def m \<le> m"
  unfolding clampFetchItems_def by (auto simp: unat_eq_zero min_def intro: gr0I)

record EnqueueResult =
  er_code :: "tip option"
  er_seq :: u64
  er_created :: bool
  er_state :: PlayerInboxItemState

definition enqueue_code :: "tip \<Rightarrow> EnqueueResult" where
  "enqueue_code c = \<lparr>er_code = Some c, er_seq = 0, er_created = False, er_state = ITEM_UNSPECIFIED\<rparr>"

definition resultForExisting :: "PlayerInboxItemRow \<Rightarrow> bytes \<Rightarrow> EnqueueResult" where
  "resultForExisting row digest =
     (if decideExisting (it_content_sha256 row) digest = existingDuplicate
      then \<lparr>er_code = None, er_seq = it_seq row, er_created = False, er_state = it_state row\<rparr>
      else enqueue_code ErrIdempotencyConflict)"

text \<open>\<open>Some res\<close> ends the transaction with that result, \<open>None\<close> lets it proceed.\<close>

definition decideEnqueueLocked ::
  "PlayerInboxItemRow option \<Rightarrow> bytes \<Rightarrow> u32 \<Rightarrow> u32 \<Rightarrow> EnqueueResult option" where
  "decideEnqueueLocked existing digest openCount maxPending =
     (case existing of Some row \<Rightarrow> Some (resultForExisting row digest)
      | None \<Rightarrow> if openCount \<ge> maxPending then Some (enqueue_code ErrFull) else None)"

definition IssuedAtMaxPastMs :: u64 where "IssuedAtMaxPastMs = 7 * 24 * 3600000"
definition IssuedAtMaxFutureMs :: u64 where "IssuedAtMaxFutureMs = 5 * 60000"

definition issuedWithinWindow :: "u64 \<Rightarrow> u64 \<Rightarrow> bool" where
  "issuedWithinWindow issuedAtMs now =
     (if issuedAtMs > now + IssuedAtMaxFutureMs then False
      else now < IssuedAtMaxPastMs \<or> issuedAtMs \<ge> now - IssuedAtMaxPastMs)"

definition validProducer :: "u32 \<Rightarrow> bool" where
  "validProducer p \<longleftrightarrow> p = PRODUCER_GM \<or> p = PRODUCER_MATCH"

lemma issuedWithinWindow_iff:
  assumes "unat now + 300000 < 2 ^ 64"
  shows "issuedWithinWindow issued now \<longleftrightarrow>
    unat issued \<le> unat now + 300000 \<and> unat now \<le> unat issued + 604800000"
proof -
  have f: "unat (now + IssuedAtMaxFutureMs) = unat now + 300000"
    using assms by (simp add: IssuedAtMaxFutureMs_def unat_word_ariths)
  have p: "unat (now - IssuedAtMaxPastMs) = unat now - 604800000" if "\<not> now < IssuedAtMaxPastMs"
    using that by (subst unat_sub) (simp_all add: IssuedAtMaxPastMs_def not_less)
  have "now < IssuedAtMaxPastMs \<longleftrightarrow> unat now < 604800000"
    by (simp add: IssuedAtMaxPastMs_def word_less_nat_alt)
  then show ?thesis using f p
    unfolding issuedWithinWindow_def word_less_nat_alt word_le_nat_alt by auto
qed

section \<open>Stream updates\<close>

definition fetchNeedsLock :: "PlayerInboxStream \<Rightarrow> u64 \<Rightarrow> bool" where
  "fetchNeedsLock snap consumerDecidedThrough \<longleftrightarrow>
     ps_open_count snap > 0 \<or> IsCursorAhead (ps_next_seq snap) consumerDecidedThrough"

definition fetchStreamUpdate ::
  "PlayerInboxFenceVerdict \<Rightarrow> u64 \<Rightarrow> u64 \<Rightarrow> u64 \<Rightarrow> bool \<Rightarrow> bool \<times> u64 \<times> u64" where
  "fetchStreamUpdate v lockedFence reqEpoch nextSeq raised =
     (FenceWrites v \<or> raised, if FenceWrites v then reqEpoch else lockedFence, nextSeq)"

definition splitPage :: "'a list \<Rightarrow> nat \<Rightarrow> 'a list \<times> bool" where
  "splitPage rows limit = (if length rows > limit then (take limit rows, True) else (rows, False))"

definition fetchScanBound :: "PlayerInboxItemRow list \<Rightarrow> nat \<Rightarrow> u64 \<times> bool" where
  "fetchScanBound read limit =
     (if read = [] \<or> length read < limit then (0, True) else (it_seq (last read), False))"

definition subtractOpenCount :: "u32 \<Rightarrow> u32 \<Rightarrow> u32 \<times> bool" where
  "subtractOpenCount openCount finalized =
     (if finalized > openCount then (0, True) else (openCount - finalized, False))"

text \<open>Write flag, new open count, new fence, underflow flag.\<close>

definition ackStreamUpdate ::
  "PlayerInboxFenceVerdict \<Rightarrow> u32 \<Rightarrow> u32 \<Rightarrow> u64 \<Rightarrow> u64 \<Rightarrow> bool \<times> u32 \<times> u64 \<times> bool" where
  "ackStreamUpdate v openCount finalized lockedFence reqEpoch =
     (if finalized = 0 \<and> \<not> FenceWrites v then (False, openCount, lockedFence, False)
      else case subtractOpenCount openCount finalized of
        (newOpen, underflow) \<Rightarrow> (True, newOpen, if FenceWrites v then reqEpoch else lockedFence, underflow))"

definition isAckAnomaly :: "PlayerInboxAckResult \<Rightarrow> bool" where
  "isAckAnomaly r \<longleftrightarrow> r \<noteq> ACK_FINALIZED \<and> r \<noteq> ACK_ALREADY_SAME"

record voidOutcome =
  vo_tip :: "tip option"
  vo_state :: PlayerInboxItemState
  vo_voidRequested :: bool

definition voidOutcomeOf :: "voidAction \<Rightarrow> PlayerInboxItemState \<Rightarrow> voidOutcome" where
  "voidOutcomeOf action state =
     (case action of
        voidTerminal \<Rightarrow> \<lparr>vo_tip = Some ErrItemStateConflict, vo_state = state, vo_voidRequested = False\<rparr>
      | voidDirect \<Rightarrow> \<lparr>vo_tip = None, vo_state = state, vo_voidRequested = False\<rparr>
      | voidDirective \<Rightarrow> \<lparr>vo_tip = None, vo_state = state, vo_voidRequested = True\<rparr>
      | voidAlreadyRequested \<Rightarrow> \<lparr>vo_tip = None, vo_state = state, vo_voidRequested = True\<rparr>
      | voidForced \<Rightarrow> \<lparr>vo_tip = None, vo_state = state, vo_voidRequested = False\<rparr>
      | voidForceRefused \<Rightarrow> \<lparr>vo_tip = Some ErrItemStateConflict, vo_state = state, vo_voidRequested = False\<rparr>
      | voidNotFound \<Rightarrow> \<lparr>vo_tip = Some ErrItemNotFound, vo_state = ITEM_UNSPECIFIED, vo_voidRequested = False\<rparr>)"

text \<open>An audit row takes its content columns from the item, everything else from the caller.\<close>

definition auditRowFor ::
  "PlayerInboxItemRow option \<Rightarrow> PlayerInboxAudit option \<Rightarrow> PlayerInboxAudit option" where
  "auditRowFor item audit =
     (case (item, audit) of
        (Some it, Some a) \<Rightarrow>
          if it_player_id it \<noteq> pa_player_id a \<or> it_domain it \<noteq> pa_domain a \<or> it_seq it \<noteq> pa_seq a then None
          else Some (a \<lparr>pa_shard := RowShard (pa_player_id a),
                       pa_msg_type := it_msg_type it,
                       pa_request_id := it_request_id it,
                       pa_issued_at_ms := it_issued_at_ms it,
                       pa_content_sha256 := it_content_sha256 it,
                       pa_payload := it_payload it\<rparr>)
      | _ \<Rightarrow> None)"

lemma subtractOpenCount_exact:
  "unat f \<le> unat n \<Longrightarrow> subtractOpenCount n f = (n - f, False) \<and> unat (n - f) = unat n - unat f"
  unfolding subtractOpenCount_def by (auto simp: word_less_nat_alt word_le_nat_alt unat_sub)

section \<open>Notification retries\<close>

datatype NotifyResult = NotifyError | NotifySent | NotifyOffline | NotifyAwaitingPlacement
  | NotifyNoNode | NotifyEmptyUUID | NotifyNodesUnsynced | NotifyNodeAmbiguous | NotifyNodeMissing

definition Settled :: "NotifyResult \<Rightarrow> bool" where
  "Settled r \<longleftrightarrow> r = NotifySent \<or> r = NotifyOffline \<or> r = NotifyAwaitingPlacement \<or> r = NotifyNoNode"

definition notifyRetryMinMs :: u64 where "notifyRetryMinMs = 30000"
definition notifyRetryMaxMs :: u64 where "notifyRetryMaxMs = 1800000"
definition notifyNodeMissingSettleAfterMs :: u64 where "notifyNodeMissingSettleAfterMs = 3600000"

definition notifyGivesUp :: "NotifyResult \<Rightarrow> u64 \<Rightarrow> u64 \<Rightarrow> bool" where
  "notifyGivesUp result now pendingSinceMs =
     (if result \<noteq> NotifyNodeMissing \<or> pendingSinceMs = 0 \<or> pendingSinceMs \<ge> now then False
      else now - pendingSinceMs \<ge> notifyNodeMissingSettleAfterMs)"

definition notifyRetryDueMs :: "u64 \<Rightarrow> u64 \<Rightarrow> u64" where
  "notifyRetryDueMs now pendingSinceMs =
     now + (if pendingSinceMs \<noteq> 0 \<and> pendingSinceMs < now
            then min (max (now - pendingSinceMs) notifyRetryMinMs) notifyRetryMaxMs
            else notifyRetryMinMs)"

text \<open>The backoff stays within 30 seconds and 30 minutes and doubles the time a reminder has been
  pending, up to the cap.\<close>

lemma notifyRetryDueMs_window:
  assumes "unat now + 1800000 < 2 ^ 64"
  shows "unat now + 30000 \<le> unat (notifyRetryDueMs now since)"
    and "unat (notifyRetryDueMs now since) \<le> unat now + 1800000"
    and "since \<noteq> 0 \<Longrightarrow> since < now \<Longrightarrow> 30000 \<le> unat now - unat since \<Longrightarrow> unat now - unat since \<le> 1800000 \<Longrightarrow>
         unat (notifyRetryDueMs now since) - unat since = 2 * (unat now - unat since)"
proof -
  define b where "b = (if since \<noteq> 0 \<and> since < now
            then min (max (now - since) notifyRetryMinMs) notifyRetryMaxMs else notifyRetryMinMs)"
  have b: "30000 \<le> unat b \<and> unat b \<le> 1800000"
    unfolding b_def notifyRetryMinMs_def notifyRetryMaxMs_def
    by (auto simp: min_def max_def word_le_nat_alt)
  have sum: "unat (notifyRetryDueMs now since) = unat now + unat b"
    using assms b unfolding notifyRetryDueMs_def b_def [symmetric] by (simp add: unat_word_ariths)
  show "unat now + 30000 \<le> unat (notifyRetryDueMs now since)"
    and "unat (notifyRetryDueMs now since) \<le> unat now + 1800000"
    using b sum by simp_all
  assume s: "since \<noteq> 0" "since < now" "30000 \<le> unat now - unat since" "unat now - unat since \<le> 1800000"
  then have d: "unat (now - since) = unat now - unat since"
    by (simp add: unat_sub less_imp_le)
  then have "unat b = unat now - unat since"
    using s unfolding b_def notifyRetryMinMs_def notifyRetryMaxMs_def
    by (auto simp: min_def max_def word_le_nat_alt)
  then show "unat (notifyRetryDueMs now since) - unat since = 2 * (unat now - unat since)"
    using sum s(2) by (simp add: word_less_nat_alt)
qed

section \<open>Delivered items\<close>

record PlayerInboxItem =
  pi_seq :: u64
  pi_msg_type :: u32
  pi_directive :: PlayerInboxDirective
  pi_void_reason :: PlayerInboxVoidReason
  pi_request_id :: u64
  pi_delivery_count :: u32
  pi_created_ms :: u64
  pi_payload :: bytes

text \<open>The payload travels only without a directive; the count includes this delivery.\<close>

definition deliveredItem :: "PlayerInboxItemRow \<Rightarrow> PlayerInboxItem" where
  "deliveredItem row =
     \<lparr>pi_seq = it_seq row, pi_msg_type = it_msg_type row, pi_directive = it_directive row,
      pi_void_reason = it_void_reason row, pi_request_id = it_request_id row,
      pi_delivery_count = it_delivery_count row + 1, pi_created_ms = it_created_ms row,
      pi_payload = (if it_directive row = DIRECTIVE_NONE then it_payload row else [])\<rparr>"

end
