(* ===== verification/InboxLedger.thy ===== *)
theory InboxLedger
  imports InboxDecide
begin

text \<open>
  The consumer side of the inbox and the two places that read its ledger.  The first part models
  the rules of the scene server (\<open>cpp/.../player_inbox_rules.cpp\<close> and the loop of \<open>ApplyPending\<close> in
  \<open>player_inbox_system.cpp\<close>): the ring of recent decisions, the classification of a delivery and the
  application of a batch.  The second part models the Go service reading the persisted ledger: the
  proof behind a forced void and the reconciliation predicates of \<open>decide.go\<close>.  The lemmas connect
  the two through the whole history of decisions, of which the ring keeps the last 32.
\<close>

section \<open>The ledger\<close>

record PlayerInboxDecision =
  de_seq :: u64
  de_outcome :: PlayerInboxOutcome
  de_reason :: u32
  de_request_id :: u64
  de_msg_type :: u32

record PlayerInboxDomainCursor =
  cu_domain :: u32
  cu_decided_through_seq :: u64
  cu_recent :: "PlayerInboxDecision list"

type_synonym PlayerInboxLedgerComp = "PlayerInboxDomainCursor list"

definition kRecentCapacity :: nat where "kRecentCapacity = 32"
definition kFetchBatchMax :: u32 where "kFetchBatchMax = 16"

definition FindRecent :: "PlayerInboxDomainCursor \<Rightarrow> u64 \<Rightarrow> PlayerInboxDecision option" where
  "FindRecent cursor seq = List.find (\<lambda>d. de_seq d = seq) (cu_recent cursor)"

definition FindCursor :: "PlayerInboxLedgerComp \<Rightarrow> u32 \<Rightarrow> PlayerInboxDomainCursor option" where
  "FindCursor ledger domain = List.find (\<lambda>c. cu_domain c = domain) ledger"

text \<open>A missing cursor is appended and swapped forward past larger domains; \<open>sift_in\<close> is the
  resulting insertion, and \<open>MutableCursor\<close> returns the ledger that now has the domain.\<close>

fun sift_in :: "PlayerInboxDomainCursor \<Rightarrow> PlayerInboxDomainCursor list \<Rightarrow> PlayerInboxDomainCursor list" where
  "sift_in c [] = [c]"
| "sift_in c (x # rev_xs) =
     (if cu_domain x > cu_domain c then x # sift_in c rev_xs else c # x # rev_xs)"

definition MutableCursor :: "PlayerInboxLedgerComp \<Rightarrow> u32 \<Rightarrow> PlayerInboxLedgerComp" where
  "MutableCursor ledger domain =
     (if FindCursor ledger domain \<noteq> None then ledger
      else rev (sift_in \<lparr>cu_domain = domain, cu_decided_through_seq = 0, cu_recent = []\<rparr> (rev ledger)))"

definition IsRecordableOutcome :: "PlayerInboxOutcome \<Rightarrow> bool" where
  "IsRecordableOutcome out \<longleftrightarrow> out = OUTCOME_APPLIED \<or> out = OUTCOME_REJECTED \<or> out = OUTCOME_SKIPPED"

text \<open>\<open>None\<close> is the refusal, which leaves the cursor alone.\<close>

definition RecordDecision ::
  "PlayerInboxDomainCursor \<Rightarrow> PlayerInboxDecision \<Rightarrow> PlayerInboxDomainCursor option" where
  "RecordDecision cursor decision =
     (if \<not> IsRecordableOutcome (de_outcome decision) then None
      else if de_seq decision = 0 \<or> de_seq decision \<le> cu_decided_through_seq cursor then None
      else
        let recent = cu_recent cursor @ [decision] in
        Some (cursor \<lparr>cu_recent := (if length recent > kRecentCapacity
                                     then drop (length recent - kRecentCapacity) recent else recent),
                      cu_decided_through_seq := de_seq decision\<rparr>))"

fun recent_valid :: "u64 \<Rightarrow> u64 \<Rightarrow> PlayerInboxDecision list \<Rightarrow> bool" where
  "recent_valid through previousSeq [] = True"
| "recent_valid through previousSeq (d # ds) =
     (if de_seq d = 0 then False
      else if de_seq d \<le> previousSeq then False
      else if de_seq d > through then False
      else if \<not> IsRecordableOutcome (de_outcome d) then False
      else recent_valid through (de_seq d) ds)"

fun cursors_valid :: "u32 list \<Rightarrow> PlayerInboxLedgerComp \<Rightarrow> bool" where
  "cursors_valid seenDomains [] = True"
| "cursors_valid seenDomains (c # cs) =
     (if cu_domain c = 0 then False
      else if cu_domain c \<in> set seenDomains then False
      else if length (cu_recent c) > kRecentCapacity then False
      else if \<not> recent_valid (cu_decided_through_seq c) 0 (cu_recent c) then False
      else cursors_valid (seenDomains @ [cu_domain c]) cs)"

text \<open>True stands for the empty string \<open>ValidateLedger\<close> returns when nothing is wrong.\<close>

definition ValidateLedger :: "PlayerInboxLedgerComp \<Rightarrow> bool" where
  "ValidateLedger ledger = cursors_valid [] ledger"

section \<open>Classifying a delivery\<close>

datatype DeliveryClass = kNew | kReplay | kMismatch | kUnknown

text \<open>The second component is what is copied to \<open>replayed\<close>.\<close>

definition ClassifyDelivery ::
  "PlayerInboxDomainCursor option \<Rightarrow> u64 \<Rightarrow> u64 \<Rightarrow> u32 \<Rightarrow> DeliveryClass \<times> PlayerInboxDecision option" where
  "ClassifyDelivery cursor seq requestId msgType =
     (case cursor of None \<Rightarrow> (kNew, None)
      | Some c \<Rightarrow>
        if seq > cu_decided_through_seq c then (kNew, None)
        else case FindRecent c seq of None \<Rightarrow> (kUnknown, None)
          | Some recorded \<Rightarrow>
            if de_request_id recorded \<noteq> requestId \<or> de_msg_type recorded \<noteq> msgType
            then (kMismatch, Some recorded) else (kReplay, Some recorded))"

datatype ItemAction = kExecute | kSkipVoided | kReplayAction | kAckUnknown | kHaltMismatch
  | kHaltUnknownDirective

definition PlanItem :: "DeliveryClass \<Rightarrow> PlayerInboxDirective \<Rightarrow> ItemAction" where
  "PlanItem deliveryClass directive =
     (case deliveryClass of kReplay \<Rightarrow> kReplayAction
      | kUnknown \<Rightarrow> kAckUnknown
      | kMismatch \<Rightarrow> kHaltMismatch
      | kNew \<Rightarrow> if directive = DIRECTIVE_VOID then kSkipVoided
                else if directive \<noteq> DIRECTIVE_NONE then kHaltUnknownDirective
                else kExecute)"

datatype Durability = kDurable | kNotYet | kOutcomeDiffers | kRingMissing

definition ClassifyDurability ::
  "PlayerInboxLedgerComp \<Rightarrow> u32 \<Rightarrow> PlayerInboxDecision \<Rightarrow> Durability" where
  "ClassifyDurability persisted domain decision =
     (case FindCursor persisted domain of None \<Rightarrow> kNotYet
      | Some cursor \<Rightarrow>
        if cu_decided_through_seq cursor < de_seq decision then kNotYet
        else if de_outcome decision = OUTCOME_UNKNOWN then kDurable
        else case FindRecent cursor (de_seq decision) of None \<Rightarrow> kRingMissing
          | Some onDisk \<Rightarrow>
            if de_outcome onDisk \<noteq> de_outcome decision \<or> de_reason onDisk \<noteq> de_reason decision \<or>
               de_request_id onDisk \<noteq> de_request_id decision \<or> de_msg_type onDisk \<noteq> de_msg_type decision
            then kOutcomeDiffers else kDurable)"

section \<open>Applying a batch\<close>

datatype PlayerInboxExecResult = kApplied | kRejected u32 | kVersionSkew u32 | kDefer u32

datatype PlayerInboxHaltReason = HaltVersionSkew | HaltReplayMismatch | HaltUnknownType | HaltLedgerWrite

text \<open>How the loop ends: all items decided, stopped at an item that was deferred, or the domain halted.\<close>

datatype batch_end = BatchDecided | Deferred | Halted PlayerInboxHaltReason

text \<open>\<open>ap_effects\<close> is a history variable: the items whose executor ran and reported an effect.\<close>

record apply_state =
  ap_ledger :: PlayerInboxLedgerComp
  ap_ackQueue :: "PlayerInboxDecision list"
  ap_recorded :: bool
  ap_effects :: "PlayerInboxItem list"

fun void_reason_num :: "PlayerInboxVoidReason \<Rightarrow> u32" where
  "void_reason_num VOID_UNSPECIFIED = 0"
| "void_reason_num VOID_CANCELLED = 1"
| "void_reason_num VOID_QUARANTINED = 2"
| "void_reason_num (VOID_OTHER n) = n"

definition UnknownDecisionFor :: "PlayerInboxItem \<Rightarrow> PlayerInboxDecision" where
  "UnknownDecisionFor item =
     \<lparr>de_seq = pi_seq item, de_outcome = OUTCOME_UNKNOWN, de_reason = 0,
      de_request_id = pi_request_id item, de_msg_type = pi_msg_type item\<rparr>"

definition decision_for :: "PlayerInboxItem \<Rightarrow> PlayerInboxOutcome \<Rightarrow> u32 \<Rightarrow> PlayerInboxDecision" where
  "decision_for item outcome reason =
     \<lparr>de_seq = pi_seq item, de_outcome = outcome, de_reason = reason,
      de_request_id = pi_request_id item, de_msg_type = pi_msg_type item\<rparr>"

definition put_cursor :: "PlayerInboxLedgerComp \<Rightarrow> PlayerInboxDomainCursor \<Rightarrow> PlayerInboxLedgerComp" where
  "put_cursor ledger c = upd_first (\<lambda>x. cu_domain x = cu_domain c) (\<lambda>_. c) ledger"

text \<open>\<open>RecordDecision(MutableCursor(ledger, domain), decision)\<close> on the ledger; the flag is the
  returned boolean.  A refused decision still leaves the inserted empty cursor behind.\<close>

definition record_in :: "PlayerInboxLedgerComp \<Rightarrow> u32 \<Rightarrow> PlayerInboxDecision \<Rightarrow> PlayerInboxLedgerComp \<times> bool" where
  "record_in ledger domain decision =
     (let l = MutableCursor ledger domain in
      case FindCursor l domain of None \<Rightarrow> (l, False)
      | Some c \<Rightarrow> (case RecordDecision c decision of None \<Rightarrow> (l, False)
                  | Some c' \<Rightarrow> (put_cursor l c', True)))"

definition battle_refused ::
  "u32 \<Rightarrow> PlayerInboxItem \<Rightarrow> ItemAction \<Rightarrow> PlayerInboxDecision option \<Rightarrow> bool" where
  "battle_refused domain item action replayed \<longleftrightarrow>
     domain = DOMAIN_SCENE_BATTLE_SETTLEMENT \<and>
     (pi_msg_type item \<noteq> MSG_BATTLE_SETTLEMENT \<or> pi_directive item \<noteq> DIRECTIVE_NONE \<or>
      action = kAckUnknown \<or>
      (action = kReplayAction \<and> (case replayed of Some d \<Rightarrow> de_outcome d \<noteq> OUTCOME_APPLIED | None \<Rightarrow> True)))"

text \<open>The executors of the domain: \<open>None\<close> when this binary has none for the type.\<close>

type_synonym executors = "PlayerInboxItem \<Rightarrow> PlayerInboxExecResult option"

definition record_new ::
  "u32 \<Rightarrow> PlayerInboxDecision \<Rightarrow> apply_state \<Rightarrow> apply_state \<times> bool" where
  "record_new domain decision st =
     (case record_in (ap_ledger st) domain decision of
        (l, False) \<Rightarrow> (st \<lparr>ap_ledger := l\<rparr>, False)
      | (l, True) \<Rightarrow> (st \<lparr>ap_ledger := l, ap_recorded := True,
                         ap_ackQueue := ap_ackQueue st @ [decision]\<rparr>, True))"

text \<open>One turn of the loop: the new state and, where the loop ends at this item, how.\<close>

definition record_or_halt :: "u32 \<Rightarrow> PlayerInboxDecision \<Rightarrow> apply_state \<Rightarrow> apply_state \<times> batch_end option" where
  "record_or_halt domain decision st =
     (case record_new domain decision st of (st', recorded) \<Rightarrow>
        (st', if recorded then None else Some (Halted HaltLedgerWrite)))"

definition execute_item :: "u32 \<Rightarrow> executors \<Rightarrow> PlayerInboxItem \<Rightarrow> apply_state \<Rightarrow> apply_state \<times> batch_end option" where
  "execute_item domain exec item st =
     (case exec item of None \<Rightarrow> (st, Some (Halted HaltUnknownType))
      | Some result \<Rightarrow>
        (case result of
           kApplied \<Rightarrow> record_or_halt domain (decision_for item OUTCOME_APPLIED 0)
                         (st \<lparr>ap_effects := ap_effects st @ [item]\<rparr>)
         | kRejected r \<Rightarrow> record_or_halt domain (decision_for item OUTCOME_REJECTED r) st
         | kVersionSkew r \<Rightarrow> (st, Some (Halted HaltVersionSkew))
         | kDefer r \<Rightarrow> (st, Some Deferred)))"

definition apply_item :: "u32 \<Rightarrow> executors \<Rightarrow> PlayerInboxItem \<Rightarrow> apply_state \<Rightarrow> apply_state \<times> batch_end option" where
  "apply_item domain exec item st =
     (case ClassifyDelivery (FindCursor (ap_ledger st) domain) (pi_seq item) (pi_request_id item)
             (pi_msg_type item) of
        (deliveryClass, replayed) \<Rightarrow>
      let action = PlanItem deliveryClass (pi_directive item) in
      if battle_refused domain item action replayed then (st, Some (Halted HaltVersionSkew))
      else case action of
        kReplayAction \<Rightarrow>
          (case replayed of Some d \<Rightarrow> st \<lparr>ap_ackQueue := ap_ackQueue st @ [d]\<rparr> | None \<Rightarrow> st, None)
      | kAckUnknown \<Rightarrow> (st \<lparr>ap_ackQueue := ap_ackQueue st @ [UnknownDecisionFor item]\<rparr>, None)
      | kHaltMismatch \<Rightarrow> (st \<lparr>ap_ackQueue := []\<rparr>, Some (Halted HaltReplayMismatch))
      | kHaltUnknownDirective \<Rightarrow> (st, Some (Halted HaltUnknownType))
      | kSkipVoided \<Rightarrow>
          record_or_halt domain (decision_for item OUTCOME_SKIPPED (void_reason_num (pi_void_reason item))) st
      | kExecute \<Rightarrow> execute_item domain exec item st)"

text \<open>The loop; the third component are the items from the one it stopped at.\<close>

fun ApplyPending ::
  "u32 \<Rightarrow> executors \<Rightarrow> PlayerInboxItem list \<Rightarrow> apply_state \<Rightarrow> apply_state \<times> batch_end \<times> PlayerInboxItem list" where
  "ApplyPending domain exec [] st = (st, BatchDecided, [])"
| "ApplyPending domain exec (item # items) st =
     (case apply_item domain exec item st of
        (st', None) \<Rightarrow> ApplyPending domain exec items st'
      | (st', Some e) \<Rightarrow> (st', e, item # items))"

section \<open>Delays of the consumer\<close>

definition kBackoffMinMs :: u64 where "kBackoffMinMs = 1000"
definition kBackoffMaxMs :: u64 where "kBackoffMaxMs = 60000"
definition kJitterPermilleMax :: u32 where "kJitterPermilleMax = 1000"
definition kBackoffJitterPercent :: u32 where "kBackoffJitterPercent = 20"
definition kPeriodicJitterPercent :: u32 where "kPeriodicJitterPercent = 20"
definition kBackoffMaxShift :: u32 where "kBackoffMaxShift = 6"
definition kStuckWarnEveryFailures :: u32 where "kStuckWarnEveryFailures = 8"

definition ApplyJitter :: "u64 \<Rightarrow> u32 \<Rightarrow> u32 \<Rightarrow> u64" where
  "ApplyJitter baseMs jitterPermille spreadPercent =
     (let clamped = ucast (min jitterPermille kJitterPermilleMax) :: u64;
          lowPermille = 1000 - ucast spreadPercent * 10;
          spanPermille = ucast spreadPercent * 20;
          factorPermille = lowPermille + spanPermille * clamped div ucast kJitterPermilleMax
      in baseMs * factorPermille div 1000)"

definition BackoffMs :: "u32 \<Rightarrow> u32 \<Rightarrow> u64" where
  "BackoffMs failStreak jitterPermille =
     (let streak = max failStreak 1;
          shift = min (streak - 1) kBackoffMaxShift;
          baseMs = min (push_bit (unat shift) kBackoffMinMs) kBackoffMaxMs;
          jittered = ApplyJitter baseMs jitterPermille kBackoffJitterPercent
      in max kBackoffMinMs (min jittered kBackoffMaxMs))"

definition PeriodicDelayMs :: "u32 \<Rightarrow> u32 \<Rightarrow> u64" where
  "PeriodicDelayMs minutes jitterPermille =
     (if minutes = 0 then 0 else ApplyJitter (ucast minutes * 60000) jitterPermille kPeriodicJitterPercent)"

definition IsNewLanding :: "bool \<Rightarrow> u64 \<Rightarrow> u64 \<Rightarrow> bool" where
  "IsNewLanding hasRuntime landedEpoch currentEpoch \<longleftrightarrow> \<not> hasRuntime \<or> landedEpoch \<noteq> currentEpoch"

definition IsStuckWarnDue :: "u32 \<Rightarrow> bool" where
  "IsStuckWarnDue failStreak \<longleftrightarrow> failStreak \<noteq> 0 \<and> failStreak mod kStuckWarnEveryFailures = 0"

section \<open>Reading the persisted ledger\<close>

definition ledgerRecentCapacity :: nat where "ledgerRecentCapacity = 32"

definition findCursor :: "PlayerInboxLedgerComp \<Rightarrow> u32 \<Rightarrow> PlayerInboxDomainCursor option" where
  "findCursor ledger domain = List.find (\<lambda>c. cu_domain c = domain) ledger"

definition DecidedThrough :: "PlayerInboxLedgerComp \<Rightarrow> u32 \<Rightarrow> u64" where
  "DecidedThrough ledger domain =
     (case List.find (\<lambda>c. cu_domain c = domain) ledger of None \<Rightarrow> 0 | Some c \<Rightarrow> cu_decided_through_seq c)"

definition isRecordableOutcome :: "PlayerInboxOutcome \<Rightarrow> bool" where
  "isRecordableOutcome out =
     (case out of OUTCOME_APPLIED \<Rightarrow> True | OUTCOME_REJECTED \<Rightarrow> True | OUTCOME_SKIPPED \<Rightarrow> True | _ \<Rightarrow> False)"

fun ledger_ring_ok :: "u64 \<Rightarrow> u64 \<Rightarrow> PlayerInboxDecision list \<Rightarrow> bool" where
  "ledger_ring_ok through prev [] = True"
| "ledger_ring_ok through prev (d # ds) =
     (if de_seq d = 0 \<or> de_seq d \<le> prev \<or> de_seq d > through \<or>
         \<not> isRecordableOutcome (de_outcome d) \<or> de_request_id d = 0
      then False else ledger_ring_ok through (de_seq d) ds)"

fun ledger_cursors_ok :: "u32 set \<Rightarrow> PlayerInboxLedgerComp \<Rightarrow> bool" where
  "ledger_cursors_ok seen [] = True"
| "ledger_cursors_ok seen (c # cs) =
     (if cu_domain c = 0 \<or> cu_domain c \<in> seen \<or> length (cu_recent c) > ledgerRecentCapacity then False
      else if \<not> ledger_ring_ok (cu_decided_through_seq c) 0 (cu_recent c) then False
      else ledger_cursors_ok (insert (cu_domain c) seen) cs)"

definition validLedger :: "PlayerInboxLedgerComp \<Rightarrow> bool" where
  "validLedger ledger = ledger_cursors_ok {} ledger"

record forceVoidProof =
  fp_verdict :: PlayerInboxForceVoidVerdict
  fp_decidedThrough :: u64
  fp_ringRequestID :: u64

definition fp_only :: "PlayerInboxForceVoidVerdict \<Rightarrow> forceVoidProof" where
  "fp_only v = \<lparr>fp_verdict = v, fp_decidedThrough = 0, fp_ringRequestID = 0\<rparr>"

text \<open>The scan of the ring: whether the sequence number was seen so far and the request recorded there.\<close>

fun prove_scan ::
  "PlayerInboxItemRow \<Rightarrow> PlayerInboxDecision list \<Rightarrow> bool \<Rightarrow> forceVoidProof \<Rightarrow> forceVoidProof" where
  "prove_scan row [] seqDecided proof =
     proof \<lparr>fp_verdict := (if \<not> seqDecided then FORCE_VOID_SEQ_NOT_IN_RING else FORCE_VOID_PROVEN)\<rparr>"
| "prove_scan row (d # ds) seqDecided proof =
     (let hit = (de_seq d = it_seq row);
          proof' = (if hit then proof \<lparr>fp_ringRequestID := de_request_id d\<rparr> else proof) in
      if de_request_id d = it_request_id row then proof' \<lparr>fp_verdict := FORCE_VOID_REQUEST_IN_LEDGER\<rparr>
      else prove_scan row ds (seqDecided \<or> hit) proof')"

definition proveNeverExecuted ::
  "PlayerInboxItemRow \<Rightarrow> PlayerInboxLedgerComp option \<Rightarrow> forceVoidProof" where
  "proveNeverExecuted row ledger =
     (if it_delivery_count row = 0 then fp_only FORCE_VOID_NOT_DELIVERED
      else case ledger of None \<Rightarrow> fp_only FORCE_VOID_LEDGER_ABSENT
        | Some l \<Rightarrow>
          if \<not> validLedger l then fp_only FORCE_VOID_LEDGER_INVALID
          else case findCursor l (it_domain row) of None \<Rightarrow> fp_only FORCE_VOID_NOT_DECIDED
            | Some cursor \<Rightarrow>
              let proof = (fp_only FORCE_VOID_UNSPECIFIED) \<lparr>fp_decidedThrough := cu_decided_through_seq cursor\<rparr> in
              if cu_decided_through_seq cursor < it_seq row
              then proof \<lparr>fp_verdict := FORCE_VOID_NOT_DECIDED\<rparr>
              else prove_scan row (cu_recent cursor) False proof)"

definition decideForceVoidLocked ::
  "PlayerInboxItemRow option \<Rightarrow> PlayerInboxLedgerComp option \<Rightarrow> voidAction \<times> forceVoidProof" where
  "decideForceVoidLocked row ledger =
     (case row of None \<Rightarrow> (voidNotFound, fp_only FORCE_VOID_UNSPECIFIED)
      | Some r \<Rightarrow>
        if it_state r \<noteq> ITEM_PENDING then (voidTerminal, fp_only FORCE_VOID_UNSPECIFIED)
        else let proof = proveNeverExecuted r ledger in
          if fp_verdict proof \<noteq> FORCE_VOID_PROVEN then (voidForceRefused, proof) else (voidForced, proof))"

section \<open>Reconciliation\<close>

datatype ledgerGap = gapNone | gapBeyondWatermark | gapMissingInRing | gapRingMismatch

record FinalizedRef =
  fr_player_id :: u64
  fr_domain :: u32
  fr_seq :: u64
  fr_state :: PlayerInboxItemState
  fr_request_id :: u64
  fr_msg_type :: u32
  fr_outcome_reason :: u32
  fr_finalized_by :: PlayerInboxFinalizer
  fr_updated_ms :: u64

definition cursor_through :: "PlayerInboxDomainCursor option \<Rightarrow> u64" where
  "cursor_through c = (case c of None \<Rightarrow> 0 | Some c \<Rightarrow> cu_decided_through_seq c)"

definition cursor_ring :: "PlayerInboxDomainCursor option \<Rightarrow> PlayerInboxDecision list" where
  "cursor_ring c = (case c of None \<Rightarrow> [] | Some c \<Rightarrow> cu_recent c)"

definition finalizedLedgerGap :: "FinalizedRef \<Rightarrow> PlayerInboxDomainCursor option \<Rightarrow> ledgerGap" where
  "finalizedLedgerGap f cursor =
     (if fr_finalized_by f \<noteq> FINALIZER_CONSUMER \<or> \<not> IsTerminalState (fr_state f) then gapNone
      else if fr_seq f > cursor_through cursor then gapBeyondWatermark
      else if fr_state f = ITEM_SETTLED_UNKNOWN then gapNone
      else let recent = cursor_ring cursor in
        if length recent \<ge> ledgerRecentCapacity \<and> fr_seq f < de_seq (hd recent) then gapNone
        else case List.find (\<lambda>d. de_seq d = fr_seq f) recent of None \<Rightarrow> gapMissingInRing
          | Some d \<Rightarrow>
            if de_request_id d \<noteq> fr_request_id f \<or> de_msg_type d \<noteq> fr_msg_type f \<or>
               \<not> sameOutcome (fr_state f) (fr_outcome_reason f) (de_outcome d) (de_reason d)
            then gapRingMismatch else gapNone)"

definition finalizedRefOfRow :: "PlayerInboxItemRow \<Rightarrow> FinalizedRef" where
  "finalizedRefOfRow row =
     \<lparr>fr_player_id = it_player_id row, fr_domain = it_domain row, fr_seq = it_seq row,
      fr_state = it_state row, fr_request_id = it_request_id row, fr_msg_type = it_msg_type row,
      fr_outcome_reason = it_outcome_reason row, fr_finalized_by = it_finalized_by row,
      fr_updated_ms = it_updated_ms row\<rparr>"

definition reconcileDiff ::
  "PlayerInboxItemRow \<Rightarrow> PlayerInboxDomainCursor option \<Rightarrow> PlayerInboxReconcileDiffKind" where
  "reconcileDiff row cursor =
     (if it_state row = ITEM_PENDING then
        if it_seq row \<le> cursor_through cursor then RECONCILE_PENDING_BUT_DECIDED
        else RECONCILE_DIFF_UNSPECIFIED
      else if finalizedLedgerGap (finalizedRefOfRow row) cursor \<noteq> gapNone then RECONCILE_FINAL_NOT_IN_LEDGER
      else RECONCILE_DIFF_UNSPECIFIED)"

text \<open>Cursors as (domain, ledger watermark, \<open>next_seq\<close>), differences as the row and its kind.\<close>

definition reconcileReport ::
  "u32 list \<Rightarrow> (u32 \<Rightarrow> PlayerInboxStream option) \<Rightarrow> PlayerInboxLedgerComp \<Rightarrow> PlayerInboxItemRow list \<Rightarrow>
   (u32 \<times> u64 \<times> u64) list \<times> (PlayerInboxItemRow \<times> PlayerInboxReconcileDiffKind) list" where
  "reconcileReport domains streams ledger rows =
     (let entry = (\<lambda>d. (d, DecidedThrough ledger d,
                         case streams d of None \<Rightarrow> 0 | Some st \<Rightarrow> ps_next_seq st)) in
      (map entry (filter (\<lambda>d. \<not> (streams d = None \<and> DecidedThrough ledger d = 0)) domains),
       filter (\<lambda>p. snd p \<noteq> RECONCILE_DIFF_UNSPECIFIED)
         (map (\<lambda>row. (row, reconcileDiff row (findCursor ledger (it_domain row)))) rows)))"

definition ledgerMismatches :: "FinalizedRef list \<Rightarrow> PlayerInboxLedgerComp \<Rightarrow> (FinalizedRef \<times> ledgerGap) list" where
  "ledgerMismatches refs ledger =
     filter (\<lambda>p. snd p \<noteq> gapNone)
       (map (\<lambda>f. (f, finalizedLedgerGap f (findCursor ledger (fr_domain f)))) refs)"

section \<open>The ring as the tail of a history\<close>

text \<open>\<open>cursor_holds hist c\<close>: the cursor is what recording the decisions \<open>hist\<close> one after the other leaves.\<close>

definition cursor_holds :: "PlayerInboxDecision list \<Rightarrow> PlayerInboxDomainCursor option \<Rightarrow> bool" where
  "cursor_holds hist c \<longleftrightarrow>
     sorted_wrt (<) (map de_seq hist) \<and>
     (\<forall>d \<in> set hist. de_seq d \<noteq> 0 \<and> IsRecordableOutcome (de_outcome d)) \<and>
     cursor_through c = (if hist = [] then 0 else de_seq (last hist)) \<and>
     cursor_ring c = drop (length hist - kRecentCapacity) hist"

lemma cursor_holds_None [simp]: "cursor_holds [] None"
  unfolding cursor_holds_def cursor_through_def cursor_ring_def by simp

lemma isRecordable_iff: "isRecordableOutcome r \<longleftrightarrow> IsRecordableOutcome r"
  unfolding isRecordableOutcome_def IsRecordableOutcome_def by (cases r) auto

lemma cursor_holds_le:
  assumes "cursor_holds hist c" and "d \<in> set hist"
  shows "de_seq d \<le> cursor_through c"
proof -
  have sorted: "sorted_wrt (<) (map de_seq hist)" and through: "cursor_through c = de_seq (last hist)"
    using assms unfolding cursor_holds_def by auto
  obtain pre where hist: "hist = pre @ [last hist]"
    using assms(2) by (metis append_butlast_last_id empty_iff list.set(1))
  show ?thesis
  proof (cases "d = last hist")
    case False
    then have "d \<in> set pre" using hist assms(2) by (metis Un_iff in_set_conv_decomp list.set_intros(1)
        rotate1.simps(2) set_ConsD set_append set_rotate1)
    moreover have "sorted_wrt (<) (map de_seq (pre @ [last hist]))" using sorted hist by simp
    ultimately show ?thesis using through by (auto simp: sorted_wrt_append)
  qed (simp add: through)
qed

lemma cursor_holds_seq_inj:
  assumes "cursor_holds hist c" and "d \<in> set hist" and "e \<in> set hist" and "de_seq d = de_seq e"
  shows "d = e"
proof -
  have "distinct (map de_seq hist)"
    using assms(1) unfolding cursor_holds_def by (auto simp: strict_sorted_iff)
  then show ?thesis using assms(2-4) by (meson distinct_map inj_onD)
qed

lemma cursor_holds_ring_sub: "cursor_holds hist c \<Longrightarrow> set (cursor_ring c) \<subseteq> set hist"
  unfolding cursor_holds_def by (auto dest: in_set_dropD)

lemma ring_find_unique:
  assumes "cursor_holds hist c" and "List.find (\<lambda>d. de_seq d = s) (cursor_ring c) = Some r"
  shows "r \<in> set hist" and "de_seq r = s" and "d \<in> set hist \<Longrightarrow> de_seq d = s \<Longrightarrow> d = r"
proof -
  have "r \<in> set (cursor_ring c)" and s: "de_seq r = s" using assms(2) by (auto dest: find_key_Some)
  then show r: "r \<in> set hist" using cursor_holds_ring_sub [OF assms(1)] by auto
  show "de_seq r = s" by (rule s)
  assume "d \<in> set hist" and "de_seq d = s"
  then show "d = r" using cursor_holds_seq_inj [OF assms(1) _ r, of d] s by simp
qed

text \<open>A decision of the history that is not older than the head of the ring is still in the ring.\<close>

lemma cursor_holds_recent:
  assumes "cursor_holds hist c" and "d \<in> set hist"
    and "length (cursor_ring c) < kRecentCapacity \<or> de_seq (hd (cursor_ring c)) \<le> de_seq d"
  shows "d \<in> set (cursor_ring c)"
proof -
  define k where "k = length hist - kRecentCapacity"
  have ring: "cursor_ring c = drop k hist" and sorted: "sorted_wrt (<) (map de_seq hist)"
    using assms(1) unfolding cursor_holds_def k_def by auto
  have split: "hist = take k hist @ drop k hist" by simp
  have older: "de_seq x < de_seq y" if "x \<in> set (take k hist)" "y \<in> set (drop k hist)" for x y
  proof -
    have "sorted_wrt (<) (map de_seq (take k hist @ drop k hist))" using sorted by simp
    then show ?thesis using that by (simp only: map_append sorted_wrt_append) auto
  qed
  show ?thesis
  proof (rule ccontr)
    assume "\<not> ?thesis"
    then have old: "d \<in> set (take k hist)" using assms(2) ring split by (metis Un_iff set_append)
    then have "k \<noteq> 0" by (metis empty_iff list.set(1) take_0)
    then have "length (drop k hist) = kRecentCapacity" unfolding k_def by auto
    then have nonempty: "drop k hist \<noteq> []" and "de_seq (hd (cursor_ring c)) \<le> de_seq d"
      using assms(3) ring by (auto simp: kRecentCapacity_def)
    moreover have "de_seq d < de_seq (hd (drop k hist))" by (rule older [OF old]) (use nonempty in simp)
    ultimately show False using ring by simp
  qed
qed

lemma RecordDecision_holds:
  assumes "cursor_holds hist (Some c)" and "RecordDecision c d = Some c'"
  shows "cursor_holds (hist @ [d]) (Some c')" and "cu_domain c' = cu_domain c"
proof -
  have d: "IsRecordableOutcome (de_outcome d)" "de_seq d \<noteq> 0" "cu_decided_through_seq c < de_seq d"
    and c': "c' = c \<lparr>cu_recent := (let recent = cu_recent c @ [d] in if length recent > kRecentCapacity
                                     then drop (length recent - kRecentCapacity) recent else recent),
                      cu_decided_through_seq := de_seq d\<rparr>"
    using assms(2) unfolding RecordDecision_def by (auto simp: Let_def split: if_splits)
  show "cu_domain c' = cu_domain c" using c' by simp
  have below: "de_seq x < de_seq d" if "x \<in> set hist" for x
    using cursor_holds_le [OF assms(1) that] d(3) by (simp add: cursor_through_def)
  have ring: "cu_recent c = drop (length hist - kRecentCapacity) hist"
    using assms(1) unfolding cursor_holds_def cursor_ring_def by simp
  have full: "Suc (length hist - 32) = length hist - 31" if "31 < length hist - (length hist - 32)"
    using that by linarith
  have "cu_recent c' = drop (length (hist @ [d]) - kRecentCapacity) (hist @ [d])"
    unfolding c' ring by (auto simp: Let_def kRecentCapacity_def dest: full)
  then show "cursor_holds (hist @ [d]) (Some c')"
    using assms(1) below d c' unfolding cursor_holds_def
    by (auto simp: sorted_wrt_append cursor_through_def cursor_ring_def)
qed

lemma RecordDecision_accepts:
  "IsRecordableOutcome (de_outcome d) \<Longrightarrow> de_seq d \<noteq> 0 \<Longrightarrow> cu_decided_through_seq c < de_seq d \<Longrightarrow>
   \<exists>c'. RecordDecision c d = Some c'"
  unfolding RecordDecision_def by (auto simp: Let_def)

subsection \<open>Ledgers with several domains\<close>

lemma sift_in_split: "\<exists>as bs. xs = as @ bs \<and> sift_in c xs = as @ c # bs"
proof (induction xs)
  case (Cons x xs)
  then obtain as bs where "xs = as @ bs" "sift_in c xs = as @ c # bs" by blast
  then show ?case
    by (cases "cu_domain x > cu_domain c") (auto intro: exI [of _ "x # as"] exI [of _ "[]"])
qed simp

lemma find_append: "List.find P (xs @ ys) = (case List.find P xs of None \<Rightarrow> List.find P ys | Some x \<Rightarrow> Some x)"
  by (induction xs) auto

lemma FindCursor_MutableCursor:
  "FindCursor (MutableCursor l d) d' =
     (if d' = d \<and> FindCursor l d = None
      then Some \<lparr>cu_domain = d, cu_decided_through_seq = 0, cu_recent = []\<rparr> else FindCursor l d')"
proof (cases "FindCursor l d = None")
  case True
  define e where "e = \<lparr>cu_domain = d, cu_decided_through_seq = 0, cu_recent = []\<rparr>"
  obtain as bs where s: "rev l = as @ bs" "sift_in e (rev l) = as @ e # bs"
    using sift_in_split by blast
  then have l: "l = rev bs @ rev as" by (metis rev_append rev_rev_ident)
  have m: "MutableCursor l d = rev bs @ e # rev as"
    using True s unfolding MutableCursor_def e_def by simp
  have no: "\<forall>x \<in> set as \<union> set bs. cu_domain x \<noteq> d"
    using True l unfolding FindCursor_def by (auto simp: find_None_iff)
  have "List.find (\<lambda>c. cu_domain c = d) (rev bs) = None" using no by (auto simp: find_None_iff)
  then have "FindCursor (MutableCursor l d) d' =
      (if d' = d then Some e else FindCursor (rev bs @ rev as) d')"
    unfolding m FindCursor_def by (auto simp: find_append e_def split: option.splits)
  then show ?thesis using True unfolding l [symmetric] by (simp add: e_def)
qed (auto simp: MutableCursor_def)

lemma FindCursor_put:
  assumes "FindCursor l (cu_domain c') = Some c"
  shows "FindCursor (put_cursor l c') d = (if d = cu_domain c' then Some c' else FindCursor l d)"
  using assms unfolding put_cursor_def FindCursor_def
  by (induction l) (auto split: if_splits)

text \<open>Recording in the ledger extends the history of its domain and touches no other; it refuses
  exactly what lies at or below the watermark.\<close>

lemma record_in_holds:
  assumes "cursor_holds hist (FindCursor l d)" and "IsRecordableOutcome (de_outcome x)"
    and "de_seq x \<noteq> 0" and "cursor_through (FindCursor l d) < de_seq x"
  shows "\<exists>l'. record_in l d x = (l', True) \<and> cursor_holds (hist @ [x]) (FindCursor l' d) \<and>
    (\<forall>d'. d' \<noteq> d \<longrightarrow> FindCursor l' d' = FindCursor l d')"
proof -
  define m where "m = MutableCursor l d"
  obtain c where c: "FindCursor m d = Some c" and h: "cursor_holds hist (Some c)"
    and dom: "cu_domain c = d"
  proof (cases "FindCursor l d")
    case None
    then have "hist = []" using assms(1)
      by (auto simp: cursor_holds_def cursor_through_def split: if_splits)
    then show ?thesis
      by (intro that [of "\<lparr>cu_domain = d, cu_decided_through_seq = 0, cu_recent = []\<rparr>"])
        (use None in \<open>simp_all add: m_def FindCursor_MutableCursor cursor_holds_def cursor_through_def cursor_ring_def\<close>)
  next
    case (Some c)
    have "cu_domain c = d" using Some unfolding FindCursor_def by (auto dest: find_key_Some)
    then show ?thesis using Some that assms(1) by (auto simp: m_def FindCursor_MutableCursor)
  qed
  have "cu_decided_through_seq c < de_seq x"
    using assms(1,4) h by (simp add: cursor_holds_def cursor_through_def)
  then obtain c' where c': "RecordDecision c x = Some c'"
    using RecordDecision_accepts assms(2,3) by blast
  have dom': "cu_domain c' = d" using RecordDecision_holds(2) [OF h c'] dom by simp
  have "record_in l d x = (put_cursor m c', True)"
    unfolding record_in_def using c c' by (simp add: m_def Let_def)
  moreover have "FindCursor (put_cursor m c') e = (if e = d then Some c' else FindCursor m e)" for e
    using FindCursor_put [of m c' c e] c dom' by simp
  ultimately show ?thesis
    using RecordDecision_holds(1) [OF h c'] by (auto simp: m_def FindCursor_MutableCursor)
qed

section \<open>Both languages accept the same ledgers\<close>

lemma ring_ok_iff: "ledger_ring_ok t p ds \<longleftrightarrow> recent_valid t p ds \<and> (\<forall>d \<in> set ds. de_request_id d \<noteq> 0)"
  by (induction ds arbitrary: p) (auto simp: isRecordable_iff)

lemma cursors_ok_iff:
  "ledger_cursors_ok (set seen) l \<longleftrightarrow>
   cursors_valid seen l \<and> (\<forall>c \<in> set l. \<forall>d \<in> set (cu_recent c). de_request_id d \<noteq> 0)"
proof (induction l arbitrary: seen)
  case (Cons c l)
  have "ledger_cursors_ok (insert (cu_domain c) (set seen)) l \<longleftrightarrow>
      cursors_valid (seen @ [cu_domain c]) l \<and> (\<forall>c \<in> set l. \<forall>d \<in> set (cu_recent c). de_request_id d \<noteq> 0)"
    using Cons.IH [of "seen @ [cu_domain c]"] by simp
  then show ?case by (auto simp: ring_ok_iff ledgerRecentCapacity_def kRecentCapacity_def)
qed simp

lemma validLedger_iff:
  "validLedger l \<longleftrightarrow> ValidateLedger l \<and> (\<forall>c \<in> set l. \<forall>d \<in> set (cu_recent c). de_request_id d \<noteq> 0)"
  using cursors_ok_iff [of "[]" l] unfolding validLedger_def ValidateLedger_def by simp

section \<open>Forced voids are sound\<close>

lemma prove_scan_proven:
  "fp_verdict (prove_scan row ds s p) = FORCE_VOID_PROVEN \<longleftrightarrow>
   (\<forall>d \<in> set ds. de_request_id d \<noteq> it_request_id row) \<and> (s \<or> (\<exists>d \<in> set ds. de_seq d = it_seq row))"
  by (induction ds arbitrary: s p) (auto simp: Let_def)

text \<open>A granted proof names a decision for another request at this sequence number; as the sequence
  numbers of a history are distinct, the whole history has none for this row.\<close>

lemma proven_never_executed:
  assumes "fp_verdict (proveNeverExecuted row (Some l)) = FORCE_VOID_PROVEN"
    and "cursor_holds hist (findCursor l (it_domain row))"
  shows "\<exists>d \<in> set hist. de_seq d = it_seq row \<and> de_request_id d \<noteq> it_request_id row"
    and "\<forall>d \<in> set hist. de_seq d = it_seq row \<longrightarrow> de_request_id d \<noteq> it_request_id row"
    and "it_delivery_count row \<noteq> 0" and "validLedger l"
proof -
  have verdict: "it_delivery_count row \<noteq> 0 \<and> validLedger l \<and>
      (\<exists>c. findCursor l (it_domain row) = Some c \<and>
        (\<forall>d \<in> set (cu_recent c). de_request_id d \<noteq> it_request_id row) \<and>
        (\<exists>d \<in> set (cu_recent c). de_seq d = it_seq row))"
    using assms(1) unfolding proveNeverExecuted_def
    by (auto simp: fp_only_def Let_def prove_scan_proven split: if_splits option.splits)
  then show "it_delivery_count row \<noteq> 0" "validLedger l" by simp_all
  from verdict obtain d where d: "d \<in> set (cursor_ring (findCursor l (it_domain row)))"
    "de_seq d = it_seq row" "de_request_id d \<noteq> it_request_id row"
    by (auto simp: cursor_ring_def)
  then have h: "d \<in> set hist" using cursor_holds_ring_sub [OF assms(2)] by blast
  then show "\<exists>d \<in> set hist. de_seq d = it_seq row \<and> de_request_id d \<noteq> it_request_id row"
    using d by blast
  show "\<forall>d \<in> set hist. de_seq d = it_seq row \<longrightarrow> de_request_id d \<noteq> it_request_id row"
  proof (intro ballI impI)
    fix x assume "x \<in> set hist" and "de_seq x = it_seq row"
    then have "x = d" using cursor_holds_seq_inj [OF assms(2) _ h] d(2) by simp
    then show "de_request_id x \<noteq> it_request_id row" using d(3) by simp
  qed
qed

lemma decided_never_executed_again:
  assumes "cursor_holds hist c" and "d \<in> set hist" and "de_seq d = seq" and "de_request_id d \<noteq> req"
  shows "fst (ClassifyDelivery c seq req t) \<in> {kMismatch, kUnknown}"
proof (cases c)
  case None
  then show ?thesis using assms(1,2) by (auto simp: cursor_holds_def cursor_through_def split: if_splits)
next
  case (Some c0)
  have "seq \<le> cu_decided_through_seq c0"
    using cursor_holds_le [OF assms(1,2)] Some assms(3) by (simp add: cursor_through_def)
  moreover have "de_request_id r \<noteq> req" if "FindRecent c0 seq = Some r" for r
  proof -
    have "d = r"
      by (rule ring_find_unique(3) [OF assms(1) _ assms(2,3)])
        (use that Some in \<open>simp add: FindRecent_def cursor_ring_def\<close>)
    then show ?thesis using assms(4) by simp
  qed
  ultimately show ?thesis
    using Some unfolding ClassifyDelivery_def by (auto split: option.splits)
qed

section \<open>Reconciliation is exact on the covered range\<close>

definition matches_ref :: "FinalizedRef \<Rightarrow> PlayerInboxDecision \<Rightarrow> bool" where
  "matches_ref f d \<longleftrightarrow> de_seq d = fr_seq f \<and> de_request_id d = fr_request_id f \<and> de_msg_type d = fr_msg_type f \<and>
     sameOutcome (fr_state f) (fr_outcome_reason f) (de_outcome d) (de_reason d)"

definition evicted :: "FinalizedRef \<Rightarrow> PlayerInboxDomainCursor option \<Rightarrow> bool" where
  "evicted f c \<longleftrightarrow> kRecentCapacity \<le> length (cursor_ring c) \<and> fr_seq f < de_seq (hd (cursor_ring c))"

lemma finalizedLedgerGap_exact:
  assumes "cursor_holds hist c" and "fr_finalized_by f = FINALIZER_CONSUMER"
    and "IsTerminalState (fr_state f)" and "fr_state f \<noteq> ITEM_SETTLED_UNKNOWN" and "\<not> evicted f c"
  shows "finalizedLedgerGap f c = gapNone \<longleftrightarrow> (\<exists>d \<in> set hist. matches_ref f d)"
proof
  let ?find = "List.find (\<lambda>d. de_seq d = fr_seq f) (cursor_ring c)"
  have ev: "\<not> (ledgerRecentCapacity \<le> length (cursor_ring c) \<and> fr_seq f < de_seq (hd (cursor_ring c)))"
    using assms(5) by (simp add: evicted_def ledgerRecentCapacity_def kRecentCapacity_def)
  {
    assume gap: "finalizedLedgerGap f c = gapNone"
    then obtain d where "?find = Some d" and "matches_ref f d"
      using ev assms(2-4) unfolding finalizedLedgerGap_def matches_ref_def
      by (auto simp: Let_def dest: find_key_Some split: if_splits option.splits)
    then show "\<exists>d \<in> set hist. matches_ref f d"
      using ring_find_unique(1) [OF assms(1)] by blast
  }
  assume "\<exists>d \<in> set hist. matches_ref f d"
  then obtain d where d: "d \<in> set hist" "matches_ref f d" by blast
  have seq: "de_seq d = fr_seq f" using d(2) by (simp add: matches_ref_def)
  have le: "fr_seq f \<le> cursor_through c" using cursor_holds_le [OF assms(1) d(1)] seq by simp
  have "d \<in> set (cursor_ring c)"
    by (rule cursor_holds_recent [OF assms(1) d(1)])
      (use ev seq in \<open>auto simp: ledgerRecentCapacity_def kRecentCapacity_def not_le not_less\<close>)
  then obtain e where e: "?find = Some e"
    using seq by (cases ?find) (auto simp: find_None_iff)
  then have "e = d" using ring_find_unique(3) [OF assms(1) e d(1) seq] by simp
  then show "finalizedLedgerGap f c = gapNone"
    using e d(2) le ev unfolding finalizedLedgerGap_def matches_ref_def by (auto simp: Let_def)
qed

section \<open>The consumer applies every item once\<close>

definition is_applied :: "PlayerInboxDecision \<Rightarrow> bool" where
  "is_applied d \<longleftrightarrow> de_outcome d = OUTCOME_APPLIED"

text \<open>What a stretch of processing adds: decisions to the history of the domain, effects for exactly
  the applied ones, and reports that repeat the history or say UNKNOWN.\<close>

definition consumed ::
  "u32 \<Rightarrow> PlayerInboxDecision list \<Rightarrow> apply_state \<Rightarrow> PlayerInboxDecision list \<Rightarrow> apply_state \<Rightarrow> bool" where
  "consumed d hist st news st' \<longleftrightarrow>
     cursor_holds (hist @ news) (FindCursor (ap_ledger st') d) \<and>
     (\<forall>d'. d' \<noteq> d \<longrightarrow> FindCursor (ap_ledger st') d' = FindCursor (ap_ledger st) d') \<and>
     (\<exists>effs. ap_effects st' = ap_effects st @ effs \<and> map pi_seq effs = map de_seq (filter is_applied news)) \<and>
     (\<forall>a \<in> set (ap_ackQueue st'). a \<in> set (ap_ackQueue st) \<or> a \<in> set (hist @ news) \<or> de_outcome a = OUTCOME_UNKNOWN)"

lemma consumed_refl: "cursor_holds hist (FindCursor (ap_ledger st) d) \<Longrightarrow> consumed d hist st [] st"
  unfolding consumed_def by auto

lemma consumed_trans:
  assumes "consumed d hist st a st1" and "consumed d (hist @ a) st1 b st2"
  shows "consumed d hist st (a @ b) st2"
proof -
  obtain e1 where e1: "ap_effects st1 = ap_effects st @ e1" "map pi_seq e1 = map de_seq (filter is_applied a)"
    using assms(1) unfolding consumed_def by blast
  obtain e2 where e2: "ap_effects st2 = ap_effects st1 @ e2" "map pi_seq e2 = map de_seq (filter is_applied b)"
    using assms(2) unfolding consumed_def by blast
  have "ap_effects st2 = ap_effects st @ (e1 @ e2)"
    "map pi_seq (e1 @ e2) = map de_seq (filter is_applied (a @ b))"
    using e1 e2 by simp_all
  moreover have "\<forall>x \<in> set (ap_ackQueue st2).
      x \<in> set (ap_ackQueue st) \<or> x \<in> set (hist @ (a @ b)) \<or> de_outcome x = OUTCOME_UNKNOWN"
    using assms unfolding consumed_def by fastforce
  ultimately show ?thesis using assms unfolding consumed_def by auto
qed

lemma consumed_ack:
  "cursor_holds hist (FindCursor (ap_ledger st) d) \<Longrightarrow> set q \<subseteq> set (ap_ackQueue st) \<union> {x} \<Longrightarrow>
   x \<in> set hist \<or> de_outcome x = OUTCOME_UNKNOWN \<Longrightarrow> consumed d hist st [] (st \<lparr>ap_ackQueue := q\<rparr>)"
  unfolding consumed_def by auto

lemma consumed_record:
  assumes "cursor_holds hist (FindCursor (ap_ledger st) d)" and "IsRecordableOutcome (de_outcome x)"
    and "de_seq x \<noteq> 0" and "cursor_through (FindCursor (ap_ledger st) d) < de_seq x"
    and "map pi_seq effs = map de_seq (filter is_applied [x])"
  shows "\<exists>st'. record_new d x (st \<lparr>ap_effects := ap_effects st @ effs\<rparr>) = (st', True) \<and> consumed d hist st [x] st'"
proof -
  obtain l' where "record_in (ap_ledger st) d x = (l', True)" "cursor_holds (hist @ [x]) (FindCursor l' d)"
    "\<forall>d'. d' \<noteq> d \<longrightarrow> FindCursor l' d' = FindCursor (ap_ledger st) d'"
    using record_in_holds [OF assms(1-4)] by blast
  then show ?thesis using assms(5) unfolding record_new_def consumed_def by auto
qed

lemma ClassifyDelivery_new_above:
  "ClassifyDelivery c s q t = (kNew, r) \<Longrightarrow> s \<noteq> 0 \<Longrightarrow> cursor_through c < s"
  unfolding ClassifyDelivery_def cursor_through_def
  by (auto simp: word_neq_0_conv split: option.splits if_splits)

lemma ClassifyDelivery_replay_recorded:
  assumes "cursor_holds hist c" and "ClassifyDelivery c s q t = (kReplay, r)"
  shows "\<exists>x \<in> set hist. r = Some x \<and> de_seq x = s \<and> de_request_id x = q \<and> de_msg_type x = t"
proof (cases c)
  case (Some c0)
  note c = this
  show ?thesis
  proof (cases "FindRecent c0 s")
    case None
    then show ?thesis using assms(2) c by (simp add: ClassifyDelivery_def split: if_splits)
  next
    case (Some x)
    then have x: "r = Some x" "de_request_id x = q" "de_msg_type x = t"
      using assms(2) c by (simp_all add: ClassifyDelivery_def split: if_splits)
    have "List.find (\<lambda>d. de_seq d = s) (cursor_ring c) = Some x"
      using Some c by (simp add: FindRecent_def cursor_ring_def)
    then show ?thesis using x ring_find_unique(1,2) [OF assms(1)] by blast
  qed
qed (use assms in \<open>simp add: ClassifyDelivery_def\<close>)

lemma record_or_halt_consumed:
  assumes "cursor_holds hist (FindCursor (ap_ledger st) d)" and "IsRecordableOutcome out"
    and "pi_seq item \<noteq> 0" and "cursor_through (FindCursor (ap_ledger st) d) < pi_seq item"
    and "map pi_seq effs = (if out = OUTCOME_APPLIED then [pi_seq item] else [])"
    and "record_or_halt d (decision_for item out r) (st \<lparr>ap_effects := ap_effects st @ effs\<rparr>) = (st', e)"
  shows "e = None \<and> consumed d hist st [decision_for item out r] st'"
proof -
  define x where "x = decision_for item out r"
  have "IsRecordableOutcome (de_outcome x)" "de_seq x \<noteq> 0" "cursor_through (FindCursor (ap_ledger st) d) < de_seq x"
    "map pi_seq effs = map de_seq (filter is_applied [x])"
    using assms(2-5) by (simp_all add: x_def decision_for_def is_applied_def)
  then obtain st1 where "record_new d x (st \<lparr>ap_effects := ap_effects st @ effs\<rparr>) = (st1, True)"
    and "consumed d hist st [x] st1"
    using consumed_record [OF assms(1), of x effs] by blast
  then show ?thesis using assms(6) unfolding record_or_halt_def x_def by auto
qed

lemma apply_item_consumed:
  assumes "cursor_holds hist (FindCursor (ap_ledger st) d)" and "pi_seq item \<noteq> 0"
    and "apply_item d exec item st = (st', e)"
  shows "\<exists>news. consumed d hist st news st' \<and> e \<noteq> Some (Halted HaltLedgerWrite)"
proof -
  obtain cls rep where cls: "ClassifyDelivery (FindCursor (ap_ledger st) d) (pi_seq item)
      (pi_request_id item) (pi_msg_type item) = (cls, rep)" by fastforce
  note refl = consumed_refl [OF assms(1)] and ack = consumed_ack [OF assms(1)]
  have rec: "\<exists>news. consumed d hist st news st' \<and> e \<noteq> Some (Halted HaltLedgerWrite)"
    if "cls = kNew" "IsRecordableOutcome out" "map pi_seq effs = (if out = OUTCOME_APPLIED then [pi_seq item] else [])"
      "record_or_halt d (decision_for item out r) (st \<lparr>ap_effects := ap_effects st @ effs\<rparr>) = (st', e)" for out r effs
  proof -
    have "cursor_through (FindCursor (ap_ledger st) d) < pi_seq item"
      using ClassifyDelivery_new_above cls that(1) assms(2) by blast
    then show ?thesis using record_or_halt_consumed [OF assms(1) that(2) assms(2) _ that(3,4)] by auto
  qed
  have keep: "st \<lparr>ap_effects := ap_effects st @ []\<rparr> = st" by simp
  show ?thesis
  proof (cases "battle_refused d item (PlanItem cls (pi_directive item)) rep")
    case True
    then show ?thesis using assms(3) cls refl by (auto simp: apply_item_def)
  next
    case False
    show ?thesis
    proof (cases cls)
      case kReplay
      then obtain x where "x \<in> set hist" "rep = Some x"
        using ClassifyDelivery_replay_recorded [OF assms(1)] cls by blast
      then show ?thesis
        using assms(3) cls False kReplay ack [of "ap_ackQueue st @ [x]" x]
        by (auto simp: apply_item_def PlanItem_def)
    next
      case kUnknown
      then show ?thesis
        using assms(3) cls False ack [of "ap_ackQueue st @ [UnknownDecisionFor item]" "UnknownDecisionFor item"]
        by (auto simp: apply_item_def PlanItem_def UnknownDecisionFor_def)
    next
      case kMismatch
      then show ?thesis
        using assms(3) cls False ack [of "[]" "UnknownDecisionFor item"]
        by (auto simp: apply_item_def PlanItem_def UnknownDecisionFor_def)
    next
      case kNew
      consider "pi_directive item = DIRECTIVE_VOID" | "pi_directive item = DIRECTIVE_NONE"
        | "pi_directive item \<noteq> DIRECTIVE_VOID" "pi_directive item \<noteq> DIRECTIVE_NONE" by blast
      then show ?thesis
      proof cases
        case 1
        then have "record_or_halt d (decision_for item OUTCOME_SKIPPED (void_reason_num (pi_void_reason item))) st = (st', e)"
          using assms(3) cls False kNew by (simp add: apply_item_def PlanItem_def)
        then show ?thesis
          by (intro rec [OF kNew, of OUTCOME_SKIPPED "[]"]) (simp_all add: IsRecordableOutcome_def)
      next
        case 2
        then have ex: "execute_item d exec item st = (st', e)"
          using assms(3) cls False kNew by (simp add: apply_item_def PlanItem_def)
        show ?thesis
        proof (cases "exec item")
          case None then show ?thesis using ex refl by (auto simp: execute_item_def)
        next
          case (Some r)
          show ?thesis
          proof (cases r)
            case kApplied
            then show ?thesis using ex Some
              by (intro rec [OF kNew, of OUTCOME_APPLIED "[item]"]) (simp_all add: IsRecordableOutcome_def execute_item_def)
          next
            case (kRejected why)
            then show ?thesis using ex Some
              by (intro rec [OF kNew, of OUTCOME_REJECTED "[]"]) (simp_all add: IsRecordableOutcome_def execute_item_def)
          qed (use ex Some refl in \<open>auto simp: execute_item_def\<close>)
        qed
      next
        case 3
        then show ?thesis using assms(3) cls False kNew refl by (auto simp: apply_item_def PlanItem_def)
      qed
    qed
  qed
qed

lemma ApplyPending_consumed:
  assumes "cursor_holds hist (FindCursor (ap_ledger st) d)" and "\<forall>i \<in> set items. pi_seq i \<noteq> 0"
    and "ApplyPending d exec items st = (st', e, rest)"
  shows "\<exists>news. consumed d hist st news st' \<and> e \<noteq> Halted HaltLedgerWrite"
  using assms
proof (induction items arbitrary: st hist)
  case Nil
  then show ?case by (auto intro: consumed_refl)
next
  case (Cons item items)
  obtain st1 e1 where one: "apply_item d exec item st = (st1, e1)" by fastforce
  obtain news where c1: "consumed d hist st news st1" and e1: "e1 \<noteq> Some (Halted HaltLedgerWrite)"
    using apply_item_consumed [OF Cons.prems(1) _ one] Cons.prems(2) by auto
  show ?case
  proof (cases e1)
    case None
    then have "ApplyPending d exec items st1 = (st', e, rest)" using Cons.prems(3) one by simp
    moreover have "cursor_holds (hist @ news) (FindCursor (ap_ledger st1) d)" using c1 by (simp add: consumed_def)
    ultimately obtain more where "consumed d (hist @ news) st1 more st'" "e \<noteq> Halted HaltLedgerWrite"
      using Cons.IH [of "hist @ news" st1] Cons.prems(2) by auto
    then show ?thesis using consumed_trans [OF c1] by blast
  next
    case (Some x)
    then show ?thesis using Cons.prems(3) one c1 e1 by auto
  qed
qed

text \<open>A run of the consumer: batch after batch of one domain, each with its own executors and a
  fresh report queue.\<close>

fun run_batches ::
  "u32 \<Rightarrow> (executors \<times> PlayerInboxItem list) list \<Rightarrow> apply_state \<Rightarrow> PlayerInboxDecision list list \<times> apply_state" where
  "run_batches d [] st = ([], st)"
| "run_batches d ((exec, items) # bs) st =
     (case ApplyPending d exec items (st \<lparr>ap_ackQueue := [], ap_recorded := False\<rparr>) of (st', e, rest) \<Rightarrow>
        (case run_batches d bs st' of (acks, st'') \<Rightarrow> (ap_ackQueue st' # acks, st'')))"

lemma run_batches_history:
  assumes "cursor_holds hist (FindCursor (ap_ledger st) d)"
    and "\<forall>b \<in> set bs. \<forall>i \<in> set (snd b). pi_seq i \<noteq> 0" and "run_batches d bs st = (acks, st')"
  shows "\<exists>news effs. cursor_holds (hist @ news) (FindCursor (ap_ledger st') d) \<and>
    ap_effects st' = ap_effects st @ effs \<and> map pi_seq effs = map de_seq (filter is_applied news) \<and>
    (\<forall>a \<in> set (concat acks). a \<in> set (hist @ news) \<or> de_outcome a = OUTCOME_UNKNOWN)"
  using assms
proof (induction bs arbitrary: hist st acks)
  case (Cons b bs)
  obtain exec items where b: "b = (exec, items)" by fastforce
  define st0 where "st0 = st \<lparr>ap_ackQueue := [], ap_recorded := False\<rparr>"
  obtain st1 e rest where one: "ApplyPending d exec items st0 = (st1, e, rest)" by (metis prod_cases3)
  obtain acks' where tail: "run_batches d bs st1 = (acks', st')" and acks: "acks = ap_ackQueue st1 # acks'"
    using Cons.prems(3) one b by (auto simp: st0_def split: prod.splits)
  obtain n1 where c1: "consumed d hist st0 n1 st1"
    using ApplyPending_consumed [OF _ _ one, of hist] Cons.prems(1,2) b by (auto simp: st0_def)
  have h1: "cursor_holds (hist @ n1) (FindCursor (ap_ledger st1) d)" using c1 by (simp add: consumed_def)
  obtain e1 where e1: "ap_effects st1 = ap_effects st @ e1" "map pi_seq e1 = map de_seq (filter is_applied n1)"
    using c1 by (auto simp: consumed_def st0_def)
  have a1: "\<forall>a \<in> set (ap_ackQueue st1). a \<in> set (hist @ n1) \<or> de_outcome a = OUTCOME_UNKNOWN"
    using c1 by (auto simp: consumed_def st0_def)
  obtain n2 e2 where "cursor_holds ((hist @ n1) @ n2) (FindCursor (ap_ledger st') d)"
    "ap_effects st' = ap_effects st1 @ e2" "map pi_seq e2 = map de_seq (filter is_applied n2)"
    "\<forall>a \<in> set (concat acks'). a \<in> set ((hist @ n1) @ n2) \<or> de_outcome a = OUTCOME_UNKNOWN"
    using Cons.IH [OF h1 _ tail] Cons.prems(2) by auto
  then show ?case using e1 a1 acks
    by (intro exI [of _ "n1 @ n2"] exI [of _ "e1 @ e2"]) auto
qed (auto intro: exI [of _ "[]"])

end
