(* ===== verification/InboxRegistry.thy ===== *)
theory InboxRegistry
  imports InboxLedger "HOL-Library.AList"
begin

text \<open>
  The type registry of the inbox (\<open>registry.go\<close>): text checks, the payload rules, the self-check that
  builds the registry at start-up and the validation of a payload.  The enumeration options are those
  of \<open>player_inbox.proto\<close>.  Decoding protobuf bytes is a parameter: a function from a message name and
  bytes to the decoded message and its unknown top-level fields, or nothing when the bytes do not parse.
\<close>

section \<open>Text\<close>

definition in_range :: "byte \<Rightarrow> byte \<Rightarrow> byte \<Rightarrow> bool" where
  "in_range lo hi b \<longleftrightarrow> lo \<le> b \<and> b \<le> hi"

definition continuation :: "byte \<Rightarrow> bool" where "continuation = in_range 0x80 0xBF"

text \<open>\<open>utf8.ValidString\<close>: shortest encodings only, no surrogates, nothing above U+10FFFF.\<close>

fun utf8_valid :: "bytes \<Rightarrow> bool" where
  "utf8_valid [] = True"
| "utf8_valid (a # s) =
     (if a < 0x80 then utf8_valid s
      else case s of [] \<Rightarrow> False
      | b # s2 \<Rightarrow>
        if in_range 0xC2 0xDF a then continuation b \<and> utf8_valid s2
        else case s2 of [] \<Rightarrow> False
        | c # s3 \<Rightarrow>
          if in_range 0xE0 0xEF a then
            (if a = 0xE0 then in_range 0xA0 0xBF b
             else if a = 0xED then in_range 0x80 0x9F b else continuation b) \<and>
            continuation c \<and> utf8_valid s3
          else case s3 of [] \<Rightarrow> False
          | d # s4 \<Rightarrow>
            in_range 0xF0 0xF4 a \<and>
            (if a = 0xF0 then in_range 0x90 0xBF b
             else if a = 0xF4 then in_range 0x80 0x8F b else continuation b) \<and>
            continuation c \<and> continuation d \<and> utf8_valid s4)"

definition ValidateText :: "bytes \<Rightarrow> nat \<Rightarrow> bool \<Rightarrow> tip option" where
  "ValidateText s maxBytes required =
     (if s = [] then (if required then Some ErrInvalidParameter else None)
      else if length s > maxBytes \<or> \<not> utf8_valid s then Some ErrTextTooLong
      else None)"

definition MaxOperatorBytes :: nat where "MaxOperatorBytes = 64"
definition MaxReasonBytes :: nat where "MaxReasonBytes = 256"
definition MaxPayloadBytesHardCap :: u32 where "MaxPayloadBytesHardCap = 16 * 1024"

lemma ValidateText_ok:
  "ValidateText s n req = None \<longleftrightarrow> (s = [] \<and> \<not> req) \<or> (s \<noteq> [] \<and> length s \<le> n \<and> utf8_valid s)"
  unfolding ValidateText_def by (auto simp: not_less)

section \<open>Payloads\<close>

text \<open>A protobuf message as reflection shows it: its unknown bytes and its populated fields.\<close>

datatype pb_msg = PbMsg bytes "pb_field list"
  and pb_field = PbMap "pb_msg list" | PbList "pb_msg list" | PbSingle pb_msg | PbScalar

fun battlePayloadHasUnknown :: "pb_msg \<Rightarrow> bool"
  and field_has_unknown :: "pb_field \<Rightarrow> bool" where
  "battlePayloadHasUnknown (PbMsg unknown fs) =
     (if unknown \<noteq> [] then True else list_ex field_has_unknown fs)"
| "field_has_unknown (PbMap ms) = list_ex battlePayloadHasUnknown ms"
| "field_has_unknown (PbList ms) = list_ex battlePayloadHasUnknown ms"
| "field_has_unknown (PbSingle m) = battlePayloadHasUnknown m"
| "field_has_unknown PbScalar = False"

record BattleSettlementData =
  bs_player_id :: u64
  bs_battle_id :: u64
  bs_outcome :: int
  bs_reflect :: pb_msg

record GmCurrencyDebtPayload =
  dp_currency_type :: u32
  dp_owe_amount :: u64
  dp_reason :: bytes
  dp_gm_operator :: bytes
  dp_expires_at :: u64

datatype payload_msg = BattlePayload BattleSettlementData | GainPayload u32 | DebtPayload GmCurrencyDebtPayload

type_synonym decoder = "string \<Rightarrow> bytes \<Rightarrow> (payload_msg \<times> bytes) option"

definition IsKnown :: "u32 \<Rightarrow> bool" where
  "IsKnown v = (if v > 0x7FFFFFFF then False else v \<in> {0, 1, 2})"

definition validateBattlePayload :: "payload_msg \<Rightarrow> bool" where
  "validateBattlePayload m =
     (case m of BattlePayload p \<Rightarrow>
        \<not> (bs_player_id p = 0 \<or> bs_battle_id p = 0 \<or> bs_outcome p < 1 \<or> bs_outcome p > 3 \<or>
           battlePayloadHasUnknown (bs_reflect p))
      | _ \<Rightarrow> False)"

definition validateGainPayload :: "payload_msg \<Rightarrow> bool" where
  "validateGainPayload m = (case m of GainPayload c \<Rightarrow> IsKnown c | _ \<Rightarrow> False)"

definition maxDebtExpiresAtSeconds :: u64 where "maxDebtExpiresAtSeconds = 253402300799"

definition validateDebtPayload :: "payload_msg \<Rightarrow> bool" where
  "validateDebtPayload m =
     (case m of DebtPayload p \<Rightarrow>
        if \<not> IsKnown (dp_currency_type p) then False
        else if dp_owe_amount p = 0 \<or> dp_owe_amount p > 0x7FFFFFFFFFFFFFFF then False
        else if ValidateText (dp_reason p) MaxReasonBytes False \<noteq> None then False
        else if ValidateText (dp_gm_operator p) MaxOperatorBytes True \<noteq> None then False
        else \<not> dp_expires_at p > maxDebtExpiresAtSeconds
      | _ \<Rightarrow> False)"

section \<open>Building the registry\<close>

datatype PlayerInboxClass = CLASS_UNSPECIFIED | CLASS_DURABLE | CLASS_OTHER u32

record PlayerInboxDomainSpec =
  ds_max_pending :: u32
  ds_requires_out_of_battle :: bool

record PlayerInboxTypeSpec =
  ty_domain :: u32
  ty_klass :: PlayerInboxClass
  ty_payload_message :: string
  ty_max_payload_bytes :: u32

record payloadRule =
  pr_message :: string
  pr_validate :: "(payload_msg \<Rightarrow> bool) option"

record TypeEntry =
  te_type :: u32
  te_spec :: PlayerInboxTypeSpec
  te_payload :: string
  te_validate :: "payload_msg \<Rightarrow> bool"

record Registry =
  rg_domains :: "(u32 \<times> PlayerInboxDomainSpec) list"
  rg_types :: "(u32 \<times> TypeEntry) list"

datatype registry_error = NoDomainSpec u32 | MaxPendingZero u32 | NoTypeSpec u32 | NoOwningDomain u32
  | DomainNotRegistered u32 | NotDurable u32 | PayloadCapOutOfRange u32 | MessageUnresolved u32
  | NoValidator u32 | ValidatorMismatch u32 | RuleWithoutType u32 | NoTypes

fun register_domains ::
  "(u32 \<times> PlayerInboxDomainSpec option) list \<Rightarrow> (u32 \<times> PlayerInboxDomainSpec) list \<Rightarrow>
   registry_error + (u32 \<times> PlayerInboxDomainSpec) list" where
  "register_domains [] ds = Inr ds"
| "register_domains ((n, spec) # vs) ds =
     (if n = 0 then register_domains vs ds
      else case spec of None \<Rightarrow> Inl (NoDomainSpec n)
        | Some sp \<Rightarrow> if ds_max_pending sp = 0 then Inl (MaxPendingZero n)
                    else register_domains vs (AList.update n sp ds))"

definition type_entry ::
  "(u32 \<times> PlayerInboxDomainSpec) list \<Rightarrow> (u32 \<times> payloadRule) list \<Rightarrow> (string \<Rightarrow> bool) \<Rightarrow>
   u32 \<Rightarrow> PlayerInboxTypeSpec option \<Rightarrow> registry_error + TypeEntry" where
  "type_entry ds rules resolves t spec =
     (case spec of None \<Rightarrow> Inl (NoTypeSpec t)
      | Some sp \<Rightarrow>
        if ty_domain sp = 0 then Inl (NoOwningDomain t)
        else if map_of ds (ty_domain sp) = None then Inl (DomainNotRegistered t)
        else if ty_klass sp \<noteq> CLASS_DURABLE then Inl (NotDurable t)
        else if ty_max_payload_bytes sp = 0 \<or> ty_max_payload_bytes sp > MaxPayloadBytesHardCap
        then Inl (PayloadCapOutOfRange t)
        else if \<not> resolves (ty_payload_message sp) then Inl (MessageUnresolved t)
        else case map_of rules t of None \<Rightarrow> Inl (NoValidator t)
          | Some rule \<Rightarrow>
            (case pr_validate rule of None \<Rightarrow> Inl (NoValidator t)
             | Some v \<Rightarrow>
               if pr_message rule \<noteq> ty_payload_message sp then Inl (ValidatorMismatch t)
               else Inr \<lparr>te_type = t, te_spec = sp, te_payload = ty_payload_message sp, te_validate = v\<rparr>))"

fun register_types ::
  "(u32 \<times> PlayerInboxDomainSpec) list \<Rightarrow> (u32 \<times> payloadRule) list \<Rightarrow> (string \<Rightarrow> bool) \<Rightarrow>
   (u32 \<times> PlayerInboxTypeSpec option) list \<Rightarrow> (u32 \<times> TypeEntry) list \<Rightarrow>
   registry_error + (u32 \<times> TypeEntry) list" where
  "register_types ds rules resolves [] ts = Inr ts"
| "register_types ds rules resolves ((n, spec) # vs) ts =
     (if n = 0 then register_types ds rules resolves vs ts
      else case type_entry ds rules resolves n spec of Inl e \<Rightarrow> Inl e
        | Inr entry \<Rightarrow> register_types ds rules resolves vs (AList.update n entry ts))"

text \<open>\<open>resolves\<close> says which message names the global type table knows.\<close>

definition newRegistry ::
  "(u32 \<times> PlayerInboxDomainSpec option) list \<Rightarrow> (u32 \<times> PlayerInboxTypeSpec option) list \<Rightarrow>
   (u32 \<times> payloadRule) list \<Rightarrow> (string \<Rightarrow> bool) \<Rightarrow> registry_error + Registry" where
  "newRegistry domainEnum typeEnum rules resolves =
     (case register_domains domainEnum [] of Inl e \<Rightarrow> Inl e
      | Inr ds \<Rightarrow>
        (case register_types ds rules resolves typeEnum [] of Inl e \<Rightarrow> Inl e
         | Inr ts \<Rightarrow>
           (case List.find (\<lambda>t. map_of ts t = None) (map fst rules) of Some t \<Rightarrow> Inl (RuleWithoutType t)
            | None \<Rightarrow> if ts = [] then Inl NoTypes else Inr \<lparr>rg_domains = ds, rg_types = ts\<rparr>)))"

definition payloadRules :: "(u32 \<times> payloadRule) list" where
  "payloadRules =
     [(MSG_BATTLE_SETTLEMENT, \<lparr>pr_message = ''BattleSettlementData'', pr_validate = Some validateBattlePayload\<rparr>),
      (MSG_GM_BLOCK_CURRENCY_GAIN, \<lparr>pr_message = ''player_inbox.GmCurrencyGainPayload'', pr_validate = Some validateGainPayload\<rparr>),
      (MSG_GM_UNBLOCK_CURRENCY_GAIN, \<lparr>pr_message = ''player_inbox.GmCurrencyGainPayload'', pr_validate = Some validateGainPayload\<rparr>),
      (MSG_GM_ATTACH_CURRENCY_DEBT, \<lparr>pr_message = ''player_inbox.GmCurrencyDebtPayload'', pr_validate = Some validateDebtPayload\<rparr>)]"

definition PlayerInboxDomain_values :: "(u32 \<times> PlayerInboxDomainSpec option) list" where
  "PlayerInboxDomain_values =
     [(0, None),
      (DOMAIN_SCENE_GM_SANCTION, Some \<lparr>ds_max_pending = 64, ds_requires_out_of_battle = True\<rparr>),
      (DOMAIN_SCENE_BATTLE_SETTLEMENT, Some \<lparr>ds_max_pending = 1, ds_requires_out_of_battle = False\<rparr>)]"

definition PlayerInboxMessageType_values :: "(u32 \<times> PlayerInboxTypeSpec option) list" where
  "PlayerInboxMessageType_values =
     [(0, None),
      (MSG_GM_BLOCK_CURRENCY_GAIN, Some \<lparr>ty_domain = DOMAIN_SCENE_GM_SANCTION, ty_klass = CLASS_DURABLE,
         ty_payload_message = ''player_inbox.GmCurrencyGainPayload'', ty_max_payload_bytes = 64\<rparr>),
      (MSG_GM_UNBLOCK_CURRENCY_GAIN, Some \<lparr>ty_domain = DOMAIN_SCENE_GM_SANCTION, ty_klass = CLASS_DURABLE,
         ty_payload_message = ''player_inbox.GmCurrencyGainPayload'', ty_max_payload_bytes = 64\<rparr>),
      (MSG_GM_ATTACH_CURRENCY_DEBT, Some \<lparr>ty_domain = DOMAIN_SCENE_GM_SANCTION, ty_klass = CLASS_DURABLE,
         ty_payload_message = ''player_inbox.GmCurrencyDebtPayload'', ty_max_payload_bytes = 1024\<rparr>),
      (MSG_BATTLE_SETTLEMENT, Some \<lparr>ty_domain = DOMAIN_SCENE_BATTLE_SETTLEMENT, ty_klass = CLASS_DURABLE,
         ty_payload_message = ''BattleSettlementData'', ty_max_payload_bytes = 16384\<rparr>)]"

definition NewRegistry :: "(string \<Rightarrow> bool) \<Rightarrow> registry_error + Registry" where
  "NewRegistry resolves = newRegistry PlayerInboxDomain_values PlayerInboxMessageType_values payloadRules resolves"

section \<open>Using the registry\<close>

definition Registry_Type :: "Registry \<Rightarrow> u32 \<Rightarrow> TypeEntry option" where
  "Registry_Type r t = map_of (rg_types r) t"

definition Registry_Domain :: "Registry \<Rightarrow> u32 \<Rightarrow> PlayerInboxDomainSpec option" where
  "Registry_Domain r d = map_of (rg_domains r) d"

definition Registry_Domains :: "Registry \<Rightarrow> u32 list" where
  "Registry_Domains r = sort (map fst (rg_domains r))"

definition CheckAllowlist :: "Registry \<Rightarrow> u32 list \<Rightarrow> bool" where
  "CheckAllowlist r allowed = list_all (\<lambda>t. map_of (rg_types r) t \<noteq> None) allowed"

definition Decode :: "decoder \<Rightarrow> TypeEntry \<Rightarrow> bytes \<Rightarrow> payload_msg option" where
  "Decode dec e payload =
     (case dec (te_payload e) payload of None \<Rightarrow> None
      | Some (msg, unknown) \<Rightarrow> if unknown \<noteq> [] then None else Some msg)"

definition ValidatePayload :: "decoder \<Rightarrow> Registry \<Rightarrow> u32 \<Rightarrow> u32 list \<Rightarrow> bytes \<Rightarrow> tip + TypeEntry" where
  "ValidatePayload dec r t allowed payload =
     (case map_of (rg_types r) t of None \<Rightarrow> Inl ErrUnknownType
      | Some entry \<Rightarrow>
        if ty_klass (te_spec entry) \<noteq> CLASS_DURABLE then Inl ErrUnknownType
        else if t \<notin> set allowed then Inl ErrDisabled
        else if length payload > unat (ty_max_payload_bytes (te_spec entry)) then Inl ErrPayloadTooLarge
        else case Decode dec entry payload of None \<Rightarrow> Inl ErrPayloadInvalid
          | Some msg \<Rightarrow> if \<not> te_validate entry msg then Inl ErrPayloadInvalid else Inr entry)"

section \<open>What the self-check guarantees\<close>

definition entry_ok :: "(u32 \<times> PlayerInboxDomainSpec) list \<Rightarrow> (u32 \<times> payloadRule) list \<Rightarrow> u32 \<Rightarrow> TypeEntry \<Rightarrow> bool" where
  "entry_ok ds rules t e \<longleftrightarrow>
     te_type e = t \<and> ty_klass (te_spec e) = CLASS_DURABLE \<and> ty_domain (te_spec e) \<noteq> 0 \<and>
     map_of ds (ty_domain (te_spec e)) \<noteq> None \<and>
     0 < ty_max_payload_bytes (te_spec e) \<and> ty_max_payload_bytes (te_spec e) \<le> MaxPayloadBytesHardCap \<and>
     (\<exists>rule. map_of rules t = Some rule \<and> pr_validate rule = Some (te_validate e) \<and> pr_message rule = te_payload e)"

lemma type_entry_ok: "type_entry ds rules resolves t spec = Inr e \<Longrightarrow> entry_ok ds rules t e"
  unfolding type_entry_def entry_ok_def
  by (auto simp: word_neq_0_conv split: option.splits if_splits)

definition domains_ok :: "(u32 \<times> PlayerInboxDomainSpec) list \<Rightarrow> bool" where
  "domains_ok ds \<longleftrightarrow> (\<forall>d sp. map_of ds d = Some sp \<longrightarrow> d \<noteq> 0 \<and> ds_max_pending sp \<noteq> 0)"

definition types_ok :: "(u32 \<times> PlayerInboxDomainSpec) list \<Rightarrow> (u32 \<times> payloadRule) list \<Rightarrow> (u32 \<times> TypeEntry) list \<Rightarrow> bool" where
  "types_ok ds rules ts \<longleftrightarrow> (\<forall>t e. map_of ts t = Some e \<longrightarrow> entry_ok ds rules t e)"

lemma domains_ok_update: "domains_ok ds \<Longrightarrow> n \<noteq> 0 \<Longrightarrow> ds_max_pending sp \<noteq> 0 \<Longrightarrow> domains_ok (AList.update n sp ds)"
  unfolding domains_ok_def by (auto simp: update_conv')

lemma types_ok_update: "types_ok ds rules ts \<Longrightarrow> entry_ok ds rules n e \<Longrightarrow> types_ok ds rules (AList.update n e ts)"
  unfolding types_ok_def by (auto simp: update_conv')

lemma register_domains_ok: "register_domains vs ds = Inr ds' \<Longrightarrow> domains_ok ds \<Longrightarrow> domains_ok ds'"
  by (induction vs ds rule: register_domains.induct) (auto split: if_splits option.splits intro: domains_ok_update)

lemma register_types_ok:
  "register_types ds rules resolves vs ts = Inr ts' \<Longrightarrow> types_ok ds rules ts \<Longrightarrow> types_ok ds rules ts'"
  by (induction ds rules resolves vs ts rule: register_types.induct)
    (auto split: if_splits sum.splits intro: types_ok_update dest: type_entry_ok)

lemma newRegistry_ok:
  assumes "newRegistry dE tE rules resolves = Inr r"
  shows "\<forall>t e. Registry_Type r t = Some e \<longrightarrow> entry_ok (rg_domains r) rules t e"
    and "\<forall>d sp. Registry_Domain r d = Some sp \<longrightarrow> d \<noteq> 0 \<and> 0 < ds_max_pending sp"
    and "rg_types r \<noteq> []"
    and "\<forall>t \<in> fst ` set rules. Registry_Type r t \<noteq> None"
proof -
  obtain ds ts where ds: "register_domains dE [] = Inr ds" and ts: "register_types ds rules resolves tE [] = Inr ts"
    and all: "List.find (\<lambda>t. map_of ts t = None) (map fst rules) = None" and ne: "ts \<noteq> []"
    and r: "r = \<lparr>rg_domains = ds, rg_types = ts\<rparr>"
    using assms unfolding newRegistry_def by (auto split: sum.splits option.splits if_splits)
  show "\<forall>t e. Registry_Type r t = Some e \<longrightarrow> entry_ok (rg_domains r) rules t e"
    using register_types_ok [OF ts] by (simp add: r Registry_Type_def types_ok_def)
  show "\<forall>d sp. Registry_Domain r d = Some sp \<longrightarrow> d \<noteq> 0 \<and> 0 < ds_max_pending sp"
    using register_domains_ok [OF ds] by (simp add: r Registry_Domain_def domains_ok_def word_gt_0)
  show "rg_types r \<noteq> []" using ne by (simp add: r)
  show "\<forall>t \<in> fst ` set rules. Registry_Type r t \<noteq> None"
    using all by (auto simp: find_None_iff r Registry_Type_def)
qed

lemma ValidatePayload_ok:
  assumes "ValidatePayload dec r t allowed payload = Inr e"
  shows "Registry_Type r t = Some e" and "t \<in> set allowed"
    and "\<exists>m. Decode dec e payload = Some m \<and> te_validate e m"
    and "length payload \<le> unat (ty_max_payload_bytes (te_spec e))"
  using assms unfolding ValidatePayload_def Registry_Type_def
  by (auto split: option.splits if_splits)

lemma accepted_type_has_domain:
  assumes "newRegistry dE tE rules resolves = Inr r" and "ValidatePayload dec r t allowed payload = Inr e"
  shows "\<exists>sp. Registry_Domain r (ty_domain (te_spec e)) = Some sp \<and> 0 < ds_max_pending sp"
    and "length payload \<le> 16384"
proof -
  have e: "entry_ok (rg_domains r) rules t e"
    using newRegistry_ok(1) [OF assms(1)] ValidatePayload_ok(1) [OF assms(2)] by blast
  then obtain sp where "Registry_Domain r (ty_domain (te_spec e)) = Some sp"
    by (auto simp: entry_ok_def Registry_Domain_def)
  then show "\<exists>sp. Registry_Domain r (ty_domain (te_spec e)) = Some sp \<and> 0 < ds_max_pending sp"
    using newRegistry_ok(2) [OF assms(1)] by blast
  show "length payload \<le> 16384"
    using e ValidatePayload_ok(4) [OF assms(2)] by (simp add: entry_ok_def MaxPayloadBytesHardCap_def word_le_nat_alt)
qed

subsection \<open>The registry of the repository\<close>

definition production_registry :: Registry where
  "production_registry =
     (case NewRegistry (\<lambda>_. True) of Inr r \<Rightarrow> r | Inl _ \<Rightarrow> \<lparr>rg_domains = [], rg_types = []\<rparr>)"

lemmas registry_numbers = DOMAIN_SCENE_GM_SANCTION_def DOMAIN_SCENE_BATTLE_SETTLEMENT_def
  MSG_GM_BLOCK_CURRENCY_GAIN_def MSG_GM_UNBLOCK_CURRENCY_GAIN_def MSG_GM_ATTACH_CURRENCY_DEBT_def
  MSG_BATTLE_SETTLEMENT_def MaxPayloadBytesHardCap_def

lemma NewRegistry_starts:
  assumes "resolves ''BattleSettlementData''" and "resolves ''player_inbox.GmCurrencyGainPayload''"
    and "resolves ''player_inbox.GmCurrencyDebtPayload''"
  shows "\<exists>r. NewRegistry resolves = Inr r \<and>
    (\<forall>e. Registry_Type r MSG_BATTLE_SETTLEMENT = Some e \<longrightarrow> ty_domain (te_spec e) = DOMAIN_SCENE_BATTLE_SETTLEMENT) \<and>
    (\<forall>t e. Registry_Type r t = Some e \<longrightarrow> t \<noteq> MSG_BATTLE_SETTLEMENT \<longrightarrow> ty_domain (te_spec e) = DOMAIN_SCENE_GM_SANCTION)"
  using assms
  unfolding NewRegistry_def newRegistry_def PlayerInboxDomain_values_def PlayerInboxMessageType_values_def
    payloadRules_def Registry_Type_def
  by (simp add: registry_numbers type_entry_def)

lemma NewRegistry_resolves:
  assumes "NewRegistry resolves = Inr r"
  shows "resolves ''BattleSettlementData'' \<and> resolves ''player_inbox.GmCurrencyGainPayload'' \<and>
      resolves ''player_inbox.GmCurrencyDebtPayload''"
proof -
  have x: "(\<exists>e. NewRegistry resolves = Inl e)" if "\<not> resolves ''player_inbox.GmCurrencyGainPayload''"
    using that
    unfolding NewRegistry_def newRegistry_def PlayerInboxDomain_values_def PlayerInboxMessageType_values_def payloadRules_def
    by (simp add: registry_numbers type_entry_def)
  have y: "(\<exists>e. NewRegistry resolves = Inl e)" if "\<not> resolves ''player_inbox.GmCurrencyDebtPayload''" "resolves ''player_inbox.GmCurrencyGainPayload''"
    using that
    unfolding NewRegistry_def newRegistry_def PlayerInboxDomain_values_def PlayerInboxMessageType_values_def payloadRules_def
    by (simp add: registry_numbers type_entry_def)
  have z: "(\<exists>e. NewRegistry resolves = Inl e)" if "\<not> resolves ''BattleSettlementData''" "resolves ''player_inbox.GmCurrencyDebtPayload''" "resolves ''player_inbox.GmCurrencyGainPayload''"
    using that
    unfolding NewRegistry_def newRegistry_def PlayerInboxDomain_values_def PlayerInboxMessageType_values_def payloadRules_def
    by (simp add: registry_numbers type_entry_def)
  have "\<not> (\<exists>e. NewRegistry resolves = Inl e)" using assms by simp
  then show ?thesis using x y z by blast
qed

text \<open>Battle settlements have a domain of their own in every registry that starts.\<close>

lemma NewRegistry_battle_domain:
  assumes "NewRegistry resolves = Inr r" and "Registry_Type r t = Some e"
  shows "ty_domain (te_spec e) = DOMAIN_SCENE_BATTLE_SETTLEMENT \<longleftrightarrow> t = MSG_BATTLE_SETTLEMENT"
proof -
  note res = NewRegistry_resolves [OF assms(1)]
  obtain r' where X: "NewRegistry resolves = Inr r' \<and>
    (\<forall>e. Registry_Type r' MSG_BATTLE_SETTLEMENT = Some e \<longrightarrow> ty_domain (te_spec e) = DOMAIN_SCENE_BATTLE_SETTLEMENT) \<and>
    (\<forall>t e. Registry_Type r' t = Some e \<longrightarrow> t \<noteq> MSG_BATTLE_SETTLEMENT \<longrightarrow> ty_domain (te_spec e) = DOMAIN_SCENE_GM_SANCTION)"
    by (rule exE [OF NewRegistry_starts [OF res [THEN conjunct1] res [THEN conjunct2, THEN conjunct1]
          res [THEN conjunct2, THEN conjunct2]]])
  note r' = X [THEN conjunct1] and b = X [THEN conjunct2, THEN conjunct1, rule_format]
    and g = X [THEN conjunct2, THEN conjunct2, rule_format]
  have eq: "r' = r" using r' assms(1) by simp
  have ne: "DOMAIN_SCENE_GM_SANCTION \<noteq> DOMAIN_SCENE_BATTLE_SETTLEMENT" by (simp add: registry_numbers)
  show ?thesis
  proof (cases "t = MSG_BATTLE_SETTLEMENT")
    case True
    then show ?thesis using b [unfolded eq, of e] assms(2) by simp
  next
    case False
    then have "ty_domain (te_spec e) = DOMAIN_SCENE_GM_SANCTION" by (rule g [unfolded eq, OF assms(2)])
    then show ?thesis using ne False by simp
  qed
qed

end
