(* ===== verification/InboxStore.thy ===== *)
theory InboxStore
  imports InboxRegistry
begin

text \<open>
  The transactions of the inbox store (\<open>store.go\<close>, \<open>store_enqueue.go\<close>, \<open>store_consume.go\<close>,
  \<open>store_admin.go\<close>, \<open>store_maintenance.go\<close>, \<open>role_authority.go\<close>) on a database of three tables plus
  the two role tables they read.  Every transaction first locks the role row of its player, so the
  transactions of a player are serial and each is one function on the database.  The retry loop of
  \<open>shared/assetop\<close> runs around them: each attempt sees the other transactions that committed before it,
  its own clock readings, and may fail, fail at the commit or commit without the caller learning it.
  An \<open>UPDATE\<close> counts the rows it changes, an \<open>INSERT\<close> refuses a duplicate key.
\<close>

section \<open>Database\<close>

record AccountRoleOwnership =
  ow_player_id :: u64
  ow_account :: bytes
  ow_revision :: u64

record account_role_row =
  ar_account :: bytes
  ar_owner_revision :: u64
  ar_trade_listing_id :: u64

record RoleAdmissionIdentity =
  ra_player_id :: u64
  ra_scene_instance_id :: bytes
  ra_generation :: u64
  ra_owner_revision :: u64
  ra_owner_epoch :: u64
  ra_scene_node_id :: bytes
  ra_scene_id :: u64
  ra_zone_id :: u32
  ra_session_id :: u32
  ra_login_generation :: u64

text \<open>\<open>am_identity\<close> is the parsed \<open>identity_proto\<close> column, \<open>None\<close> when it does not parse.\<close>

record admission_row =
  am_highest_generation :: u64
  am_closed_through :: u64
  am_identity :: "RoleAdmissionIdentity option"

record inbox_db =
  db_items :: "PlayerInboxItemRow list"
  db_streams :: "PlayerInboxStream list"
  db_audits :: "PlayerInboxAudit list"
  db_roles :: "u64 \<Rightarrow> account_role_row option"
  db_admissions :: "u64 \<Rightarrow> bytes \<Rightarrow> admission_row option"

datatype inbox_error = ErrOriginalRole | MySQL nat | ErrSeqClockInvalid | ErrDuplicateUnderP
  | ErrStreamVanished | ErrCorruptShard | ErrRowsAffected nat | ErrAudit | ErrNoDomainSpec
  | ErrContext | ErrOutside | ErrNoLedgerReader | ErrLedgerInvalid | ErrBattleOriginal | ErrReceiptConflict

definition sum_bind :: "'e + 'a \<Rightarrow> ('a \<Rightarrow> 'e + 'b) \<Rightarrow> 'e + 'b" where
  "sum_bind x f = (case x of Inl e \<Rightarrow> Inl e | Inr a \<Rightarrow> f a)"

lemma sum_bind_simps [simp]: "sum_bind (Inl e) f = Inl e" "sum_bind (Inr a) f = f a"
  unfolding sum_bind_def by simp_all

lemma sum_bind_Inr: "sum_bind x f = Inr b \<longleftrightarrow> (\<exists>a. x = Inr a \<and> f a = Inr b)"
  by (cases x) auto

text \<open>\<open>UPDATE ... SET f WHERE P\<close> with the number of rows it changes.\<close>

definition sql_update :: "('r \<Rightarrow> bool) \<Rightarrow> ('r \<Rightarrow> 'r) \<Rightarrow> 'r list \<Rightarrow> 'r list \<times> nat" where
  "sql_update P f rows =
     (map (\<lambda>r. if P r then f r else r) rows, length (filter (\<lambda>r. P r \<and> f r \<noteq> r) rows))"

definition requireOneRow :: "nat \<Rightarrow> inbox_error + unit" where
  "requireOneRow n = (if n \<noteq> 1 then Inl (ErrRowsAffected n) else Inr ())"

definition checkRowShard :: "u32 \<Rightarrow> u64 \<Rightarrow> inbox_error + unit" where
  "checkRowShard shard playerID = (if shard \<noteq> RowShard playerID then Inl ErrCorruptShard else Inr ())"

definition streamPK :: "u32 \<Rightarrow> u64 \<Rightarrow> u32 \<Rightarrow> PlayerInboxStream \<Rightarrow> bool" where
  "streamPK shard playerID domain st \<longleftrightarrow>
     ps_shard st = shard \<and> ps_player_id st = playerID \<and> ps_domain st = domain"

definition itemPK :: "u32 \<Rightarrow> u64 \<Rightarrow> u32 \<Rightarrow> u64 \<Rightarrow> PlayerInboxItemRow \<Rightarrow> bool" where
  "itemPK shard playerID domain seq r \<longleftrightarrow>
     it_shard r = shard \<and> it_player_id r = playerID \<and> it_domain r = domain \<and> it_seq r = seq"

definition itemUK :: "u32 \<Rightarrow> u64 \<Rightarrow> u32 \<Rightarrow> u64 \<Rightarrow> PlayerInboxItemRow \<Rightarrow> bool" where
  "itemUK shard playerID producer requestID r \<longleftrightarrow>
     it_shard r = shard \<and> it_player_id r = playerID \<and> it_producer_kind r = producer \<and> it_request_id r = requestID"

definition scanStream :: "PlayerInboxStream option \<Rightarrow> inbox_error + PlayerInboxStream option" where
  "scanStream row =
     (case row of None \<Rightarrow> Inr None
      | Some r \<Rightarrow> sum_bind (checkRowShard (ps_shard r) (ps_player_id r)) (\<lambda>_. Inr (Some r)))"

definition scanItem :: "PlayerInboxItemRow option \<Rightarrow> inbox_error + PlayerInboxItemRow option" where
  "scanItem row =
     (case row of None \<Rightarrow> Inr None
      | Some r \<Rightarrow> sum_bind (checkRowShard (it_shard r) (it_player_id r)) (\<lambda>_. Inr (Some r)))"

definition lockStream :: "inbox_db \<Rightarrow> u32 \<Rightarrow> u64 \<Rightarrow> u32 \<Rightarrow> inbox_error + PlayerInboxStream option" where
  "lockStream db shard playerID domain =
     scanStream (List.find (streamPK shard playerID domain) (db_streams db))"

definition readStream :: "inbox_db \<Rightarrow> u32 \<Rightarrow> u64 \<Rightarrow> u32 \<Rightarrow> inbox_error + PlayerInboxStream option" where
  "readStream db shard playerID domain =
     scanStream (List.find (streamPK shard playerID domain) (db_streams db))"

definition readItemByRequest ::
  "inbox_db \<Rightarrow> u32 \<Rightarrow> u64 \<Rightarrow> u32 \<Rightarrow> u64 \<Rightarrow> inbox_error + PlayerInboxItemRow option" where
  "readItemByRequest db shard playerID producer requestID =
     scanItem (List.find (itemUK shard playerID producer requestID) (db_items db))"

definition readItem :: "inbox_db \<Rightarrow> u32 \<Rightarrow> u64 \<Rightarrow> u32 \<Rightarrow> u64 \<Rightarrow> inbox_error + PlayerInboxItemRow option" where
  "readItem db shard playerID domain seq =
     scanItem (List.find (itemPK shard playerID domain seq) (db_items db))"

text \<open>A query that returns several rows checks the shard of each.\<close>

definition queryItems :: "PlayerInboxItemRow list \<Rightarrow> inbox_error + PlayerInboxItemRow list" where
  "queryItems rows =
     (if list_all (\<lambda>r. checkRowShard (it_shard r) (it_player_id r) = Inr ()) rows then Inr rows
      else Inl ErrCorruptShard)"

definition readItemsBySeq ::
  "inbox_db \<Rightarrow> u32 \<Rightarrow> u64 \<Rightarrow> u32 \<Rightarrow> u64 list \<Rightarrow> inbox_error + (u64 \<Rightarrow> PlayerInboxItemRow option)" where
  "readItemsBySeq db shard playerID domain seqs =
     (let rows = filter (\<lambda>r. it_shard r = shard \<and> it_player_id r = playerID \<and> it_domain r = domain \<and>
                            it_seq r \<in> set seqs) (db_items db) in
      sum_bind (queryItems rows) (\<lambda>rows. Inr (\<lambda>s. List.find (\<lambda>r. it_seq r = s) (rev rows))))"

text \<open>An \<open>INSERT\<close> refuses a duplicate primary or unique key (1062) and a full table (1114); a table holds
  at most 64 TiB, so fewer than \<open>2 ^ 46\<close> rows.\<close>

definition max_table_rows :: nat where "max_table_rows = 2 ^ 46"

definition insert_item :: "PlayerInboxItemRow \<Rightarrow> inbox_db \<Rightarrow> inbox_error + inbox_db" where
  "insert_item row db =
     (if \<exists>r \<in> set (db_items db). itemPK (it_shard row) (it_player_id row) (it_domain row) (it_seq row) r \<or>
           itemUK (it_shard row) (it_player_id row) (it_producer_kind row) (it_request_id row) r
      then Inl (MySQL 1062)
      else if length (db_items db) \<ge> max_table_rows then Inl (MySQL 1114)
      else Inr (db \<lparr>db_items := db_items db @ [row]\<rparr>))"

definition ensureStreamTx :: "u32 \<Rightarrow> u64 \<Rightarrow> u32 \<Rightarrow> u64 \<Rightarrow> inbox_db \<Rightarrow> inbox_db" where
  "ensureStreamTx shard playerID domain now db =
     (if \<exists>st \<in> set (db_streams db). streamPK shard playerID domain st then db
      else db \<lparr>db_streams := db_streams db @
        [\<lparr>ps_shard = shard, ps_player_id = playerID, ps_domain = domain, ps_next_seq = 1, ps_fence_epoch = 0,
          ps_open_count = 0, ps_notify_due_ms = 0, ps_created_ms = now, ps_updated_ms = now\<rparr>]\<rparr>)"

definition update_stream ::
  "u32 \<Rightarrow> u64 \<Rightarrow> u32 \<Rightarrow> (PlayerInboxStream \<Rightarrow> PlayerInboxStream) \<Rightarrow> inbox_db \<Rightarrow> inbox_error + inbox_db" where
  "update_stream shard playerID domain f db =
     (case sql_update (streamPK shard playerID domain) f (db_streams db) of
        (rows, n) \<Rightarrow> sum_bind (requireOneRow n) (\<lambda>_. Inr (db \<lparr>db_streams := rows\<rparr>)))"

text \<open>The conditional updates of an item carry the expected state in their \<open>WHERE\<close>.\<close>

definition update_item ::
  "u32 \<Rightarrow> u64 \<Rightarrow> u32 \<Rightarrow> u64 \<Rightarrow> (PlayerInboxItemRow \<Rightarrow> bool) \<Rightarrow> (PlayerInboxItemRow \<Rightarrow> PlayerInboxItemRow) \<Rightarrow>
   inbox_db \<Rightarrow> inbox_error + inbox_db" where
  "update_item shard playerID domain seq cond f db =
     (case sql_update (\<lambda>r. itemPK shard playerID domain seq r \<and> cond r) f (db_items db) of
        (rows, n) \<Rightarrow> sum_bind (requireOneRow n) (\<lambda>_. Inr (db \<lparr>db_items := rows\<rparr>)))"

section \<open>Audit rows\<close>

definition auditPK :: "PlayerInboxAudit \<Rightarrow> u32 \<times> u64 \<times> u32 \<times> u64 \<times> PlayerInboxAuditAction" where
  "auditPK a = (pa_shard a, pa_player_id a, pa_domain a, pa_seq a, pa_action a)"

definition insertAuditForItem ::
  "PlayerInboxItemRow option \<Rightarrow> PlayerInboxAudit \<Rightarrow> inbox_db \<Rightarrow> inbox_error + inbox_db" where
  "insertAuditForItem item a db =
     (case auditRowFor item (Some a) of None \<Rightarrow> Inl ErrAudit
      | Some row \<Rightarrow>
        if auditPK row \<in> auditPK ` set (db_audits db) then Inr db
        else Inr (db \<lparr>db_audits := db_audits db @ [row]\<rparr>))"

definition InsertAudit :: "PlayerInboxAudit \<Rightarrow> inbox_db \<Rightarrow> inbox_error + inbox_db" where
  "InsertAudit a db =
     sum_bind (readItem db (RowShard (pa_player_id a)) (pa_player_id a) (pa_domain a) (pa_seq a))
       (\<lambda>item. case item of None \<Rightarrow> Inl ErrAudit | Some _ \<Rightarrow> insertAuditForItem item a db)"

section \<open>Role authority\<close>

definition ValidAccount :: "bytes \<Rightarrow> bool" where
  "ValidAccount account \<longleftrightarrow> length account > 0 \<and> length account \<le> 191 \<and> utf8_valid account"

definition hex_digit :: "byte \<Rightarrow> bool" where
  "hex_digit b \<longleftrightarrow> in_range 0x30 0x39 b \<or> in_range 0x61 0x66 b"

definition ValidSceneInstance :: "bytes \<Rightarrow> bool" where
  "ValidSceneInstance s \<longleftrightarrow>
     length s = 36 \<and>
     list_all (\<lambda>(i, b). if i \<in> {8, 13, 18, 23} then b = 0x2D else hex_digit b) (zip [0..<36] s)"

definition validSceneNode :: "bytes \<Rightarrow> bool" where
  "validSceneNode s \<longleftrightarrow>
     s \<noteq> [] \<and> length s \<le> 96 \<and> utf8_valid s \<and> list_all (\<lambda>b. b \<notin> {0x00, 0x0D, 0x0A, 0x09, 0x20}) s"

definition ValidAdmission :: "RoleAdmissionIdentity \<Rightarrow> bool" where
  "ValidAdmission i \<longleftrightarrow>
     ra_player_id i > 0 \<and> ValidSceneInstance (ra_scene_instance_id i) \<and> ra_generation i > 0 \<and>
     ra_owner_revision i > 0 \<and> ra_owner_epoch i > 0 \<and> validSceneNode (ra_scene_node_id i) \<and>
     ra_scene_id i > 0 \<and> ra_zone_id i > 0 \<and> ra_session_id i > 0 \<and> ra_login_generation i > 0"

definition VerifyAdmission ::
  "inbox_db \<Rightarrow> AccountRoleOwnership \<Rightarrow> RoleAdmissionIdentity option \<Rightarrow> inbox_error + unit" where
  "VerifyAdmission db original admission =
     (case admission of None \<Rightarrow> Inl ErrOriginalRole
      | Some i \<Rightarrow>
        if \<not> ValidAdmission i \<or> ra_player_id i \<noteq> ow_player_id original \<or> ra_owner_revision i \<noteq> ow_revision original
        then Inl ErrOriginalRole
        else case db_admissions db (ra_player_id i) (ra_scene_instance_id i) of None \<Rightarrow> Inl ErrOriginalRole
          | Some row \<Rightarrow>
            if am_identity row = None \<or> am_highest_generation row \<noteq> ra_generation i \<or>
               am_closed_through row \<ge> ra_generation i \<or> am_identity row \<noteq> Some i
            then Inl ErrOriginalRole else Inr ())"

definition LockCurrent :: "inbox_db \<Rightarrow> u64 \<Rightarrow> inbox_error + AccountRoleOwnership" where
  "LockCurrent db player =
     (if player = 0 then Inl ErrOriginalRole
      else case db_roles db player of None \<Rightarrow> Inl ErrOriginalRole
        | Some r \<Rightarrow>
          if \<not> ValidAccount (ar_account r) \<or> ar_owner_revision r = 0 \<or> ar_trade_listing_id r \<noteq> 0
          then Inl ErrOriginalRole
          else Inr \<lparr>ow_player_id = player, ow_account = ar_account r, ow_revision = ar_owner_revision r\<rparr>)"

definition requireItemOriginal :: "PlayerInboxItemRow option \<Rightarrow> AccountRoleOwnership \<Rightarrow> inbox_error + unit" where
  "requireItemOriginal row original =
     (case row of None \<Rightarrow> Inr ()
      | Some r \<Rightarrow>
        if it_player_id r \<noteq> ow_player_id original \<or> it_owner_revision r = 0 \<or>
           it_owner_revision r \<noteq> ow_revision original \<or> it_owner_account r \<noteq> ow_account original
        then Inl ErrOriginalRole else Inr ())"

definition requirePendingOriginalsTx :: "inbox_db \<Rightarrow> AccountRoleOwnership \<Rightarrow> inbox_error + unit" where
  "requirePendingOriginalsTx db original =
     (if \<exists>r \<in> set (db_items db).
           it_shard r = RowShard (ow_player_id original) \<and> it_player_id r = ow_player_id original \<and>
           \<not> IsTerminalState (it_state r) \<and>
           (it_state r \<noteq> ITEM_PENDING \<or> it_owner_account r \<noteq> ow_account original \<or>
            it_owner_revision r \<noteq> ow_revision original)
      then Inl ErrOriginalRole else Inr ())"

section \<open>Transactions with retries\<close>

text \<open>What happens to one attempt besides the code: an error when it begins or in one of its statements,
  an error at the commit with everything rolled back, or a commit whose confirmation is lost.\<close>

datatype tx_fate = TxRuns | TxStatementFails inbox_error | TxCommitFails inbox_error | TxCommitUnknown inbox_error

record tx_try =
  tt_ctxErr :: bool
  tt_others :: "inbox_db \<Rightarrow> inbox_db"
  tt_fate :: tx_fate
  tt_now :: "nat \<Rightarrow> int"
  tt_sleepErr :: bool

type_synonym 'a tx_body = "tx_try \<Rightarrow> inbox_db \<Rightarrow> inbox_error + ('a \<times> inbox_db)"

definition runTx :: "'a tx_body \<Rightarrow> tx_try \<Rightarrow> inbox_db \<Rightarrow> (inbox_error + 'a) \<times> inbox_db" where
  "runTx fn t db =
     (case tt_fate t of
        TxStatementFails e \<Rightarrow> (Inl e, db)
      | TxRuns \<Rightarrow> (case fn t db of Inl e \<Rightarrow> (Inl e, db) | Inr (a, db') \<Rightarrow> (Inr a, db'))
      | TxCommitFails e \<Rightarrow> (case fn t db of Inl e' \<Rightarrow> (Inl e', db) | Inr (a, db') \<Rightarrow> (Inl e, db))
      | TxCommitUnknown e \<Rightarrow> (case fn t db of Inl e' \<Rightarrow> (Inl e', db) | Inr (a, db') \<Rightarrow> (Inl e, db')))"

definition IsRetryableTxError :: "inbox_error \<Rightarrow> bool" where
  "IsRetryableTxError e = (case e of MySQL n \<Rightarrow> n \<in> {1213, 1205, 9007} | _ \<Rightarrow> False)"

definition defaultTxAttempts :: nat where "defaultTxAttempts = 3"

fun retryWithBackoff ::
  "nat \<Rightarrow> (nat \<Rightarrow> tx_try) \<Rightarrow> nat \<Rightarrow> inbox_error option \<Rightarrow> 'a tx_body \<Rightarrow> inbox_db \<Rightarrow> (inbox_error + 'a) \<times> inbox_db" where
  "retryWithBackoff 0 tries i lastErr fn db = (Inl (case lastErr of None \<Rightarrow> ErrContext | Some e \<Rightarrow> e), db)"
| "retryWithBackoff (Suc left) tries i lastErr fn db =
     (let t = tries i; db0 = tt_others t db in
      if tt_ctxErr t then (Inl (case lastErr of None \<Rightarrow> ErrContext | Some e \<Rightarrow> e), db0)
      else case runTx fn t db0 of
        (Inr a, db1) \<Rightarrow> (Inr a, db1)
      | (Inl e, db1) \<Rightarrow>
          if \<not> IsRetryableTxError e then (Inl e, db1)
          else if left = 0 then (Inl e, db1)
          else if tt_sleepErr t then (Inl e, db1)
          else retryWithBackoff left tries (Suc i) (Some e) fn db1)"

definition with_player :: "u64 \<Rightarrow> (tx_try \<Rightarrow> AccountRoleOwnership \<Rightarrow> inbox_db \<Rightarrow> inbox_error + ('a \<times> inbox_db)) \<Rightarrow> 'a tx_body" where
  "with_player player action t db =
     sum_bind (LockCurrent db player) (\<lambda>original.
       if ow_player_id original \<noteq> player \<or> \<not> ValidAccount (ow_account original) \<or> ow_revision original = 0
       then Inl ErrOriginalRole else action t original db)"

definition withPlayerTx ::
  "(nat \<Rightarrow> tx_try) \<Rightarrow> u64 \<Rightarrow> (tx_try \<Rightarrow> AccountRoleOwnership \<Rightarrow> inbox_db \<Rightarrow> inbox_error + ('a \<times> inbox_db)) \<Rightarrow>
   inbox_db \<Rightarrow> (inbox_error + 'a) \<times> inbox_db" where
  "withPlayerTx tries player action db =
     retryWithBackoff defaultTxAttempts tries 0 None (with_player player action) db"

section \<open>Enqueue\<close>

record BattleSettlementInboxRequest =
  br_player_id :: u64
  br_battle_id :: u64
  br_expected_owner_account :: bytes
  br_expected_owner_revision :: u64
  br_issued_at_ms :: u64
  br_settlement_payload :: bytes
  br_reflect :: pb_msg

record EnqueueParams =
  ep_player_id :: u64
  ep_type :: u32
  ep_producer :: u32
  ep_request_id :: u64
  ep_issued_at_ms :: u64
  ep_payload :: bytes
  ep_operator :: bytes
  ep_note :: bytes
  ep_battle_original :: "BattleSettlementInboxRequest option"

text \<open>The store: its registry and allow list, the protobuf decoder and the digest function.\<close>

record Store =
  so_registry :: Registry
  so_allowed :: "u32 list"
  so_decoder :: decoder
  so_sha :: "bytes \<Rightarrow> bytes"

definition battleOriginalMatches :: "BattleSettlementInboxRequest \<Rightarrow> AccountRoleOwnership \<Rightarrow> bool" where
  "battleOriginalMatches req role \<longleftrightarrow>
     br_player_id req = ow_player_id role \<and> br_expected_owner_account req = ow_account role \<and>
     br_expected_owner_revision req = ow_revision role"

definition out_of_window :: "EnqueueParams \<Rightarrow> u64 \<Rightarrow> bool" where
  "out_of_window p now \<longleftrightarrow>
     (ep_battle_original p = None \<and> \<not> issuedWithinWindow (ep_issued_at_ms p) now) \<or>
     (ep_battle_original p \<noteq> None \<and> ep_issued_at_ms p > now + IssuedAtMaxFutureMs)"

definition new_item_row ::
  "EnqueueParams \<Rightarrow> u32 \<Rightarrow> bytes \<Rightarrow> u64 \<Rightarrow> u64 \<Rightarrow> AccountRoleOwnership \<Rightarrow> PlayerInboxItemRow" where
  "new_item_row p domain digest seq now original =
     \<lparr>it_shard = RowShard (ep_player_id p), it_player_id = ep_player_id p, it_domain = domain, it_seq = seq,
      it_msg_type = ep_type p, it_producer_kind = ep_producer p, it_request_id = ep_request_id p,
      it_content_sha256 = digest, it_payload = ep_payload p, it_state = ITEM_PENDING,
      it_directive = DIRECTIVE_NONE, it_void_reason = VOID_UNSPECIFIED, it_delivery_count = 0,
      it_last_delivered_epoch = 0, it_last_delivered_ms = 0, it_outcome_reason = 0,
      it_finalized_by = FINALIZER_UNSPECIFIED, it_decided_epoch = 0, it_issued_at_ms = ep_issued_at_ms p,
      it_created_ms = now, it_updated_ms = now, it_operator_name = ep_operator p, it_note = ep_note p,
      it_owner_account = ow_account original, it_owner_revision = ow_revision original\<rparr>"

text \<open>Step 7 of the transaction: allocate, insert, advance the stream, audit.  \<open>inTx\<close> is the audit row
  the caller wants in the same transaction, given the sequence number and the attempt's clock.\<close>

type_synonym audit_fn = "(tx_try \<Rightarrow> u64 \<Rightarrow> inbox_error + PlayerInboxAudit) option"

definition enqueue_insert ::
  "EnqueueParams \<Rightarrow> u32 \<Rightarrow> bytes \<Rightarrow> audit_fn \<Rightarrow> tx_try \<Rightarrow> AccountRoleOwnership \<Rightarrow> PlayerInboxStream \<Rightarrow>
   inbox_db \<Rightarrow> inbox_error + (EnqueueResult \<times> inbox_db)" where
  "enqueue_insert p domain digest inTx t original st db =
     (let now = nowMs (tt_now t 1); shard = RowShard (ep_player_id p) in
      case NextSeq (ps_next_seq st) now of None \<Rightarrow> Inl ErrSeqClockInvalid
      | Some seq \<Rightarrow>
        (case insert_item (new_item_row p domain digest seq now original) db of
           Inl e \<Rightarrow> Inl (if e = MySQL 1062 then ErrDuplicateUnderP else e)
         | Inr db1 \<Rightarrow>
           sum_bind (update_stream shard (ep_player_id p) domain
             (\<lambda>s. s \<lparr>ps_next_seq := seq + 1, ps_open_count := ps_open_count st + 1,
                     ps_notify_due_ms := now, ps_updated_ms := now\<rparr>) db1) (\<lambda>db2.
           sum_bind (case inTx of None \<Rightarrow> Inr db2
                     | Some f \<Rightarrow> sum_bind (f t seq) (\<lambda>a. InsertAudit a db2)) (\<lambda>db3.
           Inr (\<lparr>er_code = None, er_seq = seq, er_created = True, er_state = ITEM_PENDING\<rparr>, db3)))))"

definition enqueue_new ::
  "EnqueueParams \<Rightarrow> u32 \<Rightarrow> u32 \<Rightarrow> bytes \<Rightarrow> audit_fn \<Rightarrow> tx_try \<Rightarrow> AccountRoleOwnership \<Rightarrow>
   inbox_db \<Rightarrow> inbox_error + (EnqueueResult \<times> inbox_db)" where
  "enqueue_new p domain maxPending digest inTx t original db =
     (let now = nowMs (tt_now t 0); shard = RowShard (ep_player_id p) in
      if out_of_window p now then Inr (enqueue_code ErrIssuedOutOfWindow, db)
      else sum_bind (requirePendingOriginalsTx db original) (\<lambda>_.
        let db1 = ensureStreamTx shard (ep_player_id p) domain now db in
        sum_bind (lockStream db1 shard (ep_player_id p) domain) (\<lambda>locked.
        case locked of None \<Rightarrow> Inl ErrStreamVanished
        | Some st \<Rightarrow>
          sum_bind (readItemByRequest db1 shard (ep_player_id p) (ep_producer p) (ep_request_id p)) (\<lambda>existing.
          sum_bind (requireItemOriginal existing original) (\<lambda>_.
          case decideEnqueueLocked existing digest (ps_open_count st) maxPending of
            Some decided \<Rightarrow> Inr (decided, db1)
          | None \<Rightarrow> enqueue_insert p domain digest inTx t original st db1)))))"

definition enqueue_tx ::
  "EnqueueParams \<Rightarrow> u32 \<Rightarrow> u32 \<Rightarrow> bytes \<Rightarrow> audit_fn \<Rightarrow> tx_try \<Rightarrow> AccountRoleOwnership \<Rightarrow>
   inbox_db \<Rightarrow> inbox_error + (EnqueueResult \<times> inbox_db)" where
  "enqueue_tx p domain maxPending digest inTx t original db =
     (if (case ep_battle_original p of None \<Rightarrow> False | Some req \<Rightarrow> \<not> battleOriginalMatches req original)
      then Inl ErrOriginalRole
      else sum_bind (readItemByRequest db (RowShard (ep_player_id p)) (ep_player_id p) (ep_producer p) (ep_request_id p))
        (\<lambda>existing.
         sum_bind (requireItemOriginal existing original) (\<lambda>_.
         case existing of
           Some row \<Rightarrow> Inr (resultForExisting row digest, db)
         | None \<Rightarrow> enqueue_new p domain maxPending digest inTx t original db)))"

section \<open>Reminders\<close>

text \<open>The body of \<open>ClearNotifyDue\<close> and \<open>DeferNotifyDue\<close>: set the due time while the token still holds.\<close>

definition set_notify_due ::
  "u64 \<Rightarrow> u32 \<Rightarrow> u64 \<Rightarrow> u64 \<Rightarrow> tx_try \<Rightarrow> AccountRoleOwnership \<Rightarrow> inbox_db \<Rightarrow> inbox_error + (bool \<times> inbox_db)" where
  "set_notify_due playerID domain expectNextSeq dueMs t original db =
     sum_bind (requirePendingOriginalsTx db original) (\<lambda>_.
       case sql_update (\<lambda>st. streamPK (RowShard playerID) playerID domain st \<and> ps_next_seq st = expectNextSeq \<and>
                            ps_notify_due_ms st \<noteq> 0)
              (\<lambda>st. st \<lparr>ps_notify_due_ms := dueMs\<rparr>) (db_streams db) of
         (rows, n) \<Rightarrow> Inr (n = 1, db \<lparr>db_streams := rows\<rparr>))"


definition ClearNotifyDue ::
  "(nat \<Rightarrow> tx_try) \<Rightarrow> u64 \<Rightarrow> u32 \<Rightarrow> u64 \<Rightarrow> inbox_db \<Rightarrow> (inbox_error + bool) \<times> inbox_db" where
  "ClearNotifyDue tries playerID domain expectNextSeq db =
     withPlayerTx tries playerID (set_notify_due playerID domain expectNextSeq 0) db"

definition DeferNotifyDue ::
  "(nat \<Rightarrow> tx_try) \<Rightarrow> u64 \<Rightarrow> u32 \<Rightarrow> u64 \<Rightarrow> u64 \<Rightarrow> inbox_db \<Rightarrow> (inbox_error + bool) \<times> inbox_db" where
  "DeferNotifyDue tries playerID domain expectNextSeq dueMs db =
     withPlayerTx tries playerID (set_notify_due playerID domain expectNextSeq dueMs) db"

text \<open>\<open>result\<close> is what the notifier answered.\<close>

definition notifyAndClear ::
  "(nat \<Rightarrow> tx_try) \<Rightarrow> NotifyResult \<Rightarrow> u64 \<Rightarrow> u32 \<Rightarrow> u64 \<Rightarrow> inbox_db \<Rightarrow> NotifyResult \<times> inbox_db" where
  "notifyAndClear tries result playerID domain expectNextSeq db =
     (if \<not> Settled result then (result, db)
      else (result, snd (ClearNotifyDue tries playerID domain expectNextSeq db)))"

record NotifyDue =
  nd_player_id :: u64
  nd_domain :: u32
  nd_next_seq :: u64
  nd_pending_since_ms :: u64

definition DueNotifications :: "inbox_db \<Rightarrow> u32 \<Rightarrow> u64 \<Rightarrow> nat \<Rightarrow> inbox_error + NotifyDue list" where
  "DueNotifications db shard dueBeforeMs limit =
     (let rows = take limit (filter (\<lambda>st. ps_shard st = shard \<and> 1 \<le> ps_notify_due_ms st \<and>
                                         ps_notify_due_ms st \<le> dueBeforeMs) (db_streams db)) in
      if list_all (\<lambda>st. RowShard (ps_player_id st) = shard) rows
      then Inr (map (\<lambda>st. \<lparr>nd_player_id = ps_player_id st, nd_domain = ps_domain st, nd_next_seq = ps_next_seq st,
                           nd_pending_since_ms = ps_updated_ms st\<rparr>) rows)
      else Inl ErrCorruptShard)"

definition ResendNotify ::
  "(nat \<Rightarrow> tx_try) \<Rightarrow> (nat \<Rightarrow> tx_try) \<Rightarrow> NotifyResult \<Rightarrow> int \<Rightarrow> NotifyDue \<Rightarrow> inbox_db \<Rightarrow> NotifyResult \<times> inbox_db" where
  "ResendNotify tries tries2 answer clock d db =
     (case notifyAndClear tries answer (nd_player_id d) (nd_domain d) (nd_next_seq d) db of
        (result, db1) \<Rightarrow>
        if Settled result then (result, db1)
        else let now = nowMs clock in
          if notifyGivesUp result now (nd_pending_since_ms d)
          then (result, snd (ClearNotifyDue tries2 (nd_player_id d) (nd_domain d) (nd_next_seq d) db1))
          else (result, snd (DeferNotifyDue tries2 (nd_player_id d) (nd_domain d) (nd_next_seq d)
                               (notifyRetryDueMs now (nd_pending_since_ms d)) db1)))"

text \<open>The observations of one call of \<open>Enqueue\<close>: the existence check, the attempts of the transaction, the
  answer of the notifier and the attempts of the clearing transaction.\<close>

record enqueue_env =
  ee_exists :: "inbox_error + bool"
  ee_tries :: "nat \<Rightarrow> tx_try"
  ee_notify :: NotifyResult
  ee_clear :: "nat \<Rightarrow> tx_try"

definition Enqueue ::
  "Store \<Rightarrow> enqueue_env \<Rightarrow> EnqueueParams \<Rightarrow> audit_fn \<Rightarrow> inbox_db \<Rightarrow> (inbox_error + EnqueueResult) \<times> inbox_db" where
  "Enqueue s env p inTx db =
     (if ep_player_id p = 0 \<or> ep_request_id p = 0 \<or> ep_issued_at_ms p = 0 \<or> \<not> validProducer (ep_producer p)
      then (Inr (enqueue_code ErrInvalidParameter), db)
      else if (ep_producer p = PRODUCER_MATCH \<or> ep_type p = MSG_BATTLE_SETTLEMENT) \<noteq> (ep_battle_original p \<noteq> None)
      then (Inr (enqueue_code ErrInvalidParameter), db)
      else case ValidatePayload (so_decoder s) (so_registry s) (ep_type p) (so_allowed s) (ep_payload p) of
        Inl code \<Rightarrow> (Inr (enqueue_code code), db)
      | Inr entry \<Rightarrow>
        (case ValidateText (ep_operator p) MaxOperatorBytes True of Some code \<Rightarrow> (Inr (enqueue_code code), db)
         | None \<Rightarrow>
         (case ValidateText (ep_note p) MaxReasonBytes False of Some code \<Rightarrow> (Inr (enqueue_code code), db)
          | None \<Rightarrow>
          let domain = ty_domain (te_spec entry) in
          (case Registry_Domain (so_registry s) domain of None \<Rightarrow> (Inl ErrNoDomainSpec, db)
           | Some spec \<Rightarrow>
           (case ee_exists env of Inl e \<Rightarrow> (Inl e, db)
            | Inr False \<Rightarrow> (Inr (enqueue_code ErrPlayerNotFound), db)
            | Inr True \<Rightarrow>
              let digest = ContentSHA256 (so_sha s) (ep_type p) (ep_issued_at_ms p) (ep_payload p) in
              (case withPlayerTx (ee_tries env) (ep_player_id p)
                      (enqueue_tx p domain (ds_max_pending spec) digest inTx) db of
                 (Inl e, db1) \<Rightarrow> (Inl e, db1)
               | (Inr res, db1) \<Rightarrow>
                 if er_created res
                 then (Inr res, snd (notifyAndClear (ee_clear env) (ee_notify env) (ep_player_id p) domain
                                       (er_seq res + 1) db1))
                 else (Inr res, db1)))))))"

section \<open>Producers\<close>

datatype sanction_action = BlockGain u32 | UnblockGain u32 | AttachDebt GmCurrencyDebtPayload

record GmSanctionPlayerRequest =
  gm_player_id :: u64
  gm_request_id :: u64
  gm_issued_at_ms :: u64
  gm_operator :: bytes
  gm_reason :: bytes
  gm_action :: "sanction_action option"

text \<open>The operator of the request replaces the one in a debt payload.\<close>

definition sanctionPayload :: "GmSanctionPlayerRequest \<Rightarrow> (u32 \<times> payload_msg) option" where
  "sanctionPayload req =
     (case gm_action req of None \<Rightarrow> None
      | Some (BlockGain c) \<Rightarrow> Some (MSG_GM_BLOCK_CURRENCY_GAIN, GainPayload c)
      | Some (UnblockGain c) \<Rightarrow> Some (MSG_GM_UNBLOCK_CURRENCY_GAIN, GainPayload c)
      | Some (AttachDebt d) \<Rightarrow>
          Some (MSG_GM_ATTACH_CURRENCY_DEBT, DebtPayload (d \<lparr>dp_gm_operator := gm_operator req\<rparr>)))"

datatype gm_reply = GmRejected tip | GmUnavailable | GmAccepted u64 bool PlayerInboxItemState

definition gm_audit :: "Store \<Rightarrow> GmSanctionPlayerRequest \<Rightarrow> bytes \<Rightarrow> u32 \<Rightarrow> audit_fn" where
  "gm_audit s req peerAddr msgType = Some (\<lambda>t seq.
     (case Registry_Type (so_registry s) msgType of None \<Rightarrow> Inl ErrAudit
      | Some entry \<Rightarrow> Inr
          \<lparr>pa_shard = 0, pa_player_id = gm_player_id req, pa_domain = ty_domain (te_spec entry), pa_seq = seq,
           pa_action = AUDIT_SANCTION, pa_operator = gm_operator req, pa_peer_addr = peerAddr,
           pa_reason = gm_reason req, pa_created_ms = nowMs (tt_now t 2), pa_msg_type = 0, pa_request_id = 0,
           pa_issued_at_ms = 0, pa_content_sha256 = [], pa_payload = [], pa_void_reason = VOID_UNSPECIFIED\<rparr>))"

text \<open>\<open>marshal\<close> is the deterministic protobuf encoder, \<open>None\<close> when it fails.\<close>

definition GmSanctionPlayer ::
  "Store \<Rightarrow> (payload_msg \<Rightarrow> bytes option) \<Rightarrow> enqueue_env \<Rightarrow> GmSanctionPlayerRequest \<Rightarrow> bytes \<Rightarrow> inbox_db \<Rightarrow>
   gm_reply \<times> inbox_db" where
  "GmSanctionPlayer s marshal env req peerAddr db =
     (if gm_player_id req = 0 \<or> gm_request_id req = 0 \<or> gm_issued_at_ms req = 0
      then (GmRejected ErrInvalidParameter, db)
      else case ValidateText (gm_operator req) MaxOperatorBytes True of Some code \<Rightarrow> (GmRejected code, db)
      | None \<Rightarrow>
        (case ValidateText (gm_reason req) MaxReasonBytes True of Some code \<Rightarrow> (GmRejected code, db)
         | None \<Rightarrow>
         (case sanctionPayload req of None \<Rightarrow> (GmRejected ErrInvalidParameter, db)
          | Some (msgType, msg) \<Rightarrow>
          (case marshal msg of None \<Rightarrow> (GmRejected ErrPayloadInvalid, db)
           | Some payload \<Rightarrow>
           (case Enqueue s env
                   \<lparr>ep_player_id = gm_player_id req, ep_type = msgType, ep_producer = PRODUCER_GM,
                    ep_request_id = gm_request_id req, ep_issued_at_ms = gm_issued_at_ms req, ep_payload = payload,
                    ep_operator = gm_operator req, ep_note = gm_reason req, ep_battle_original = None\<rparr>
                   (gm_audit s req peerAddr msgType) db of
              (Inl e, db1) \<Rightarrow> (GmUnavailable, db1)
            | (Inr res, db1) \<Rightarrow>
              (case er_code res of Some code \<Rightarrow> (GmRejected code, db1)
               | None \<Rightarrow> (GmAccepted (er_seq res) (er_created res) (er_state res), db1)))))))"

definition validateBattleOriginal :: "decoder \<Rightarrow> BattleSettlementInboxRequest \<Rightarrow> bool" where
  "validateBattleOriginal dec req =
     (if br_player_id req = 0 \<or> br_battle_id req = 0 \<or>
         ValidateText (br_expected_owner_account req) 191 True \<noteq> None \<or> br_expected_owner_revision req = 0 \<or>
         br_issued_at_ms req = 0 \<or> br_settlement_payload req = [] \<or> length (br_settlement_payload req) > 16384 \<or>
         battlePayloadHasUnknown (br_reflect req)
      then False
      else case dec ''BattleSettlementData'' (br_settlement_payload req) of
        Some (BattlePayload p, unknown) \<Rightarrow>
          if bs_player_id p \<noteq> br_player_id req \<or> bs_battle_id p \<noteq> br_battle_id req then False
          else validateBattlePayload (BattlePayload p)
      | _ \<Rightarrow> False)"

definition battle_params :: "BattleSettlementInboxRequest \<Rightarrow> EnqueueParams" where
  "battle_params req =
     \<lparr>ep_player_id = br_player_id req, ep_type = MSG_BATTLE_SETTLEMENT, ep_producer = PRODUCER_MATCH,
      ep_request_id = br_battle_id req, ep_issued_at_ms = br_issued_at_ms req,
      ep_payload = br_settlement_payload req, ep_operator = [0x6D, 0x61, 0x74, 0x63, 0x68], ep_note = [],
      ep_battle_original = Some req\<rparr>"

record BattleSettlementInboxResponse =
  bp_seq :: u64
  bp_state :: PlayerInboxItemState
  bp_content_sha256 :: bytes
  bp_error :: "tip option"

definition EnqueueBattleSettlement ::
  "Store \<Rightarrow> enqueue_env \<Rightarrow> BattleSettlementInboxRequest \<Rightarrow> inbox_db \<Rightarrow>
   (inbox_error + BattleSettlementInboxResponse) \<times> inbox_db" where
  "EnqueueBattleSettlement s env req db =
     (if \<not> validateBattleOriginal (so_decoder s) req then (Inl ErrBattleOriginal, db)
      else case Enqueue s env (battle_params req) None db of
        (Inl e, db1) \<Rightarrow> (Inl e, db1)
      | (Inr r, db1) \<Rightarrow>
          (Inr \<lparr>bp_seq = er_seq r, bp_state = er_state r,
               bp_content_sha256 = ContentSHA256 (so_sha s) MSG_BATTLE_SETTLEMENT (br_issued_at_ms req) (br_settlement_payload req),
               bp_error = er_code r\<rparr>, db1))"

definition lookup_battle ::
  "Store \<Rightarrow> BattleSettlementInboxRequest \<Rightarrow> tx_try \<Rightarrow> AccountRoleOwnership \<Rightarrow> inbox_db \<Rightarrow>
   inbox_error + (BattleSettlementInboxResponse \<times> inbox_db)" where
  "lookup_battle s req t original db =
     (if \<not> battleOriginalMatches req original then Inl ErrOriginalRole
      else sum_bind (readItemByRequest db (RowShard (br_player_id req)) (br_player_id req) PRODUCER_MATCH (br_battle_id req))
        (\<lambda>found. case found of
           None \<Rightarrow> Inr (\<lparr>bp_seq = 0, bp_state = ITEM_UNSPECIFIED, bp_content_sha256 = [], bp_error = None\<rparr>, db)
         | Some row \<Rightarrow> sum_bind (requireItemOriginal (Some row) original) (\<lambda>_.
             if it_msg_type row \<noteq> MSG_BATTLE_SETTLEMENT \<or>
                it_content_sha256 row \<noteq> ContentSHA256 (so_sha s) MSG_BATTLE_SETTLEMENT (br_issued_at_ms req) (br_settlement_payload req) \<or>
                it_payload row \<noteq> br_settlement_payload req \<or> it_issued_at_ms row \<noteq> br_issued_at_ms req
             then Inl ErrReceiptConflict
             else Inr (\<lparr>bp_seq = it_seq row, bp_state = it_state row, bp_content_sha256 = it_content_sha256 row,
                       bp_error = None\<rparr>, db))))"

definition LookupBattleSettlement ::
  "Store \<Rightarrow> (nat \<Rightarrow> tx_try) \<Rightarrow> BattleSettlementInboxRequest \<Rightarrow> inbox_db \<Rightarrow>
   (inbox_error + BattleSettlementInboxResponse) \<times> inbox_db" where
  "LookupBattleSettlement s tries req db =
     (if \<not> validateBattleOriginal (so_decoder s) req then (Inl ErrBattleOriginal, db)
      else withPlayerTx tries (br_player_id req) (lookup_battle s req) db)"

section \<open>Fetch\<close>

definition FetchDefaultItems :: nat where "FetchDefaultItems = 16"
definition FetchMaxItems :: nat where "FetchMaxItems = 16"
definition AckMaxDecisions :: nat where "AckMaxDecisions = 32"
definition ListDefaultLimit :: nat where "ListDefaultLimit = 50"
definition ListMaxLimit :: nat where "ListMaxLimit = 200"

record FetchPlayerInboxRequest =
  fq_player_id :: u64
  fq_domain :: u32
  fq_owner_epoch :: u64
  fq_consumer_decided_through :: u64
  fq_max_items :: u32
  fq_admission :: "RoleAdmissionIdentity option"

record FetchPlayerInboxResponse =
  fs_error :: "tip option"
  fs_fence :: PlayerInboxFenceVerdict
  fs_items :: "PlayerInboxItem list"
  fs_has_more :: bool

definition fetch_reply :: "tip option \<Rightarrow> PlayerInboxFenceVerdict \<Rightarrow> FetchPlayerInboxResponse" where
  "fetch_reply code v = \<lparr>fs_error = code, fs_fence = v, fs_items = [], fs_has_more = False\<rparr>"

definition admission_fits :: "RoleAdmissionIdentity option \<Rightarrow> u64 \<Rightarrow> u64 \<Rightarrow> bool" where
  "admission_fits admission playerID reqEpoch \<longleftrightarrow>
     (case admission of None \<Rightarrow> playerID = 0 \<and> reqEpoch = 0
      | Some i \<Rightarrow> ra_player_id i = playerID \<and> ra_owner_epoch i = reqEpoch)"

definition pending_of :: "u64 \<Rightarrow> u32 \<Rightarrow> PlayerInboxItemRow \<Rightarrow> bool" where
  "pending_of playerID domain r \<longleftrightarrow>
     it_shard r = RowShard playerID \<and> it_player_id r = playerID \<and> it_domain r = domain \<and> it_state r = ITEM_PENDING"

text \<open>The column is an unsigned 32-bit integer; incrementing its largest value is out of range.\<close>

definition mark_delivered :: "u64 \<Rightarrow> u64 \<Rightarrow> PlayerInboxItemRow \<Rightarrow> PlayerInboxItemRow" where
  "mark_delivered reqEpoch now r =
     r \<lparr>it_delivery_count := it_delivery_count r + 1, it_last_delivered_epoch := reqEpoch,
        it_last_delivered_ms := now, it_updated_ms := now\<rparr>"

fun deliver_rows ::
  "AccountRoleOwnership \<Rightarrow> u64 \<Rightarrow> u64 \<Rightarrow> PlayerInboxItemRow list \<Rightarrow> inbox_db \<Rightarrow>
   inbox_error + (PlayerInboxItem list \<times> inbox_db)" where
  "deliver_rows original reqEpoch now [] db = Inr ([], db)"
| "deliver_rows original reqEpoch now (row # rows) db =
     sum_bind (requireItemOriginal (Some row) original) (\<lambda>_.
     if \<exists>r \<in> set (db_items db). itemPK (it_shard row) (it_player_id row) (it_domain row) (it_seq row) r \<and>
          it_state r = ITEM_PENDING \<and> it_delivery_count r = - 1
     then Inl (MySQL 1264)
     else sum_bind (update_item (it_shard row) (it_player_id row) (it_domain row) (it_seq row)
            (\<lambda>r. it_state r = ITEM_PENDING) (mark_delivered reqEpoch now) db) (\<lambda>db1.
     sum_bind (deliver_rows original reqEpoch now rows db1) (\<lambda>(items, db2).
     Inr (deliveredItem row # items, db2))))"

text \<open>The part after the fence has let the request through.\<close>

definition fetch_serve ::
  "FetchPlayerInboxRequest \<Rightarrow> tx_try \<Rightarrow> AccountRoleOwnership \<Rightarrow> PlayerInboxFenceVerdict \<Rightarrow> PlayerInboxStream \<Rightarrow>
   inbox_db \<Rightarrow> inbox_error + ((PlayerInboxFenceVerdict \<times> PlayerInboxItem list \<times> bool) \<times> inbox_db)" where
  "fetch_serve req t original verdict st db =
     (let playerID = fq_player_id req; domain = fq_domain req; reqEpoch = fq_owner_epoch req;
          now = nowMs (tt_now t 0);
          maxItems = clampFetchItems (fq_max_items req) FetchDefaultItems FetchMaxItems in
      case RaiseNextSeq (ps_next_seq st) (fq_consumer_decided_through req) of (nextSeq, raised) \<Rightarrow>
      sum_bind (queryItems (take (maxItems + 1) (sort_key it_seq (filter (pending_of playerID domain) (db_items db)))))
        (\<lambda>read.
      case splitPage read maxItems of (pending, hasMore) \<Rightarrow>
      sum_bind (deliver_rows original reqEpoch now pending db) (\<lambda>(items, db1).
      case fetchStreamUpdate verdict (ps_fence_epoch st) reqEpoch nextSeq raised of (write, newFence, newNextSeq) \<Rightarrow>
      if \<not> write then Inr ((verdict, items, hasMore), db1)
      else sum_bind (update_stream (RowShard playerID) playerID domain
             (\<lambda>s. s \<lparr>ps_fence_epoch := newFence, ps_next_seq := newNextSeq, ps_updated_ms := now\<rparr>) db1)
             (\<lambda>db2. Inr ((verdict, items, hasMore), db2)))))"

definition fetch_tx ::
  "FetchPlayerInboxRequest \<Rightarrow> tx_try \<Rightarrow> AccountRoleOwnership \<Rightarrow> inbox_db \<Rightarrow>
   inbox_error + ((PlayerInboxFenceVerdict \<times> PlayerInboxItem list \<times> bool) \<times> inbox_db)" where
  "fetch_tx req t original db =
     sum_bind (VerifyAdmission db original (fq_admission req)) (\<lambda>_.
     sum_bind (requirePendingOriginalsTx db original) (\<lambda>_.
     sum_bind (lockStream db (RowShard (fq_player_id req)) (fq_player_id req) (fq_domain req)) (\<lambda>locked.
     case locked of None \<Rightarrow> Inr ((FENCE_NO_STREAM, [], False), db)
     | Some st \<Rightarrow>
       let verdict = DecideFence (fq_owner_epoch req) (ps_fence_epoch st) (fq_owner_epoch req) in
       if \<not> FenceAllows verdict then Inr ((verdict, [], False), db)
       else fetch_serve req t original verdict st db)))"

definition Fetch ::
  "Store \<Rightarrow> (nat \<Rightarrow> tx_try) \<Rightarrow> FetchPlayerInboxRequest \<Rightarrow> inbox_db \<Rightarrow>
   (inbox_error + FetchPlayerInboxResponse) \<times> inbox_db" where
  "Fetch s tries req db =
     (if Registry_Domain (so_registry s) (fq_domain req) = None \<or> fq_player_id req = 0
      then (Inr (fetch_reply (Some ErrInvalidParameter) FENCE_UNSPECIFIED), db)
      else if fq_owner_epoch req = 0
      then (Inr (fetch_reply (Some ErrEpochRequired) FENCE_EPOCH_REQUIRED), db)
      else if \<not> admission_fits (fq_admission req) (fq_player_id req) (fq_owner_epoch req)
      then (Inl ErrOriginalRole, db)
      else case withPlayerTx tries (fq_player_id req) (fetch_tx req) db of
        (Inl e, db1) \<Rightarrow> (Inl e, db1)
      | (Inr (verdict, items, hasMore), db1) \<Rightarrow>
          if verdict = FENCE_NO_STREAM then (Inr (fetch_reply None verdict), db1)
          else if \<not> FenceAllows verdict then (Inr (fetch_reply (fenceRejectTip verdict) verdict), db1)
          else (Inr \<lparr>fs_error = None, fs_fence = verdict, fs_items = items, fs_has_more = hasMore\<rparr>, db1))"

section \<open>Ack\<close>

record AckPlayerInboxRequest =
  aq_player_id :: u64
  aq_domain :: u32
  aq_owner_epoch :: u64
  aq_decisions :: "PlayerInboxDecisionReport list"
  aq_admission :: "RoleAdmissionIdentity option"

record PlayerInboxAckItem =
  ai_seq :: u64
  ai_result :: PlayerInboxAckResult
  ai_state :: PlayerInboxItemState

record AckPlayerInboxResponse =
  as_error :: "tip option"
  as_fence :: PlayerInboxFenceVerdict
  as_results :: "PlayerInboxAckItem list"

definition battle_not_applied :: "PlayerInboxItemRow \<Rightarrow> PlayerInboxDecisionReport \<Rightarrow> bool" where
  "battle_not_applied row report \<longleftrightarrow>
     it_msg_type row = MSG_BATTLE_SETTLEMENT \<and> dr_outcome report \<noteq> OUTCOME_APPLIED"

definition finalize_row ::
  "PlayerInboxItemState \<Rightarrow> u64 \<Rightarrow> u32 \<Rightarrow> u64 \<Rightarrow> PlayerInboxItemRow \<Rightarrow> PlayerInboxItemRow" where
  "finalize_row newState reqEpoch reason now r =
     r \<lparr>it_state := newState, it_finalized_by := FINALIZER_CONSUMER, it_decided_epoch := reqEpoch,
        it_outcome_reason := reason, it_updated_ms := now\<rparr>"

text \<open>The loop over the reports, with the rows read before it: results, number finalised, database.\<close>

fun ack_rows ::
  "u64 \<Rightarrow> u32 \<Rightarrow> u64 \<Rightarrow> u64 \<Rightarrow> AccountRoleOwnership \<Rightarrow> (u64 \<Rightarrow> PlayerInboxItemRow option) \<Rightarrow>
   PlayerInboxDecisionReport list \<Rightarrow> inbox_db \<Rightarrow> inbox_error + (PlayerInboxAckItem list \<times> u32 \<times> inbox_db)" where
  "ack_rows playerID domain reqEpoch now original rows [] db = Inr ([], 0, db)"
| "ack_rows playerID domain reqEpoch now original rows (report # reports) db =
     (let row = rows (dr_seq report); d = decideAck row report in
      sum_bind (requireItemOriginal row original) (\<lambda>_.
      case row of
        Some r \<Rightarrow>
          if battle_not_applied r report
          then sum_bind (ack_rows playerID domain reqEpoch now original rows reports db) (\<lambda>(res, n, db1).
                 Inr (\<lparr>ai_seq = dr_seq report, ai_result = ACK_CONFLICT, ai_state = it_state r\<rparr> # res, n, db1))
          else if ad_finalize d
          then sum_bind (update_item (RowShard playerID) playerID domain (dr_seq report)
                 (\<lambda>r. it_state r = ITEM_PENDING)
                 (finalize_row (ad_newState d) reqEpoch (ackOutcomeReason report) now) db) (\<lambda>db1.
               sum_bind (ack_rows playerID domain reqEpoch now original rows reports db1) (\<lambda>(res, n, db2).
                 Inr (\<lparr>ai_seq = dr_seq report, ai_result = ad_result d, ai_state = ad_state d\<rparr> # res, n + 1, db2)))
          else sum_bind (ack_rows playerID domain reqEpoch now original rows reports db) (\<lambda>(res, n, db1).
                 Inr (\<lparr>ai_seq = dr_seq report, ai_result = ad_result d, ai_state = ad_state d\<rparr> # res, n, db1))
      | None \<Rightarrow> sum_bind (ack_rows playerID domain reqEpoch now original rows reports db) (\<lambda>(res, n, db1).
                 Inr (\<lparr>ai_seq = dr_seq report, ai_result = ad_result d, ai_state = ad_state d\<rparr> # res, n, db1))))"

definition ack_serve ::
  "AckPlayerInboxRequest \<Rightarrow> tx_try \<Rightarrow> AccountRoleOwnership \<Rightarrow> PlayerInboxFenceVerdict \<Rightarrow> PlayerInboxStream \<Rightarrow>
   inbox_db \<Rightarrow> inbox_error + ((PlayerInboxFenceVerdict \<times> PlayerInboxAckItem list) \<times> inbox_db)" where
  "ack_serve req t original verdict st db =
     (let playerID = aq_player_id req; domain = aq_domain req; reqEpoch = aq_owner_epoch req;
          shard = RowShard playerID in
      sum_bind (readItemsBySeq db shard playerID domain (map dr_seq (aq_decisions req))) (\<lambda>rows.
      let now = nowMs (tt_now t 0) in
      sum_bind (ack_rows playerID domain reqEpoch now original rows (aq_decisions req) db) (\<lambda>(results, finalized, db1).
      case ackStreamUpdate verdict (ps_open_count st) finalized (ps_fence_epoch st) reqEpoch of
        (write, newOpen, newFence, underflow) \<Rightarrow>
      if \<not> write then Inr ((verdict, results), db1)
      else sum_bind (update_stream shard playerID domain
             (\<lambda>s. s \<lparr>ps_open_count := newOpen, ps_fence_epoch := newFence, ps_updated_ms := now\<rparr>) db1)
             (\<lambda>db2. Inr ((verdict, results), db2)))))"

definition ack_tx ::
  "AckPlayerInboxRequest \<Rightarrow> tx_try \<Rightarrow> AccountRoleOwnership \<Rightarrow> inbox_db \<Rightarrow>
   inbox_error + ((PlayerInboxFenceVerdict \<times> PlayerInboxAckItem list) \<times> inbox_db)" where
  "ack_tx req t original db =
     sum_bind (VerifyAdmission db original (aq_admission req)) (\<lambda>_.
     sum_bind (requirePendingOriginalsTx db original) (\<lambda>_.
     sum_bind (lockStream db (RowShard (aq_player_id req)) (aq_player_id req) (aq_domain req)) (\<lambda>locked.
     case locked of
       None \<Rightarrow> Inr ((FENCE_NO_STREAM, map (\<lambda>r. \<lparr>ai_seq = dr_seq r, ai_result = ACK_UNKNOWN_SEQ,
                                                   ai_state = ITEM_UNSPECIFIED\<rparr>) (aq_decisions req)), db)
     | Some st \<Rightarrow>
       let verdict = DecideFence (aq_owner_epoch req) (ps_fence_epoch st) (aq_owner_epoch req) in
       if \<not> FenceAllows verdict then Inr ((verdict, []), db)
       else ack_serve req t original verdict st db)))"

definition Ack_items ::
  "Store \<Rightarrow> (nat \<Rightarrow> tx_try) \<Rightarrow> AckPlayerInboxRequest \<Rightarrow> inbox_db \<Rightarrow>
   (inbox_error + AckPlayerInboxResponse) \<times> inbox_db" where
  "Ack_items s tries req db =
     (if Registry_Domain (so_registry s) (aq_domain req) = None \<or> aq_player_id req = 0 \<or>
         \<not> validateAckReports (aq_decisions req) AckMaxDecisions
      then (Inr \<lparr>as_error = Some ErrInvalidParameter, as_fence = FENCE_UNSPECIFIED, as_results = []\<rparr>, db)
      else if aq_owner_epoch req = 0
      then (Inr \<lparr>as_error = Some ErrEpochRequired, as_fence = FENCE_EPOCH_REQUIRED, as_results = []\<rparr>, db)
      else if \<not> admission_fits (aq_admission req) (aq_player_id req) (aq_owner_epoch req)
      then (Inl ErrOriginalRole, db)
      else case withPlayerTx tries (aq_player_id req) (ack_tx req) db of
        (Inl e, db1) \<Rightarrow> (Inl e, db1)
      | (Inr (verdict, results), db1) \<Rightarrow>
          if verdict = FENCE_NO_STREAM
          then (Inr \<lparr>as_error = None, as_fence = verdict, as_results = results\<rparr>, db1)
          else if \<not> FenceAllows verdict
          then (Inr \<lparr>as_error = fenceRejectTip verdict, as_fence = verdict, as_results = []\<rparr>, db1)
          else (Inr \<lparr>as_error = None, as_fence = verdict, as_results = results\<rparr>, db1))"

section \<open>Void\<close>

record VoidParams =
  vp_player_id :: u64
  vp_domain :: u32
  vp_seq :: u64
  vp_reason :: PlayerInboxVoidReason
  vp_operator :: bytes
  vp_note :: bytes
  vp_peer_addr :: bytes
  vp_mode :: PlayerInboxVoidMode

record VoidPlayerInboxItemResponse =
  vr_error :: "tip option"
  vr_state :: PlayerInboxItemState
  vr_void_requested :: bool
  vr_force_verdict :: PlayerInboxForceVoidVerdict

definition void_reject :: "tip \<Rightarrow> VoidPlayerInboxItemResponse" where
  "void_reject code = \<lparr>vr_error = Some code, vr_state = ITEM_UNSPECIFIED, vr_void_requested = False,
                       vr_force_verdict = FORCE_VOID_UNSPECIFIED\<rparr>"

definition void_audit :: "VoidParams \<Rightarrow> PlayerInboxAuditAction \<Rightarrow> u64 \<Rightarrow> PlayerInboxAudit" where
  "void_audit p action now =
     \<lparr>pa_shard = 0, pa_player_id = vp_player_id p, pa_domain = vp_domain p, pa_seq = vp_seq p,
      pa_action = action, pa_operator = vp_operator p, pa_peer_addr = vp_peer_addr p, pa_reason = vp_note p,
      pa_created_ms = now, pa_msg_type = 0, pa_request_id = 0, pa_issued_at_ms = 0, pa_content_sha256 = [],
      pa_payload = [], pa_void_reason = vp_reason p\<rparr>"

definition void_row :: "PlayerInboxVoidReason \<Rightarrow> u64 \<Rightarrow> PlayerInboxItemRow \<Rightarrow> PlayerInboxItemRow" where
  "void_row reason now r =
     r \<lparr>it_state := ITEM_VOIDED, it_finalized_by := FINALIZER_ADMIN, it_void_reason := reason, it_updated_ms := now\<rparr>"

text \<open>Finalising one item and taking it off the open count, shared by both modes.\<close>

definition void_and_close ::
  "VoidParams \<Rightarrow> (PlayerInboxItemRow \<Rightarrow> bool) \<Rightarrow> PlayerInboxStream \<Rightarrow> u64 \<Rightarrow> inbox_db \<Rightarrow> inbox_error + inbox_db" where
  "void_and_close p cond st now db =
     sum_bind (update_item (RowShard (vp_player_id p)) (vp_player_id p) (vp_domain p) (vp_seq p) cond
                 (void_row (vp_reason p) now) db) (\<lambda>db1.
     update_stream (RowShard (vp_player_id p)) (vp_player_id p) (vp_domain p)
       (\<lambda>s. s \<lparr>ps_open_count := fst (subtractOpenCount (ps_open_count st) 1), ps_updated_ms := now\<rparr>) db1)"

definition void_tx ::
  "VoidParams \<Rightarrow> tx_try \<Rightarrow> AccountRoleOwnership \<Rightarrow> inbox_db \<Rightarrow>
   inbox_error + ((voidAction \<times> PlayerInboxItemState) \<times> inbox_db)" where
  "void_tx p t original db =
     (let shard = RowShard (vp_player_id p); now = nowMs (tt_now t 0) in
      sum_bind (requirePendingOriginalsTx db original) (\<lambda>_.
      sum_bind (lockStream db shard (vp_player_id p) (vp_domain p)) (\<lambda>locked.
      case locked of None \<Rightarrow> Inr ((voidNotFound, ITEM_UNSPECIFIED), db)
      | Some st \<Rightarrow>
        sum_bind (readItem db shard (vp_player_id p) (vp_domain p) (vp_seq p)) (\<lambda>row.
        sum_bind (requireItemOriginal row original) (\<lambda>_.
        case decideVoid row of
          voidNotFound \<Rightarrow> Inr ((voidNotFound, ITEM_UNSPECIFIED), db)
        | voidTerminal \<Rightarrow> Inr ((voidTerminal, case row of Some r \<Rightarrow> it_state r | None \<Rightarrow> ITEM_UNSPECIFIED), db)
        | voidDirect \<Rightarrow>
            sum_bind (void_and_close p (\<lambda>r. it_state r = ITEM_PENDING \<and> it_delivery_count r = 0) st now db) (\<lambda>db1.
            sum_bind (insertAuditForItem row (void_audit p AUDIT_VOID now) db1) (\<lambda>db2.
            Inr ((voidDirect, ITEM_VOIDED), db2)))
        | voidDirective \<Rightarrow>
            sum_bind (update_item shard (vp_player_id p) (vp_domain p) (vp_seq p) (\<lambda>r. it_state r = ITEM_PENDING)
              (\<lambda>r. r \<lparr>it_directive := DIRECTIVE_VOID, it_void_reason := vp_reason p, it_updated_ms := now\<rparr>) db) (\<lambda>db1.
            sum_bind (insertAuditForItem row (void_audit p AUDIT_VOID now) db1) (\<lambda>db2.
            Inr ((voidDirective, ITEM_PENDING), db2)))
        | voidAlreadyRequested \<Rightarrow>
            sum_bind (insertAuditForItem row (void_audit p AUDIT_VOID now) db) (\<lambda>db1.
            Inr ((voidAlreadyRequested, ITEM_PENDING), db1))
        | action \<Rightarrow>
            sum_bind (insertAuditForItem row (void_audit p AUDIT_VOID now) db) (\<lambda>db1.
            Inr ((action, ITEM_UNSPECIFIED), db1)))))))"

definition force_void_tx ::
  "VoidParams \<Rightarrow> PlayerInboxLedgerComp option \<Rightarrow> tx_try \<Rightarrow> AccountRoleOwnership \<Rightarrow> inbox_db \<Rightarrow>
   inbox_error + ((voidAction \<times> forceVoidProof \<times> PlayerInboxItemState) \<times> inbox_db)" where
  "force_void_tx p ledger t original db =
     (let shard = RowShard (vp_player_id p); now = nowMs (tt_now t 0) in
      sum_bind (requirePendingOriginalsTx db original) (\<lambda>_.
      sum_bind (lockStream db shard (vp_player_id p) (vp_domain p)) (\<lambda>locked.
      case locked of None \<Rightarrow> Inr ((voidNotFound, fp_only FORCE_VOID_UNSPECIFIED, ITEM_UNSPECIFIED), db)
      | Some st \<Rightarrow>
        sum_bind (readItem db shard (vp_player_id p) (vp_domain p) (vp_seq p)) (\<lambda>row.
        sum_bind (requireItemOriginal row original) (\<lambda>_.
        case decideForceVoidLocked row ledger of (action, proof) \<Rightarrow>
        let state = (case row of Some r \<Rightarrow> it_state r | None \<Rightarrow> ITEM_UNSPECIFIED);
            requestID = (case row of Some r \<Rightarrow> it_request_id r | None \<Rightarrow> 0) in
        if action \<noteq> voidForced then Inr ((action, proof, state), db)
        else
          sum_bind (void_and_close p (\<lambda>r. it_state r = ITEM_PENDING \<and> it_delivery_count r > 0 \<and>
                                         it_request_id r = requestID) st now db) (\<lambda>db1.
          sum_bind (insertAuditForItem row (void_audit p AUDIT_FORCE_VOID now) db1) (\<lambda>db2.
          Inr ((action, proof, ITEM_VOIDED), db2))))))))"

text \<open>\<open>ledgers\<close> is the answer of the ledger reader: nothing when there is no reader, an error, or the
  persisted ledger if one was found.\<close>

type_synonym ledger_answer = "(inbox_error + PlayerInboxLedgerComp option) option"

definition forceVoid ::
  "(nat \<Rightarrow> tx_try) \<Rightarrow> VoidParams \<Rightarrow> ledger_answer \<Rightarrow> inbox_db \<Rightarrow>
   (inbox_error + VoidPlayerInboxItemResponse) \<times> inbox_db" where
  "forceVoid tries p ledgers db =
     (case ValidateText (vp_note p) MaxReasonBytes True of Some code \<Rightarrow> (Inr (void_reject code), db)
      | None \<Rightarrow>
        (case ledgers of None \<Rightarrow> (Inl ErrNoLedgerReader, db)
         | Some (Inl e) \<Rightarrow> (Inl e, db)
         | Some (Inr ledger) \<Rightarrow>
           (case withPlayerTx tries (vp_player_id p) (force_void_tx p ledger) db of
              (Inl e, db1) \<Rightarrow> (Inl e, db1)
            | (Inr (action, proof, state), db1) \<Rightarrow>
                let out = voidOutcomeOf action state in
                (Inr \<lparr>vr_error = vo_tip out, vr_state = vo_state out, vr_void_requested = vo_voidRequested out,
                     vr_force_verdict = fp_verdict proof\<rparr>, db1))))"

definition Void ::
  "Store \<Rightarrow> (nat \<Rightarrow> tx_try) \<Rightarrow> VoidParams \<Rightarrow> ledger_answer \<Rightarrow> inbox_db \<Rightarrow>
   (inbox_error + VoidPlayerInboxItemResponse) \<times> inbox_db" where
  "Void s tries p ledgers db =
     (if vp_domain p = DOMAIN_SCENE_BATTLE_SETTLEMENT then (Inr (void_reject ErrItemStateConflict), db)
      else if Registry_Domain (so_registry s) (vp_domain p) = None \<or> vp_player_id p = 0 \<or> vp_seq p = 0 \<or>
         vp_reason p = VOID_UNSPECIFIED \<or> (case vp_reason p of VOID_OTHER _ \<Rightarrow> True | _ \<Rightarrow> False) \<or>
         (case vp_mode p of VOID_MODE_OTHER _ \<Rightarrow> True | _ \<Rightarrow> False)
      then (Inr (void_reject ErrInvalidParameter), db)
      else case ValidateText (vp_operator p) MaxOperatorBytes True of Some code \<Rightarrow> (Inr (void_reject code), db)
      | None \<Rightarrow>
        (case ValidateText (vp_note p) MaxReasonBytes False of Some code \<Rightarrow> (Inr (void_reject code), db)
         | None \<Rightarrow>
         if vp_mode p = VOID_MODE_FORCE_MISMATCH then forceVoid tries p ledgers db
         else case withPlayerTx tries (vp_player_id p) (void_tx p) db of
           (Inl e, db1) \<Rightarrow> (Inl e, db1)
         | (Inr (action, state), db1) \<Rightarrow>
             let out = voidOutcomeOf action state in
             (Inr \<lparr>vr_error = vo_tip out, vr_state = vo_state out, vr_void_requested = vo_voidRequested out,
                  vr_force_verdict = FORCE_VOID_UNSPECIFIED\<rparr>, db1)))"

section \<open>Queries\<close>

record PlayerInboxItemView =
  iv_domain :: u32
  iv_seq :: u64
  iv_msg_type :: u32
  iv_producer_kind :: u32
  iv_request_id :: u64
  iv_payload :: bytes
  iv_state :: PlayerInboxItemState
  iv_directive :: PlayerInboxDirective
  iv_void_reason :: PlayerInboxVoidReason
  iv_delivery_count :: u32
  iv_last_delivered_epoch :: u64
  iv_last_delivered_ms :: u64
  iv_outcome_reason :: u32
  iv_finalized_by :: PlayerInboxFinalizer
  iv_decided_epoch :: u64
  iv_issued_at_ms :: u64
  iv_created_ms :: u64
  iv_updated_ms :: u64
  iv_operator_name :: bytes
  iv_note :: bytes

definition ItemView :: "PlayerInboxItemRow \<Rightarrow> PlayerInboxItemView" where
  "ItemView row =
     \<lparr>iv_domain = it_domain row, iv_seq = it_seq row, iv_msg_type = it_msg_type row,
      iv_producer_kind = it_producer_kind row, iv_request_id = it_request_id row, iv_payload = it_payload row,
      iv_state = it_state row, iv_directive = it_directive row, iv_void_reason = it_void_reason row,
      iv_delivery_count = it_delivery_count row, iv_last_delivered_epoch = it_last_delivered_epoch row,
      iv_last_delivered_ms = it_last_delivered_ms row, iv_outcome_reason = it_outcome_reason row,
      iv_finalized_by = it_finalized_by row, iv_decided_epoch = it_decided_epoch row,
      iv_issued_at_ms = it_issued_at_ms row, iv_created_ms = it_created_ms row, iv_updated_ms = it_updated_ms row,
      iv_operator_name = it_operator_name row, iv_note = it_note row\<rparr>"

definition Lookup :: "inbox_db \<Rightarrow> u64 \<Rightarrow> u32 \<Rightarrow> u64 \<Rightarrow> inbox_error + (tip + PlayerInboxItemView)" where
  "Lookup db playerID producer requestID =
     (if playerID = 0 \<or> requestID = 0 \<or> \<not> validProducer producer then Inr (Inl ErrInvalidParameter)
      else sum_bind (readItemByRequest db (RowShard playerID) playerID producer requestID)
        (\<lambda>row. Inr (case row of None \<Rightarrow> Inl ErrItemNotFound | Some r \<Rightarrow> Inr (ItemView r))))"

definition List_items ::
  "Store \<Rightarrow> inbox_db \<Rightarrow> u64 \<Rightarrow> u32 \<Rightarrow> u64 \<Rightarrow> PlayerInboxItemState \<Rightarrow> u32 \<Rightarrow>
   inbox_error + (tip + PlayerInboxItemView list \<times> bool)" where
  "List_items s db playerID domain afterSeq state limit =
     (if Registry_Domain (so_registry s) domain = None \<or> playerID = 0 then Inr (Inl ErrInvalidParameter)
      else if (case state of ITEM_OTHER _ \<Rightarrow> True | _ \<Rightarrow> False) then Inr (Inl ErrInvalidParameter)
      else
        let n = clampFetchItems limit ListDefaultLimit ListMaxLimit in
        sum_bind (queryItems (take (n + 1) (sort_key it_seq
          (filter (\<lambda>r. it_shard r = RowShard playerID \<and> it_player_id r = playerID \<and> it_domain r = domain \<and>
                      it_seq r > afterSeq \<and> (state = ITEM_UNSPECIFIED \<or> it_state r = state)) (db_items db)))))
          (\<lambda>rows. case splitPage rows n of (page, hasMore) \<Rightarrow> Inr (Inr (map ItemView page, hasMore))))"

record pendingAggregate =
  ag_deliveredUnacked :: u32
  ag_oldestCreatedMs :: u64

record PlayerInboxStreamSummary =
  sm_domain :: u32
  sm_open_count :: u32
  sm_next_seq :: u64
  sm_fence_epoch :: u64
  sm_delivered_unacked_count :: u32
  sm_oldest_pending_created_ms :: u64
  sm_notify_due_ms :: u64

definition summarizeStreams ::
  "PlayerInboxStream list \<Rightarrow> (u32 \<Rightarrow> pendingAggregate) \<Rightarrow> PlayerInboxStreamSummary list \<times> u64" where
  "summarizeStreams streams aggs =
     (map (\<lambda>st. \<lparr>sm_domain = ps_domain st, sm_open_count = ps_open_count st, sm_next_seq = ps_next_seq st,
                  sm_fence_epoch = ps_fence_epoch st,
                  sm_delivered_unacked_count = ag_deliveredUnacked (aggs (ps_domain st)),
                  sm_oldest_pending_created_ms = ag_oldestCreatedMs (aggs (ps_domain st)),
                  sm_notify_due_ms = ps_notify_due_ms st\<rparr>) streams,
      foldl (\<lambda>m st. max m (ps_fence_epoch st)) 0 streams)"

definition pending_aggregate :: "inbox_db \<Rightarrow> u64 \<Rightarrow> u32 \<Rightarrow> pendingAggregate" where
  "pending_aggregate db playerID domain =
     (case filter (pending_of playerID domain) (db_items db) of
        [] \<Rightarrow> \<lparr>ag_deliveredUnacked = 0, ag_oldestCreatedMs = 0\<rparr>
      | r # rs \<Rightarrow>
          \<lparr>ag_deliveredUnacked = of_nat (length (filter (\<lambda>r. it_delivery_count r > 0) (r # rs))),
           ag_oldestCreatedMs = foldl min (it_created_ms r) (map it_created_ms rs)\<rparr>)"

definition Summary ::
  "inbox_db \<Rightarrow> u64 \<Rightarrow> inbox_error + (tip + PlayerInboxStreamSummary list \<times> u64)" where
  "Summary db playerID =
     (if playerID = 0 then Inr (Inl ErrInvalidParameter)
      else
        let streams = sort_key ps_domain (filter (\<lambda>st. ps_shard st = RowShard playerID \<and> ps_player_id st = playerID)
                        (db_streams db)) in
        if list_all (\<lambda>st. checkRowShard (ps_shard st) (ps_player_id st) = Inr ()) streams
        then Inr (Inr (summarizeStreams streams (pending_aggregate db playerID)))
        else Inl ErrCorruptShard)"

definition playerItemsLimit :: nat where "playerItemsLimit = 5000"

definition playerItems :: "inbox_db \<Rightarrow> u64 \<Rightarrow> u32 \<Rightarrow> inbox_error + (PlayerInboxItemRow list \<times> bool)" where
  "playerItems db playerID domain =
     sum_bind (queryItems (take (playerItemsLimit + 1) (sort_key (\<lambda>r. (it_domain r, it_seq r))
       (filter (\<lambda>r. it_shard r = RowShard playerID \<and> it_player_id r = playerID \<and>
                   (domain = 0 \<or> it_domain r = domain)) (db_items db)))))
       (\<lambda>rows. Inr (splitPage rows playerItemsLimit))"

fun read_streams ::
  "inbox_db \<Rightarrow> u64 \<Rightarrow> u32 list \<Rightarrow> inbox_error + (u32 \<Rightarrow> PlayerInboxStream option)" where
  "read_streams db playerID [] = Inr (\<lambda>_. None)"
| "read_streams db playerID (d # ds) =
     sum_bind (readStream db (RowShard playerID) playerID d) (\<lambda>st.
     sum_bind (read_streams db playerID ds) (\<lambda>streams. Inr (if st = None then streams else streams(d := st))))"

record ReconcilePlayerInboxResponse =
  rr_error :: "tip option"
  rr_ledger_found :: bool
  rr_cursors :: "(u32 \<times> u64 \<times> u64) list"
  rr_diffs :: "(PlayerInboxItemRow \<times> PlayerInboxReconcileDiffKind) list"

definition ReconcilePlayer ::
  "Store \<Rightarrow> inbox_db \<Rightarrow> u64 \<Rightarrow> u32 \<Rightarrow> ledger_answer \<Rightarrow> inbox_error + ReconcilePlayerInboxResponse" where
  "ReconcilePlayer s db playerID domain ledgers =
     (let resp = \<lparr>rr_error = None, rr_ledger_found = False, rr_cursors = [], rr_diffs = []\<rparr> in
      if playerID = 0 then Inr (resp \<lparr>rr_error := Some ErrInvalidParameter\<rparr>)
      else if domain \<noteq> 0 \<and> Registry_Domain (so_registry s) domain = None
      then Inr (resp \<lparr>rr_error := Some ErrInvalidParameter\<rparr>)
      else case ledgers of None \<Rightarrow> Inl ErrNoLedgerReader
        | Some (Inl e) \<Rightarrow> Inl e
        | Some (Inr None) \<Rightarrow> Inr resp
        | Some (Inr (Some ledger)) \<Rightarrow>
          if \<not> validLedger ledger then Inl ErrLedgerInvalid
          else sum_bind (playerItems db playerID domain) (\<lambda>(rows, truncated).
            let domains = (if domain = 0 then Registry_Domains (so_registry s) else [domain]) in
            sum_bind (read_streams db playerID domains) (\<lambda>streams.
            case reconcileReport domains streams ledger rows of (cursors, diffs) \<Rightarrow>
              Inr (resp \<lparr>rr_ledger_found := True, rr_cursors := cursors, rr_diffs := diffs\<rparr>))))"

definition ref_key :: "FinalizedRef \<Rightarrow> u64 \<times> u64 \<times> u32 \<times> u64" where
  "ref_key f = (fr_updated_ms f, fr_player_id f, fr_domain f, fr_seq f)"

text \<open>One page of finalised rows, newest first, after the key of the last row of the page before.\<close>

definition RecentlyFinalized ::
  "inbox_db \<Rightarrow> u32 \<Rightarrow> u64 \<Rightarrow> FinalizedRef option \<Rightarrow> nat \<Rightarrow> FinalizedRef list" where
  "RecentlyFinalized db shard sinceMs before limit =
     take limit (rev (sort_key ref_key (filter
       (\<lambda>f. case before of None \<Rightarrow> True | Some b \<Rightarrow> ref_key f < ref_key b)
       (map finalizedRefOfRow (filter (\<lambda>r. it_shard r = shard \<and> IsTerminalState (it_state r) \<and>
          it_updated_ms r \<ge> sinceMs \<and> it_finalized_by r = FINALIZER_CONSUMER) (db_items db))))))"

definition CheckRowShards :: "inbox_db \<Rightarrow> inbox_error + unit" where
  "CheckRowShards db =
     (if list_all (\<lambda>r. checkRowShard (ps_shard r) (ps_player_id r) = Inr ()) (db_streams db) \<and>
         list_all (\<lambda>r. checkRowShard (it_shard r) (it_player_id r) = Inr ()) (db_items db) \<and>
         list_all (\<lambda>r. checkRowShard (pa_shard r) (pa_player_id r) = Inr ()) (db_audits db)
      then Inr () else Inl ErrCorruptShard)"

end
