(* ===== verification/InboxInvariant.thy ===== *)
theory InboxInvariant
  imports InboxStore
begin

text \<open>
  What every committed transaction of the inbox store keeps.  \<open>inbox_inv\<close> is the consistency of the
  three tables: keys are unique, rows live in the shard of their player, a row is pending exactly while
  nobody has finalised it, each row has its stream, and the stream's counter, sequence and fence agree
  with its rows.  \<open>db_le\<close> says how a database may change: rows are never removed, their content never
  changes, a finalised row never changes at all, and fences and sequences only grow.
\<close>

section \<open>Keys, rows and streams\<close>

definition item_key :: "PlayerInboxItemRow \<Rightarrow> u64 \<times> u32 \<times> u64" where
  "item_key r = (it_player_id r, it_domain r, it_seq r)"

definition request_key :: "PlayerInboxItemRow \<Rightarrow> u64 \<times> u32 \<times> u64" where
  "request_key r = (it_player_id r, it_producer_kind r, it_request_id r)"

definition stream_key :: "PlayerInboxStream \<Rightarrow> u64 \<times> u32" where
  "stream_key st = (ps_player_id st, ps_domain st)"

definition in_stream :: "u64 \<Rightarrow> u32 \<Rightarrow> PlayerInboxItemRow \<Rightarrow> bool" where
  "in_stream pl d r \<longleftrightarrow> it_player_id r = pl \<and> it_domain r = d"

definition row_ok :: "PlayerInboxItemRow \<Rightarrow> bool" where
  "row_ok r \<longleftrightarrow>
     it_shard r = RowShard (it_player_id r) \<and> it_seq r \<noteq> 0 \<and>
     (it_state r = ITEM_PENDING \<or> IsTerminalState (it_state r)) \<and>
     (it_state r = ITEM_PENDING \<longleftrightarrow> it_finalized_by r = FINALIZER_UNSPECIFIED) \<and>
     (it_domain r = DOMAIN_SCENE_BATTLE_SETTLEMENT \<longleftrightarrow> it_msg_type r = MSG_BATTLE_SETTLEMENT) \<and>
     (it_msg_type r = MSG_BATTLE_SETTLEMENT \<longrightarrow>
        it_state r = ITEM_PENDING \<or> it_state r = ITEM_APPLIED \<and> it_finalized_by r = FINALIZER_CONSUMER)"

definition pend :: "PlayerInboxItemRow list \<Rightarrow> u64 \<Rightarrow> u32 \<Rightarrow> nat" where
  "pend rows pl d = length (filter (pending_of pl d) rows)"

definition stream_ok :: "PlayerInboxItemRow list \<Rightarrow> PlayerInboxStream \<Rightarrow> bool" where
  "stream_ok rows st \<longleftrightarrow>
     ps_shard st = RowShard (ps_player_id st) \<and>
     unat (ps_open_count st) = pend rows (ps_player_id st) (ps_domain st) \<and>
     ps_next_seq st \<noteq> 0 \<and> unat (ps_next_seq st) \<le> 2 ^ 63 + length rows + 1 \<and>
     (\<forall>r \<in> set rows. in_stream (ps_player_id st) (ps_domain st) r \<longrightarrow>
        it_seq r < ps_next_seq st \<and> it_last_delivered_epoch r \<le> ps_fence_epoch st \<and>
        it_decided_epoch r \<le> ps_fence_epoch st)"

definition inbox_inv :: "inbox_db \<Rightarrow> bool" where
  "inbox_inv db \<longleftrightarrow>
     distinct (map item_key (db_items db)) \<and> distinct (map request_key (db_items db)) \<and>
     distinct (map stream_key (db_streams db)) \<and>
     (\<forall>r \<in> set (db_items db). row_ok r \<and> (it_player_id r, it_domain r) \<in> stream_key ` set (db_streams db)) \<and>
     (\<forall>st \<in> set (db_streams db). stream_ok (db_items db) st)"

section \<open>How rows change\<close>

definition content :: "PlayerInboxItemRow \<Rightarrow> _" where
  "content r = (it_shard r, it_player_id r, it_domain r, it_seq r, it_msg_type r, it_producer_kind r,
     it_request_id r, it_content_sha256 r, it_payload r, it_issued_at_ms r, it_created_ms r,
     it_operator_name r, it_note r, it_owner_account r, it_owner_revision r)"

definition row_le :: "PlayerInboxItemRow \<Rightarrow> PlayerInboxItemRow \<Rightarrow> bool" where
  "row_le r r' \<longleftrightarrow> content r' = content r \<and> (it_state r \<noteq> ITEM_PENDING \<longrightarrow> r' = r) \<and>
     it_delivery_count r \<le> it_delivery_count r'"

definition stream_le :: "PlayerInboxStream \<Rightarrow> PlayerInboxStream \<Rightarrow> bool" where
  "stream_le s s' \<longleftrightarrow> stream_key s' = stream_key s \<and> ps_fence_epoch s \<le> ps_fence_epoch s' \<and>
     ps_next_seq s \<le> ps_next_seq s'"

definition db_le :: "inbox_db \<Rightarrow> inbox_db \<Rightarrow> bool" where
  "db_le db db' \<longleftrightarrow>
     (\<forall>r \<in> set (db_items db). \<exists>r' \<in> set (db_items db'). row_le r r') \<and>
     (\<forall>s \<in> set (db_streams db). \<exists>s' \<in> set (db_streams db'). stream_le s s')"

text \<open>A step of the rows inside one transaction: only rows of one stream change, only pending ones, and
  their epochs are the old ones or that of the request.\<close>

definition row_step :: "u64 \<Rightarrow> u32 \<Rightarrow> u64 \<Rightarrow> PlayerInboxItemRow \<Rightarrow> PlayerInboxItemRow \<Rightarrow> bool" where
  "row_step pl d e r r' \<longleftrightarrow>
     row_le r r' \<and> (\<not> in_stream pl d r \<longrightarrow> r' = r) \<and> (row_ok r \<longrightarrow> row_ok r') \<and>
     (it_last_delivered_epoch r' = it_last_delivered_epoch r \<or> it_last_delivered_epoch r' = e) \<and>
     (it_decided_epoch r' = it_decided_epoch r \<or> it_decided_epoch r' = e)"

abbreviation rows_step :: "u64 \<Rightarrow> u32 \<Rightarrow> u64 \<Rightarrow> inbox_db \<Rightarrow> inbox_db \<Rightarrow> bool" where
  "rows_step pl d e db db' \<equiv> list_all2 (row_step pl d e) (db_items db) (db_items db')"

lemma row_le_refl [simp]: "row_le r r"
  unfolding row_le_def by simp

lemma row_le_trans: "row_le a b \<Longrightarrow> row_le b c \<Longrightarrow> row_le a c"
  unfolding row_le_def by auto

lemma stream_le_refl [simp]: "stream_le s s"
  unfolding stream_le_def by simp

lemma stream_le_trans: "stream_le a b \<Longrightarrow> stream_le b c \<Longrightarrow> stream_le a c"
  unfolding stream_le_def by auto

lemma db_le_refl [simp]: "db_le db db"
  unfolding db_le_def by (meson row_le_refl stream_le_refl)

lemma db_le_subset: "set (db_items db) \<subseteq> set (db_items db') \<Longrightarrow> set (db_streams db) \<subseteq> set (db_streams db') \<Longrightarrow> db_le db db'"
  unfolding db_le_def by (meson row_le_refl stream_le_refl subsetD)

lemma db_le_trans: "db_le a b \<Longrightarrow> db_le b c \<Longrightarrow> db_le a c"
  unfolding db_le_def by (meson row_le_trans stream_le_trans)

lemma row_step_refl [simp]: "row_step pl d e r r"
  unfolding row_step_def by simp

lemma row_step_content: "row_step pl d e r r' \<Longrightarrow> content r' = content r"
  unfolding row_step_def row_le_def by simp

lemma content_keys:
  "content r' = content r \<Longrightarrow> item_key r' = item_key r \<and> request_key r' = request_key r \<and>
     in_stream pl d r' = in_stream pl d r \<and> it_seq r' = it_seq r \<and> it_player_id r' = it_player_id r \<and>
     it_domain r' = it_domain r"
  unfolding content_def item_key_def request_key_def in_stream_def by simp

lemma row_step_trans:
  assumes "row_step pl d e a b" and "row_step pl d e b c"
  shows "row_step pl d e a c"
proof -
  have le: "row_le a c" using assms row_le_trans unfolding row_step_def by blast
  have "in_stream pl d b = in_stream pl d a"
    using content_keys [OF row_step_content [OF assms(1)]] by blast
  then have "\<not> in_stream pl d a \<longrightarrow> c = a" using assms unfolding row_step_def by metis
  moreover have "row_ok a \<longrightarrow> row_ok c" using assms unfolding row_step_def by blast
  moreover have "it_last_delivered_epoch c = it_last_delivered_epoch a \<or> it_last_delivered_epoch c = e"
    using assms unfolding row_step_def by metis
  moreover have "it_decided_epoch c = it_decided_epoch a \<or> it_decided_epoch c = e"
    using assms unfolding row_step_def by metis
  ultimately show ?thesis using le unfolding row_step_def by blast
qed

lemma rows_step_refl [simp]: "list_all2 (row_step pl d e) xs xs"
  by (simp add: list_all2_refl)

lemma rows_step_trans:
  "list_all2 (row_step pl d e) xs ys \<Longrightarrow> list_all2 (row_step pl d e) ys zs \<Longrightarrow>
   list_all2 (row_step pl d e) xs zs"
  by (rule list_all2_trans [of "row_step pl d e" "row_step pl d e"]) (blast intro: row_step_trans)+

lemma rows_step_map:
  assumes "list_all2 (row_step pl d e) xs ys" and "\<And>r r'. content r' = content r \<Longrightarrow> k r' = k r"
  shows "map k ys = map k xs"
  using assms(1)
proof (induction rule: list_all2_induct)
  case (Cons x xs y ys)
  then show ?case using assms(2) [OF row_step_content [OF Cons(1)]] by simp
qed simp

lemma rows_step_D:
  "list_all2 (row_step pl d e) xs ys \<Longrightarrow> y \<in> set ys \<Longrightarrow> \<exists>x \<in> set xs. row_step pl d e x y"
  by (induction rule: list_all2_induct) auto

lemma rows_step_U:
  "list_all2 (row_step pl d e) xs ys \<Longrightarrow> x \<in> set xs \<Longrightarrow> \<exists>y \<in> set ys. row_step pl d e x y"
  by (induction rule: list_all2_induct) auto

lemma pend_other:
  assumes "list_all2 (row_step pl d e) xs ys" and "(pl', d') \<noteq> (pl, d)"
  shows "pend ys pl' d' = pend xs pl' d'"
  using assms(1)
proof (induction rule: list_all2_induct)
  case (Cons x xs y ys)
  have "pending_of pl' d' y = pending_of pl' d' x"
  proof (cases "in_stream pl d x")
    case True
    then have "\<not> in_stream pl' d' x" using assms(2) unfolding in_stream_def by auto
    moreover have "\<not> in_stream pl' d' y"
      using calculation content_keys [OF row_step_content [OF Cons(1)]] by blast
    ultimately show ?thesis unfolding pending_of_def in_stream_def by auto
  next
    case False
    then show ?thesis using Cons(1) unfolding row_step_def by simp
  qed
  then show ?case using Cons.IH unfolding pend_def by simp
qed (simp add: pend_def)

section \<open>Single statements\<close>

lemma update_item_D:
  assumes "update_item sh pl d s cond f db = Inr db'"
  shows "db' = db \<lparr>db_items := map (\<lambda>r. if itemPK sh pl d s r \<and> cond r then f r else r) (db_items db)\<rparr>"
    and "length (filter (\<lambda>r. (itemPK sh pl d s r \<and> cond r) \<and> f r \<noteq> r) (db_items db)) = 1"
  using assms unfolding update_item_def sql_update_def requireOneRow_def
  by (auto simp: sum_bind_Inr split: if_splits)

lemma update_stream_D:
  assumes "update_stream sh pl d f db = Inr db'"
  shows "db' = db \<lparr>db_streams := map (\<lambda>s. if streamPK sh pl d s then f s else s) (db_streams db)\<rparr>"
  using assms unfolding update_stream_def sql_update_def requireOneRow_def
  by (auto simp: sum_bind_Inr split: if_splits)

lemma insertAuditForItem_same:
  "insertAuditForItem item a db = Inr db' \<Longrightarrow> db_items db' = db_items db \<and> db_streams db' = db_streams db"
  unfolding insertAuditForItem_def by (auto split: option.splits if_splits)

lemma InsertAudit_same:
  "InsertAudit a db = Inr db' \<Longrightarrow> db_items db' = db_items db \<and> db_streams db' = db_streams db"
  unfolding InsertAudit_def using insertAuditForItem_same
  by (auto simp: sum_bind_Inr split: option.splits)

lemma update_item_rows:
  assumes "update_item sh pl d s cond f db = Inr db'"
    and "\<And>r. itemPK sh pl d s r \<Longrightarrow> cond r \<Longrightarrow> row_step pl d e r (f r)"
  shows "rows_step pl d e db db'" and "db_streams db' = db_streams db"
proof -
  note D = update_item_D(1) [OF assms(1)]
  show "rows_step pl d e db db'"
    unfolding D using assms(2) by (auto simp: list_all2_conv_all_nth)
  show "db_streams db' = db_streams db" unfolding D by simp
qed

text \<open>A pending row that stops being pending leaves the count of its stream, and only there.\<close>

lemma length_filter_split:
  "length (filter P xs) = length (filter (\<lambda>x. P x \<and> Q x) xs) + length (filter (\<lambda>x. P x \<and> \<not> Q x) xs)"
  by (induction xs) auto

lemma update_item_closes:
  assumes U: "update_item (RowShard pl) pl d s cond f db = Inr db'"
    and C: "\<And>r. cond r \<Longrightarrow> it_state r = ITEM_PENDING"
    and F: "\<And>r. it_state (f r) \<noteq> ITEM_PENDING"
  shows "pend (db_items db) pl d = Suc (pend (db_items db') pl d)"
proof -
  let ?P = "\<lambda>r. itemPK (RowShard pl) pl d s r \<and> cond r"
  note D = update_item_D [OF U]
  have ne: "f r \<noteq> r" if "?P r" for r using C F that by metis
  have "filter (\<lambda>r. ?P r \<and> f r \<noteq> r) (db_items db) = filter ?P (db_items db)"
    by (rule filter_cong) (use ne in auto)
  then have one: "length (filter ?P (db_items db)) = 1" using D(2) by simp
  have "filter (\<lambda>r. pending_of pl d r \<and> ?P r) (db_items db) = filter ?P (db_items db)"
    by (rule filter_cong) (use C in \<open>auto simp: pending_of_def itemPK_def\<close>)
  then have a: "length (filter (\<lambda>r. pending_of pl d r \<and> ?P r) (db_items db)) = 1" using one by simp
  have "length (filter (pending_of pl d) (map (\<lambda>r. if ?P r then f r else r) xs)) =
        length (filter (\<lambda>r. pending_of pl d r \<and> \<not> ?P r) xs)" for xs
    using F by (induction xs) (auto simp: pending_of_def)
  then have b: "pend (db_items db') pl d = length (filter (\<lambda>r. pending_of pl d r \<and> \<not> ?P r) (db_items db))"
    unfolding pend_def D(1) by simp
  show ?thesis
    unfolding b using length_filter_split [of "pending_of pl d" "db_items db" ?P] a by (simp add: pend_def)
qed

section \<open>Transactions that change rows of one stream\<close>

lemma stream_unique:
  assumes "inbox_inv db" and "st \<in> set (db_streams db)" and "st' \<in> set (db_streams db)"
    and "stream_key st = stream_key st'"
  shows "st = st'"
proof -
  have "inj_on stream_key (set (db_streams db))" using assms(1) unfolding inbox_inv_def distinct_map by blast
  then show ?thesis by (rule inj_onD) (rule assms)+
qed

lemma lockStream_find:
  "lockStream db sh pl d = Inr st \<Longrightarrow> List.find (streamPK sh pl d) (db_streams db) = st"
  unfolding lockStream_def scanStream_def by (auto simp: sum_bind_Inr split: option.splits)

lemma lockStream_D:
  assumes "lockStream db (RowShard pl) pl d = Inr (Some st)"
  shows "st \<in> set (db_streams db)" and "stream_key st = (pl, d)"
proof -
  have "st \<in> set (db_streams db) \<and> streamPK (RowShard pl) pl d st"
    by (rule find_mem) (rule lockStream_find [OF assms])
  then show "st \<in> set (db_streams db)" and "stream_key st = (pl, d)"
    unfolding streamPK_def stream_key_def by simp_all
qed

lemma lockStream_None:
  assumes "lockStream db (RowShard pl) pl d = Inr None" and "inbox_inv db"
  shows "(pl, d) \<notin> stream_key ` set (db_streams db)"
proof
  assume "(pl, d) \<in> stream_key ` set (db_streams db)"
  then obtain st where st: "st \<in> set (db_streams db)" "stream_key st = (pl, d)" by auto
  then have "ps_shard st = RowShard pl"
    using assms(2) unfolding inbox_inv_def stream_ok_def stream_key_def by auto
  moreover note lockStream_find [OF assms(1)]
  ultimately show False using st unfolding find_None_iff streamPK_def stream_key_def by auto
qed

text \<open>The stream \<open>st\<close> becomes \<open>st'\<close>, the rows of its key step, the counter is exact again.\<close>

definition stream_moves :: "inbox_db \<Rightarrow> PlayerInboxStream \<Rightarrow> u64 \<Rightarrow> inbox_db \<Rightarrow> PlayerInboxStream \<Rightarrow> bool" where
  "stream_moves db st e db' st' \<longleftrightarrow>
     st \<in> set (db_streams db) \<and> stream_le st st' \<and> ps_shard st' = ps_shard st \<and> e \<le> ps_fence_epoch st' \<and>
     unat (ps_next_seq st') \<le> 2 ^ 63 + length (db_items db) + 1 \<and>
     unat (ps_open_count st') = pend (db_items db') (ps_player_id st) (ps_domain st) \<and>
     rows_step (ps_player_id st) (ps_domain st) e db db' \<and>
     db_streams db' = map (\<lambda>s. if s = st then st' else s) (db_streams db)"

lemma stream_moves_le: "stream_moves db st e db' st' \<Longrightarrow> db_le db db'"
  unfolding db_le_def
proof (intro conjI ballI)
  fix r assume m: "stream_moves db st e db' st'" and "r \<in> set (db_items db)"
  then show "\<exists>r' \<in> set (db_items db'). row_le r r'"
    unfolding stream_moves_def using rows_step_U row_step_def by meson
next
  fix s assume m: "stream_moves db st e db' st'" and s: "s \<in> set (db_streams db)"
  then show "\<exists>s' \<in> set (db_streams db'). stream_le s s'"
  proof (cases "s = st")
    case True
    then have "st' \<in> set (db_streams db')" using m s unfolding stream_moves_def by auto
    moreover have "stream_le s st'" using m True unfolding stream_moves_def by blast
    ultimately show ?thesis by blast
  next
    case False
    then have "s \<in> set (db_streams db')" using m s unfolding stream_moves_def by auto
    then show ?thesis using stream_le_refl by blast
  qed
qed

lemma stream_moves_stream_ok:
  assumes I: "inbox_inv db" and M: "stream_moves db st e db' st'" and s: "s \<in> set (db_streams db)"
  shows "stream_ok (db_items db') (if s = st then st' else s)"
proof -
  have R: "rows_step (ps_player_id st) (ps_domain st) e db db'" and st: "st \<in> set (db_streams db)"
    using M unfolding stream_moves_def by auto
  have len: "length (db_items db') = length (db_items db)" using R by (simp add: list_all2_lengthD)
  have sok: "stream_ok (db_items db) s" using I s unfolding inbox_inv_def by blast
  have facts: "stream_key st' = stream_key st" "ps_shard st' = ps_shard st"
      "unat (ps_next_seq st') \<le> 2 ^ 63 + length (db_items db) + 1"
      "unat (ps_open_count st') = pend (db_items db') (ps_player_id st) (ps_domain st)"
    and fence: "ps_fence_epoch st \<le> ps_fence_epoch st'" and nxt: "ps_next_seq st \<le> ps_next_seq st'"
    and e: "e \<le> ps_fence_epoch st'"
    using M unfolding stream_moves_def stream_le_def by simp_all
  show ?thesis
  proof (cases "s = st")
    case True
    have bound: "it_seq r < ps_next_seq st' \<and> it_last_delivered_epoch r \<le> ps_fence_epoch st' \<and>
        it_decided_epoch r \<le> ps_fence_epoch st'"
      if r: "r \<in> set (db_items db')" "in_stream (ps_player_id st) (ps_domain st) r" for r
    proof -
      obtain x where x: "x \<in> set (db_items db)" "row_step (ps_player_id st) (ps_domain st) e x r"
        using rows_step_D [OF R r(1)] by blast
      note k = content_keys [OF row_step_content [OF x(2)], of "ps_player_id st" "ps_domain st"]
      have "in_stream (ps_player_id st) (ps_domain st) x" using r(2) k by simp
      then have old: "it_seq x < ps_next_seq st" "it_last_delivered_epoch x \<le> ps_fence_epoch st"
          "it_decided_epoch x \<le> ps_fence_epoch st"
        using sok x(1) unfolding stream_ok_def True by simp_all
      have seq: "it_seq r = it_seq x" using k by simp
      have "it_last_delivered_epoch r = it_last_delivered_epoch x \<or> it_last_delivered_epoch r = e"
        and "it_decided_epoch r = it_decided_epoch x \<or> it_decided_epoch r = e"
        using x(2) unfolding row_step_def by simp_all
      then show ?thesis using seq old fence nxt e by (auto intro: order.trans order.strict_trans2)
    qed
    have "ps_next_seq st' \<noteq> 0"
    proof
      assume "ps_next_seq st' = 0"
      then have "ps_next_seq st = 0" using nxt by simp
      then show False using sok unfolding stream_ok_def True by simp
    qed
    then show ?thesis using sok True bound len facts unfolding stream_ok_def stream_key_def by simp
  next
    case False
    then have key: "(ps_player_id s, ps_domain s) \<noteq> (ps_player_id st, ps_domain st)"
      using stream_unique [OF I s st] unfolding stream_key_def by auto
    have same: "r \<in> set (db_items db)"
      if r: "r \<in> set (db_items db')" "in_stream (ps_player_id s) (ps_domain s) r" for r
    proof -
      obtain x where x: "x \<in> set (db_items db)" "row_step (ps_player_id st) (ps_domain st) e x r"
        using rows_step_D [OF R r(1)] by blast
      have "in_stream (ps_player_id s) (ps_domain s) x"
        using r(2) content_keys [OF row_step_content [OF x(2)]] by blast
      then have "\<not> in_stream (ps_player_id st) (ps_domain st) x" using key unfolding in_stream_def by auto
      then show ?thesis using x unfolding row_step_def by auto
    qed
    show ?thesis using sok False same len pend_other [OF R key] unfolding stream_ok_def by auto
  qed
qed

lemma stream_moves_inv:
  assumes I: "inbox_inv db" and M: "stream_moves db st e db' st'"
  shows "inbox_inv db'"
proof -
  have R: "rows_step (ps_player_id st) (ps_domain st) e db db'"
    and S: "db_streams db' = map (\<lambda>s. if s = st then st' else s) (db_streams db)"
    and K: "stream_key st' = stream_key st"
    using M unfolding stream_moves_def stream_le_def by simp_all
  have items: "distinct (map item_key (db_items db))" "distinct (map request_key (db_items db))"
      "distinct (map stream_key (db_streams db))"
      "\<And>r. r \<in> set (db_items db) \<Longrightarrow> row_ok r \<and> (it_player_id r, it_domain r) \<in> stream_key ` set (db_streams db)"
    using I unfolding inbox_inv_def by simp_all
  have k1: "map item_key (db_items db') = map item_key (db_items db)"
    by (rule rows_step_map [OF R]) (blast dest: content_keys)
  have k2: "map request_key (db_items db') = map request_key (db_items db)"
    by (rule rows_step_map [OF R]) (blast dest: content_keys)
  have k3: "map stream_key (db_streams db') = map stream_key (db_streams db)"
    unfolding S using K by simp
  then have k4: "stream_key ` set (db_streams db') = stream_key ` set (db_streams db)"
    by (metis set_map)
  have rows: "row_ok r \<and> (it_player_id r, it_domain r) \<in> stream_key ` set (db_streams db')"
    if r: "r \<in> set (db_items db')" for r
  proof -
    obtain x where x: "x \<in> set (db_items db)" "row_step (ps_player_id st) (ps_domain st) e x r"
      using rows_step_D [OF R r] by blast
    have "row_ok r" using items(4) [OF x(1)] x(2) unfolding row_step_def by blast
    moreover have "it_player_id r = it_player_id x" "it_domain r = it_domain x"
      using content_keys [OF row_step_content [OF x(2)]] by simp_all
    ultimately show ?thesis using items(4) [OF x(1)] k4 by simp
  qed
  have "stream_ok (db_items db') s'" if s': "s' \<in> set (db_streams db')" for s'
  proof -
    obtain s where "s \<in> set (db_streams db)" "s' = (if s = st then st' else s)"
      using s' unfolding S by auto
    then show ?thesis using stream_moves_stream_ok [OF I M] by blast
  qed
  then show ?thesis unfolding inbox_inv_def k1 k2 k3 using items(1-3) rows by blast
qed

lemma update_stream_moves:
  assumes I: "inbox_inv db0" and st: "st \<in> set (db_streams db0)" "stream_key st = (pl, d)"
    and S: "db_streams db = db_streams db0" and U: "update_stream (RowShard pl) pl d f db = Inr db'"
  shows "db_items db' = db_items db" and "db_streams db' = map (\<lambda>s. if s = st then f st else s) (db_streams db0)"
proof -
  note D = update_stream_D [OF U]
  have "streamPK (RowShard pl) pl d s \<longleftrightarrow> s = st" if s: "s \<in> set (db_streams db0)" for s
  proof
    assume "streamPK (RowShard pl) pl d s"
    then have "stream_key s = stream_key st" using st(2) unfolding streamPK_def stream_key_def by simp
    then show "s = st" by (rule stream_unique [OF I s st(1)])
  next
    assume "s = st"
    moreover have "ps_shard st = RowShard (ps_player_id st)" using I st(1) unfolding inbox_inv_def stream_ok_def by blast
    ultimately show "streamPK (RowShard pl) pl d s" using st(2) unfolding streamPK_def stream_key_def by simp
  qed
  then show "db_streams db' = map (\<lambda>s. if s = st then f st else s) (db_streams db0)" unfolding D S by simp
  show "db_items db' = db_items db" unfolding D by simp
qed

lemma streams_unchanged: "db_streams db' = db_streams db \<Longrightarrow> db_streams db' = map (\<lambda>s. if s = st then st else s) (db_streams db)"
  by (simp add: map_idI)

lemma stream_ok_of: "inbox_inv db \<Longrightarrow> st \<in> set (db_streams db) \<Longrightarrow> stream_ok (db_items db) st"
  unfolding inbox_inv_def by blast

lemma pend_same:
  assumes "list_all2 (\<lambda>r r'. content r' = content r \<and> it_state r' = it_state r) xs ys"
  shows "pend ys pl d = pend xs pl d"
  using assms
proof (induction rule: list_all2_induct)
  case (Cons x xs y ys)
  then have "pending_of pl d y = pending_of pl d x" unfolding pending_of_def content_def by simp
  then show ?case using Cons.IH unfolding pend_def by simp
qed (simp add: pend_def)

section \<open>Fetch\<close>

lemma mark_delivered_step:
  assumes "it_player_id r = pl" "it_domain r = d" "it_state r = ITEM_PENDING" "it_delivery_count r \<noteq> - 1"
  shows "row_step pl d e r (mark_delivered e now r)"
  using assms word_less_inc [of "it_delivery_count r"]
  unfolding row_step_def row_le_def content_def mark_delivered_def in_stream_def row_ok_def by simp

lemma deliver_one:
  assumes U: "update_item sh pl d s (\<lambda>r. it_state r = ITEM_PENDING) (mark_delivered e now) db = Inr db1"
    and "\<not> (\<exists>r \<in> set (db_items db). itemPK sh pl d s r \<and> it_state r = ITEM_PENDING \<and> it_delivery_count r = - 1)"
  shows "rows_step pl d e db db1 \<and> db_streams db1 = db_streams db \<and> (\<forall>p c. pend (db_items db1) p c = pend (db_items db) p c)"
proof -
  note D = update_item_D(1) [OF U]
  have "row_step pl d e r (if itemPK sh pl d s r \<and> it_state r = ITEM_PENDING then mark_delivered e now r else r)"
    if "r \<in> set (db_items db)" for r
    using that assms(2) mark_delivered_step [of r pl d e now] unfolding itemPK_def by auto
  then have "rows_step pl d e db db1" unfolding D by (simp add: list_all2_conv_all_nth)
  moreover have "pend (db_items db1) p c = pend (db_items db) p c" for p c
    by (rule pend_same) (auto simp: D list_all2_conv_all_nth content_def mark_delivered_def)
  ultimately show ?thesis unfolding D by simp
qed

lemma deliver_rows_step:
  assumes "deliver_rows original e now rows db = Inr (items, db1)"
    and "\<forall>r \<in> set rows. it_player_id r = pl \<and> it_domain r = d"
  shows "rows_step pl d e db db1 \<and> db_streams db1 = db_streams db \<and> (\<forall>p c. pend (db_items db1) p c = pend (db_items db) p c)"
  using assms
proof (induction rows arbitrary: db items)
  case (Cons row rows)
  obtain dbm items' where
    no: "\<not> (\<exists>r \<in> set (db_items db). itemPK (it_shard row) pl d (it_seq row) r \<and> it_state r = ITEM_PENDING \<and> it_delivery_count r = - 1)"
    and U: "update_item (it_shard row) pl d (it_seq row) (\<lambda>r. it_state r = ITEM_PENDING) (mark_delivered e now) db = Inr dbm"
    and rest: "deliver_rows original e now rows dbm = Inr (items', db1)"
    using Cons.prems by (auto simp: sum_bind_Inr split: if_splits)
  note one = deliver_one [OF U no]
  have "rows_step pl d e dbm db1 \<and> db_streams db1 = db_streams dbm \<and> (\<forall>p c. pend (db_items db1) p c = pend (db_items dbm) p c)"
    using Cons.IH [OF rest] Cons.prems(2) by simp
  then show ?case using one rows_step_trans [of pl d e "db_items db" "db_items dbm" "db_items db1"] by simp
qed simp

lemma fence_allows_le: "FenceAllows (DecideFence e f e) \<Longrightarrow> f \<le> e"
  using DecideFence_self_allows by blast

text \<open>What a transaction of a consistent database must show.\<close>

definition keeps :: "inbox_db \<Rightarrow> inbox_db \<Rightarrow> bool" where
  "keeps db db' \<longleftrightarrow> inbox_inv db' \<and> db_le db db'"

lemma keeps_refl [simp]: "inbox_inv db \<Longrightarrow> keeps db db"
  unfolding keeps_def by simp

lemma keeps_moves: "inbox_inv db \<Longrightarrow> stream_moves db st e db' st' \<Longrightarrow> keeps db db'"
  unfolding keeps_def using stream_moves_inv stream_moves_le by blast

lemma keeps_audit:
  "keeps db db1 \<Longrightarrow> db_items db' = db_items db1 \<Longrightarrow> db_streams db' = db_streams db1 \<Longrightarrow> keeps db db'"
  unfolding keeps_def inbox_inv_def db_le_def by simp

lemma RaiseNextSeq_small:
  assumes "w < 2 ^ 63" and "unat n \<le> 2 ^ 63 + k"
  shows "unat (fst (RaiseNextSeq n w)) \<le> 2 ^ 63 + k"
proof -
  have "unat w < 2 ^ 63" using assms(1) by (simp add: word_less_nat_alt)
  then have "unat (w + 1) \<le> 2 ^ 63" by (simp add: unat_word_ariths)
  then show ?thesis using assms(2) unfolding RaiseNextSeq_def by auto
qed

text \<open>The page a request is served: the oldest pending rows of its stream.\<close>

definition fetch_page :: "FetchPlayerInboxRequest \<Rightarrow> inbox_db \<Rightarrow> PlayerInboxItemRow list \<times> bool" where
  "fetch_page req db =
     (let n = clampFetchItems (fq_max_items req) FetchDefaultItems FetchMaxItems in
      splitPage (take (n + 1) (sort_key it_seq (filter (pending_of (fq_player_id req) (fq_domain req)) (db_items db)))) n)"

lemma fetch_page_mem: "r \<in> set (fst (fetch_page req db)) \<Longrightarrow> r \<in> set (db_items db) \<and> pending_of (fq_player_id req) (fq_domain req) r"
  unfolding fetch_page_def Let_def splitPage_def by (auto split: if_splits dest!: in_set_takeD)

lemma fetch_serve_D:
  assumes "fetch_serve req t original verdict st db = Inr ((v, items, hasMore), db')"
  obtains db1 where "v = verdict" and "hasMore = snd (fetch_page req db)"
    and "deliver_rows original (fq_owner_epoch req) (nowMs (tt_now t 0)) (fst (fetch_page req db)) db = Inr (items, db1)"
    and "if FenceWrites verdict \<or> snd (RaiseNextSeq (ps_next_seq st) (fq_consumer_decided_through req))
         then update_stream (RowShard (fq_player_id req)) (fq_player_id req) (fq_domain req)
           (\<lambda>s. s \<lparr>ps_fence_epoch := (if FenceWrites verdict then fq_owner_epoch req else ps_fence_epoch st),
                  ps_next_seq := fst (RaiseNextSeq (ps_next_seq st) (fq_consumer_decided_through req)),
                  ps_updated_ms := nowMs (tt_now t 0)\<rparr>) db1 = Inr db'
         else db' = db1"
proof -
  obtain nextSeq raised where R: "RaiseNextSeq (ps_next_seq st) (fq_consumer_decided_through req) = (nextSeq, raised)"
    by (cases "RaiseNextSeq (ps_next_seq st) (fq_consumer_decided_through req)")
  obtain pending more where P: "fetch_page req db = (pending, more)" by (cases "fetch_page req db")
  show ?thesis
    using assms P unfolding fetch_serve_def fetch_page_def Let_def R queryItems_def fetchStreamUpdate_def
    by (auto simp: sum_bind_Inr R P split: if_splits intro!: that)
qed

lemma fetch_tx_D:
  assumes "fetch_tx req t original db = Inr ((v, items, hasMore), db')"
  obtains (no_stream) "lockStream db (RowShard (fq_player_id req)) (fq_player_id req) (fq_domain req) = Inr None"
      "v = FENCE_NO_STREAM" "items = []" "db' = db"
  | (refused) st where "lockStream db (RowShard (fq_player_id req)) (fq_player_id req) (fq_domain req) = Inr (Some st)"
      "v = DecideFence (fq_owner_epoch req) (ps_fence_epoch st) (fq_owner_epoch req)" "\<not> FenceAllows v"
      "items = []" "db' = db"
  | (served) st where "lockStream db (RowShard (fq_player_id req)) (fq_player_id req) (fq_domain req) = Inr (Some st)"
      "v = DecideFence (fq_owner_epoch req) (ps_fence_epoch st) (fq_owner_epoch req)" "FenceAllows v"
      "fetch_serve req t original v st db = Inr ((v, items, hasMore), db')"
proof -
  obtain locked where L: "lockStream db (RowShard (fq_player_id req)) (fq_player_id req) (fq_domain req) = Inr locked"
    and C: "(case locked of None \<Rightarrow> Inr ((FENCE_NO_STREAM, [], False), db)
     | Some st \<Rightarrow>
       let verdict = DecideFence (fq_owner_epoch req) (ps_fence_epoch st) (fq_owner_epoch req) in
       if \<not> FenceAllows verdict then Inr ((verdict, [], False), db)
       else fetch_serve req t original verdict st db) = Inr ((v, items, hasMore), db')"
    using assms unfolding fetch_tx_def sum_bind_Inr by blast
  show ?thesis
  proof (cases locked)
    case None
    then have "v = FENCE_NO_STREAM" "items = []" "db' = db" using C by simp_all
    then show ?thesis by (rule no_stream [OF L [unfolded None]])
  next
    case (Some st)
    let ?v = "DecideFence (fq_owner_epoch req) (ps_fence_epoch st) (fq_owner_epoch req)"
    show ?thesis
    proof (cases "FenceAllows ?v")
      case True
      then have F: "fetch_serve req t original ?v st db = Inr ((v, items, hasMore), db')"
        using C Some by (simp add: Let_def)
      then have v: "v = ?v" by (rule fetch_serve_D)
      show ?thesis
      proof (rule served [OF L [unfolded Some] v])
        show "FenceAllows v" using True v by simp
        show "fetch_serve req t original v st db = Inr ((v, items, hasMore), db')" using F unfolding v .
      qed
    next
      case False
      then have v: "v = ?v" and "items = []" "db' = db" using C Some by (simp_all add: Let_def)
      moreover have "\<not> FenceAllows v" using False v by simp
      ultimately show ?thesis by (intro refused [OF L [unfolded Some]])
    qed
  qed
qed

lemma fetch_keeps:
  assumes I: "inbox_inv db" and W: "fq_consumer_decided_through req < 2 ^ 63"
    and F: "fetch_tx req t original db = Inr ((v, items, hasMore), db')"
  shows "keeps db db'"
  using F
proof (cases rule: fetch_tx_D)
  case (served st)
  let ?pl = "fq_player_id req" and ?d = "fq_domain req" and ?e = "fq_owner_epoch req"
  let ?w = "fq_consumer_decided_through req"
  note st = lockStream_D [OF served(1)]
  have key: "ps_player_id st = ?pl" "ps_domain st = ?d" using st(2) unfolding stream_key_def by simp_all
  note ok = stream_ok_of [OF I st(1)]
  obtain db1 where D: "deliver_rows original ?e (nowMs (tt_now t 0)) (fst (fetch_page req db)) db = Inr (items, db1)"
    and U: "if FenceWrites v \<or> snd (RaiseNextSeq (ps_next_seq st) ?w)
         then update_stream (RowShard ?pl) ?pl ?d
           (\<lambda>s. s \<lparr>ps_fence_epoch := (if FenceWrites v then ?e else ps_fence_epoch st),
                  ps_next_seq := fst (RaiseNextSeq (ps_next_seq st) ?w), ps_updated_ms := nowMs (tt_now t 0)\<rparr>) db1 = Inr db'
         else db' = db1"
    using served(4) by (rule fetch_serve_D)
  have rows: "rows_step ?pl ?d ?e db db1" "db_streams db1 = db_streams db"
      "\<And>p c. pend (db_items db1) p c = pend (db_items db) p c"
    using deliver_rows_step [OF D, of ?pl ?d] fetch_page_mem unfolding pending_of_def by blast+
  have fence: "(if FenceWrites v then ?e else ps_fence_epoch st) = ?e" "ps_fence_epoch st \<le> ?e"
    using DecideFence_self_writes fence_allows_le served(2,3) by simp_all
  have w: "?w \<noteq> - 1" using W by auto
  note raise = RaiseNextSeq_above(1) [OF w, of "ps_next_seq st"]
    and small = RaiseNextSeq_small [OF W, of "ps_next_seq st" "length (db_items db) + 1"]
  show ?thesis
  proof (cases "FenceWrites v \<or> snd (RaiseNextSeq (ps_next_seq st) ?w)")
    case True
    let ?st' = "st \<lparr>ps_fence_epoch := ?e, ps_next_seq := fst (RaiseNextSeq (ps_next_seq st) ?w), ps_updated_ms := nowMs (tt_now t 0)\<rparr>"
    have U': "update_stream (RowShard ?pl) ?pl ?d
           (\<lambda>s. s \<lparr>ps_fence_epoch := ?e,
                  ps_next_seq := fst (RaiseNextSeq (ps_next_seq st) ?w), ps_updated_ms := nowMs (tt_now t 0)\<rparr>) db1 = Inr db'"
      using U True fence(1) by simp
    note M = update_stream_moves [OF I st(1) st(2) rows(2) U']
    have "stream_moves db st ?e db' ?st'"
      unfolding stream_moves_def stream_le_def using st(1) fence(2) raise small ok rows M key
      by (simp add: stream_ok_def stream_key_def)
    then show ?thesis by (rule keeps_moves [OF I])
  next
    case False
    then have "ps_fence_epoch st = ?e" and "db' = db1" using U fence(1) by simp_all
    then have "stream_moves db st ?e db' st"
      unfolding stream_moves_def using st(1) ok rows key streams_unchanged [OF rows(2)]
      by (simp add: stream_ok_def)
    then show ?thesis by (rule keeps_moves [OF I])
  qed
qed (use I in simp_all)

section \<open>Ack\<close>

lemma decideAck_finalize:
  "ad_finalize (decideAck (Some r) report) \<Longrightarrow>
     it_state r = ITEM_PENDING \<and> ad_newState (decideAck (Some r) report) = outcomeToState (dr_outcome report)"
  unfolding decideAck_def ack_only_def by (auto simp: Let_def split: if_splits)

text \<open>One report either leaves the rows alone or finalises one.\<close>

lemma ack_rows_Cons:
  assumes "ack_rows pl d e now original rows (report # reports) db = Inr (res, n, db')"
  obtains (keep) res' where "ack_rows pl d e now original rows reports db = Inr (res', n, db')"
  | (final) r res' m db1 where "rows (dr_seq report) = Some r" "\<not> battle_not_applied r report"
      "update_item (RowShard pl) pl d (dr_seq report) (\<lambda>r. it_state r = ITEM_PENDING)
         (finalize_row (outcomeToState (dr_outcome report)) e (ackOutcomeReason report) now) db = Inr db1"
      "ack_rows pl d e now original rows reports db1 = Inr (res', m, db')" "n = m + 1"
proof (cases "rows (dr_seq report)")
  case None
  then show ?thesis using assms keep by (auto simp: Let_def sum_bind_Inr)
next
  case (Some r)
  consider (b) "battle_not_applied r report" | (f) "\<not> battle_not_applied r report" "ad_finalize (decideAck (Some r) report)"
    | (n) "\<not> battle_not_applied r report" "\<not> ad_finalize (decideAck (Some r) report)" by blast
  then show ?thesis
  proof cases
    case f
    then have new: "ad_newState (decideAck (Some r) report) = outcomeToState (dr_outcome report)"
      using decideAck_finalize by blast
    obtain db1 res' m where "update_item (RowShard pl) pl d (dr_seq report) (\<lambda>r. it_state r = ITEM_PENDING)
         (finalize_row (ad_newState (decideAck (Some r) report)) e (ackOutcomeReason report) now) db = Inr db1"
      and "ack_rows pl d e now original rows reports db1 = Inr (res', m, db')" and "n = m + 1"
      using assms Some f by (auto simp: Let_def sum_bind_Inr)
    then show ?thesis unfolding new by (rule final [OF Some f(1)])
  qed (use assms Some keep in \<open>auto simp: Let_def sum_bind_Inr\<close>)
qed

lemma finalize_row_step:
  assumes "it_player_id r = pl" "it_domain r = d" "it_state r = ITEM_PENDING"
    and "IsTerminalState s" and "d = DOMAIN_SCENE_BATTLE_SETTLEMENT \<longrightarrow> s = ITEM_APPLIED"
  shows "row_step pl d e r (finalize_row s e reason now r)"
proof -
  have "s \<noteq> ITEM_PENDING" using assms(4) unfolding IsTerminalState_def by auto
  then show ?thesis using assms
    unfolding row_step_def row_le_def content_def finalize_row_def in_stream_def row_ok_def by auto
qed

lemma ack_rows_step:
  assumes "ack_rows pl d e now original rows reports db = Inr (res, n, db')"
    and "\<forall>x \<in> set reports. IsTerminalState (outcomeToState (dr_outcome x))"
    and "\<forall>s r. rows s = Some r \<longrightarrow> row_ok r \<and> it_domain r = d"
  shows "rows_step pl d e db db' \<and> db_streams db' = db_streams db \<and>
    (\<exists>k. n = of_nat k \<and> pend (db_items db) pl d = k + pend (db_items db') pl d)"
  using assms(1,2)
proof (induction reports arbitrary: db res n)
  case Nil
  then have "db' = db" and "n = of_nat 0" by simp_all
  then show ?case by (metis add_0 rows_step_refl)
next
  case (Cons report reports)
  have tail: "\<forall>x \<in> set reports. IsTerminalState (outcomeToState (dr_outcome x))" using Cons.prems(2) by simp
  from Cons.prems(1) show ?case
  proof (cases rule: ack_rows_Cons)
    case (keep res')
    then show ?thesis using Cons.IH tail by blast
  next
    case (final r res' m db1)
    let ?s = "outcomeToState (dr_outcome report)"
    have fin: "IsTerminalState ?s" using Cons.prems(2) by simp
    have "row_ok r \<and> it_domain r = d" using assms(3) final(1) by blast
    then have battle: "d = DOMAIN_SCENE_BATTLE_SETTLEMENT \<longrightarrow> ?s = ITEM_APPLIED"
      using final(2) unfolding battle_not_applied_def row_ok_def outcomeToState_def by auto
    have step: "row_step pl d e x (finalize_row ?s e (ackOutcomeReason report) now x)"
      if "itemPK (RowShard pl) pl d (dr_seq report) x" "it_state x = ITEM_PENDING" for x
      by (rule finalize_row_step) (use that fin battle in \<open>auto simp: itemPK_def\<close>)
    note U = update_item_rows [OF final(3) step]
    have "pend (db_items db) pl d = Suc (pend (db_items db1) pl d)"
      by (rule update_item_closes [OF final(3)]) (use fin in \<open>auto simp: finalize_row_def IsTerminalState_def\<close>)
    moreover obtain k where k: "m = of_nat k" "pend (db_items db1) pl d = k + pend (db_items db') pl d"
      and R: "rows_step pl d e db1 db'" "db_streams db' = db_streams db1"
      using Cons.IH [OF final(4) tail] by blast
    ultimately have "n = of_nat (Suc k) \<and> pend (db_items db) pl d = Suc k + pend (db_items db') pl d"
      using final(5) by simp
    then show ?thesis using U R rows_step_trans by metis
  qed
qed

lemma readItemsBySeq_D:
  assumes "readItemsBySeq db sh pl d seqs = Inr rows" and "rows s = Some r"
  shows "r \<in> set (db_items db) \<and> it_player_id r = pl \<and> it_domain r = d \<and> it_seq r = s"
proof -
  let ?rs = "filter (\<lambda>r. it_shard r = sh \<and> it_player_id r = pl \<and> it_domain r = d \<and> it_seq r \<in> set seqs) (db_items db)"
  have "rows = (\<lambda>s. List.find (\<lambda>r. it_seq r = s) (rev ?rs))"
    using assms(1) unfolding readItemsBySeq_def queryItems_def Let_def by (auto split: if_splits)
  then have "r \<in> set (rev ?rs) \<and> it_seq r = s" using assms(2) find_mem by fastforce
  then show ?thesis by simp
qed

lemma ack_serve_D:
  assumes "ack_serve req t original verdict st db = Inr ((v, results), db')"
  obtains rows n db1 where "v = verdict"
    and "readItemsBySeq db (RowShard (aq_player_id req)) (aq_player_id req) (aq_domain req) (map dr_seq (aq_decisions req)) = Inr rows"
    and "ack_rows (aq_player_id req) (aq_domain req) (aq_owner_epoch req) (nowMs (tt_now t 0)) original rows (aq_decisions req) db
         = Inr (results, n, db1)"
    and "if n = 0 \<and> \<not> FenceWrites verdict then db' = db1
         else update_stream (RowShard (aq_player_id req)) (aq_player_id req) (aq_domain req)
           (\<lambda>s. s \<lparr>ps_open_count := fst (subtractOpenCount (ps_open_count st) n),
                  ps_fence_epoch := (if FenceWrites verdict then aq_owner_epoch req else ps_fence_epoch st),
                  ps_updated_ms := nowMs (tt_now t 0)\<rparr>) db1 = Inr db'"
proof -
  obtain rows results' n db1 where
    R: "readItemsBySeq db (RowShard (aq_player_id req)) (aq_player_id req) (aq_domain req) (map dr_seq (aq_decisions req)) = Inr rows"
    and A: "ack_rows (aq_player_id req) (aq_domain req) (aq_owner_epoch req) (nowMs (tt_now t 0)) original rows (aq_decisions req) db
         = Inr (results', n, db1)"
    and C: "(case ackStreamUpdate verdict (ps_open_count st) n (ps_fence_epoch st) (aq_owner_epoch req) of
        (write, newOpen, newFence, underflow) \<Rightarrow>
      if \<not> write then Inr ((verdict, results'), db1)
      else sum_bind (update_stream (RowShard (aq_player_id req)) (aq_player_id req) (aq_domain req)
             (\<lambda>s. s \<lparr>ps_open_count := newOpen, ps_fence_epoch := newFence, ps_updated_ms := nowMs (tt_now t 0)\<rparr>) db1)
             (\<lambda>db2. Inr ((verdict, results'), db2))) = Inr ((v, results), db')"
    using assms unfolding ack_serve_def Let_def sum_bind_Inr by auto
  obtain newOpen underflow where S: "subtractOpenCount (ps_open_count st) n = (newOpen, underflow)"
    by (cases "subtractOpenCount (ps_open_count st) n")
  have "v = verdict \<and> results = results' \<and>
     (if n = 0 \<and> \<not> FenceWrites verdict then db' = db1
         else update_stream (RowShard (aq_player_id req)) (aq_player_id req) (aq_domain req)
           (\<lambda>s. s \<lparr>ps_open_count := newOpen,
                  ps_fence_epoch := (if FenceWrites verdict then aq_owner_epoch req else ps_fence_epoch st),
                  ps_updated_ms := nowMs (tt_now t 0)\<rparr>) db1 = Inr db')"
    using C S unfolding ackStreamUpdate_def by (auto simp: sum_bind_Inr split: if_splits)
  then show ?thesis using that [OF _ R] A S by simp
qed

lemma ack_tx_D:
  assumes "ack_tx req t original db = Inr ((v, results), db')"
  obtains (no_stream) "lockStream db (RowShard (aq_player_id req)) (aq_player_id req) (aq_domain req) = Inr None"
      "v = FENCE_NO_STREAM" "db' = db"
  | (refused) st where "lockStream db (RowShard (aq_player_id req)) (aq_player_id req) (aq_domain req) = Inr (Some st)"
      "v = DecideFence (aq_owner_epoch req) (ps_fence_epoch st) (aq_owner_epoch req)" "\<not> FenceAllows v"
      "results = []" "db' = db"
  | (served) st where "lockStream db (RowShard (aq_player_id req)) (aq_player_id req) (aq_domain req) = Inr (Some st)"
      "v = DecideFence (aq_owner_epoch req) (ps_fence_epoch st) (aq_owner_epoch req)" "FenceAllows v"
      "ack_serve req t original v st db = Inr ((v, results), db')"
proof -
  obtain locked where L: "lockStream db (RowShard (aq_player_id req)) (aq_player_id req) (aq_domain req) = Inr locked"
    and C: "(case locked of
       None \<Rightarrow> Inr ((FENCE_NO_STREAM, map (\<lambda>r. \<lparr>ai_seq = dr_seq r, ai_result = ACK_UNKNOWN_SEQ,
                                                   ai_state = ITEM_UNSPECIFIED\<rparr>) (aq_decisions req)), db)
     | Some st \<Rightarrow>
       let verdict = DecideFence (aq_owner_epoch req) (ps_fence_epoch st) (aq_owner_epoch req) in
       if \<not> FenceAllows verdict then Inr ((verdict, []), db)
       else ack_serve req t original verdict st db) = Inr ((v, results), db')"
    using assms unfolding ack_tx_def sum_bind_Inr by blast
  show ?thesis
  proof (cases locked)
    case None
    then have "v = FENCE_NO_STREAM" "db' = db" using C by simp_all
    then show ?thesis by (rule no_stream [OF L [unfolded None]])
  next
    case (Some st)
    let ?v = "DecideFence (aq_owner_epoch req) (ps_fence_epoch st) (aq_owner_epoch req)"
    show ?thesis
    proof (cases "FenceAllows ?v")
      case True
      then have F: "ack_serve req t original ?v st db = Inr ((v, results), db')" using C Some by (simp add: Let_def)
      then have v: "v = ?v" by (rule ack_serve_D)
      show ?thesis
      proof (rule served [OF L [unfolded Some] v])
        show "FenceAllows v" using True v by simp
        show "ack_serve req t original v st db = Inr ((v, results), db')" using F unfolding v .
      qed
    next
      case False
      then have v: "v = ?v" and "results = []" "db' = db" using C Some by (simp_all add: Let_def)
      moreover have "\<not> FenceAllows v" using False v by simp
      ultimately show ?thesis by (intro refused [OF L [unfolded Some]])
    qed
  qed
qed

lemma ack_keeps:
  assumes I: "inbox_inv db" and V: "validateAckReports (aq_decisions req) m"
    and A: "ack_tx req t original db = Inr ((v, results), db')"
  shows "keeps db db'"
  using A
proof (cases rule: ack_tx_D)
  case (served st)
  let ?pl = "aq_player_id req" and ?d = "aq_domain req" and ?e = "aq_owner_epoch req"
  note st = lockStream_D [OF served(1)]
  have key: "ps_player_id st = ?pl" "ps_domain st = ?d" using st(2) unfolding stream_key_def by simp_all
  note ok = stream_ok_of [OF I st(1)]
  obtain rows n db1 where R: "readItemsBySeq db (RowShard ?pl) ?pl ?d (map dr_seq (aq_decisions req)) = Inr rows"
    and X: "ack_rows ?pl ?d ?e (nowMs (tt_now t 0)) original rows (aq_decisions req) db = Inr (results, n, db1)"
    and U: "if n = 0 \<and> \<not> FenceWrites v then db' = db1
         else update_stream (RowShard ?pl) ?pl ?d
           (\<lambda>s. s \<lparr>ps_open_count := fst (subtractOpenCount (ps_open_count st) n),
                  ps_fence_epoch := (if FenceWrites v then ?e else ps_fence_epoch st),
                  ps_updated_ms := nowMs (tt_now t 0)\<rparr>) db1 = Inr db'"
    using served(4) by (rule ack_serve_D)
  have fin: "\<forall>x \<in> set (aq_decisions req). IsTerminalState (outcomeToState (dr_outcome x))"
    using V ack_reports_ok_sorted [of 0] unfolding validateAckReports_def by (auto split: if_splits)
  have read: "\<forall>s r. rows s = Some r \<longrightarrow> row_ok r \<and> it_domain r = ?d"
    using readItemsBySeq_D [OF R] I unfolding inbox_inv_def by blast
  obtain k where rows: "rows_step ?pl ?d ?e db db1" "db_streams db1 = db_streams db"
    and k: "n = of_nat k" "pend (db_items db) ?pl ?d = k + pend (db_items db1) ?pl ?d"
    using ack_rows_step [OF X fin read] by blast
  have opn: "unat (ps_open_count st) = k + pend (db_items db1) ?pl ?d"
    using ok k(2) key unfolding stream_ok_def by simp
  then have "k < 2 ^ 32" using unsigned_less [of "ps_open_count st", where 'a = nat] by simp
  then have n: "unat n = k" unfolding k(1) by (simp add: unat_of_nat take_bit_nat_eq_self)
  have sub: "unat (fst (subtractOpenCount (ps_open_count st) n)) = pend (db_items db1) ?pl ?d"
    using subtractOpenCount_exact [of n "ps_open_count st"] n opn by simp
  have fence: "(if FenceWrites v then ?e else ps_fence_epoch st) = ?e" "ps_fence_epoch st \<le> ?e"
    using DecideFence_self_writes fence_allows_le served(2,3) by simp_all
  show ?thesis
  proof (cases "n = 0 \<and> \<not> FenceWrites v")
    case True
    then have "ps_fence_epoch st = ?e" and "db' = db1" and "k = 0" using U fence(1) n by simp_all
    then have "stream_moves db st ?e db' st"
      unfolding stream_moves_def using st(1) ok rows key opn streams_unchanged [OF rows(2)]
      by (simp add: stream_ok_def)
    then show ?thesis by (rule keeps_moves [OF I])
  next
    case False
    let ?f = "\<lambda>s. s \<lparr>ps_open_count := fst (subtractOpenCount (ps_open_count st) n),
                  ps_fence_epoch := ?e, ps_updated_ms := nowMs (tt_now t 0)\<rparr>"
    have U': "update_stream (RowShard ?pl) ?pl ?d ?f db1 = Inr db'" using U False unfolding fence(1) by simp
    note M = update_stream_moves [OF I st(1) st(2) rows(2) U']
    have "stream_moves db st ?e db' (?f st)"
      unfolding stream_moves_def stream_le_def using st(1) fence(2) ok rows M key sub
      by (simp add: stream_ok_def stream_key_def)
    then show ?thesis by (rule keeps_moves [OF I])
  qed
qed (use I in simp_all)

section \<open>Void\<close>

lemma void_row_step:
  assumes "it_player_id r = pl" "it_domain r = d" "it_state r = ITEM_PENDING" "d \<noteq> DOMAIN_SCENE_BATTLE_SETTLEMENT"
  shows "row_step pl d 0 r (void_row reason now r)"
  using assms unfolding row_step_def row_le_def content_def void_row_def in_stream_def row_ok_def IsTerminalState_def by auto

lemma void_and_close_keeps:
  assumes I: "inbox_inv db" and L: "lockStream db (RowShard (vp_player_id p)) (vp_player_id p) (vp_domain p) = Inr (Some st)"
    and B: "vp_domain p \<noteq> DOMAIN_SCENE_BATTLE_SETTLEMENT" and C: "\<And>r. cond r \<Longrightarrow> it_state r = ITEM_PENDING"
    and V: "void_and_close p cond st now db = Inr db'"
  shows "keeps db db'"
proof -
  let ?pl = "vp_player_id p" and ?d = "vp_domain p"
  note st = lockStream_D [OF L]
  have key: "ps_player_id st = ?pl" "ps_domain st = ?d" using st(2) unfolding stream_key_def by simp_all
  note ok = stream_ok_of [OF I st(1)]
  let ?f = "\<lambda>s. s \<lparr>ps_open_count := fst (subtractOpenCount (ps_open_count st) 1), ps_updated_ms := now\<rparr>"
  obtain db1 where U: "update_item (RowShard ?pl) ?pl ?d (vp_seq p) cond (void_row (vp_reason p) now) db = Inr db1"
    and S: "update_stream (RowShard ?pl) ?pl ?d ?f db1 = Inr db'"
    using V unfolding void_and_close_def sum_bind_Inr by blast
  have step: "row_step ?pl ?d 0 x (void_row (vp_reason p) now x)"
    if "itemPK (RowShard ?pl) ?pl ?d (vp_seq p) x" "cond x" for x
    by (rule void_row_step) (use that C B in \<open>auto simp: itemPK_def\<close>)
  note R = update_item_rows [OF U step]
  have one: "pend (db_items db) ?pl ?d = Suc (pend (db_items db1) ?pl ?d)"
    by (rule update_item_closes [OF U]) (use C in \<open>auto simp: void_row_def\<close>)
  then have sub: "unat (fst (subtractOpenCount (ps_open_count st) 1)) = pend (db_items db1) ?pl ?d"
    using subtractOpenCount_exact [of 1 "ps_open_count st"] ok key unfolding stream_ok_def by simp
  note M = update_stream_moves [OF I st(1) st(2) R(2) S]
  have "stream_moves db st 0 db' (?f st)"
    unfolding stream_moves_def stream_le_def using st(1) ok R M key sub
    by (simp add: stream_ok_def stream_key_def)
  then show ?thesis by (rule keeps_moves [OF I])
qed

lemma directive_keeps:
  assumes I: "inbox_inv db" and L: "lockStream db (RowShard pl) pl d = Inr (Some st)"
    and U: "update_item (RowShard pl) pl d s (\<lambda>r. it_state r = ITEM_PENDING)
              (\<lambda>r. r \<lparr>it_directive := DIRECTIVE_VOID, it_void_reason := reason, it_updated_ms := now\<rparr>) db = Inr db'"
  shows "keeps db db'"
proof -
  note st = lockStream_D [OF L]
  have key: "ps_player_id st = pl" "ps_domain st = d" using st(2) unfolding stream_key_def by simp_all
  note ok = stream_ok_of [OF I st(1)]
  let ?g = "\<lambda>r. r \<lparr>it_directive := DIRECTIVE_VOID, it_void_reason := reason, it_updated_ms := now\<rparr>"
  have step: "row_step pl d 0 x (?g x)" if "itemPK (RowShard pl) pl d s x" "it_state x = ITEM_PENDING" for x
    using that unfolding row_step_def row_le_def content_def in_stream_def row_ok_def itemPK_def by auto
  note R = update_item_rows [OF U step]
  have "pend (db_items db') pl d = pend (db_items db) pl d"
    by (rule pend_same) (auto simp: update_item_D(1) [OF U] list_all2_conv_all_nth content_def)
  then have "stream_moves db st 0 db' st"
    unfolding stream_moves_def using st(1) ok R key streams_unchanged [OF R(2)] by (simp add: stream_ok_def)
  then show ?thesis by (rule keeps_moves [OF I])
qed

lemma keeps_after_audit: "keeps db db1 \<Longrightarrow> insertAuditForItem row a db1 = Inr db' \<Longrightarrow> keeps db db'"
  using insertAuditForItem_same keeps_audit by blast

lemma void_tx_locked:
  assumes "void_tx p t original db = Inr ((action, state), db')"
  obtains (no_stream) "action = voidNotFound" "db' = db"
  | (locked) st row where "lockStream db (RowShard (vp_player_id p)) (vp_player_id p) (vp_domain p) = Inr (Some st)"
      "readItem db (RowShard (vp_player_id p)) (vp_player_id p) (vp_domain p) (vp_seq p) = Inr row"
      "requireItemOriginal row original = Inr ()" "action = decideVoid row"
      "void_tx p t original db = Inr ((action, state), db')"
proof -
  obtain lk where L: "lockStream db (RowShard (vp_player_id p)) (vp_player_id p) (vp_domain p) = Inr lk"
    and P: "requirePendingOriginalsTx db original = Inr ()"
    using assms unfolding void_tx_def Let_def sum_bind_Inr by auto
  show ?thesis
  proof (cases lk)
    case None
    then have "action = voidNotFound \<and> db' = db" using assms L P unfolding void_tx_def Let_def by simp
    then show ?thesis using no_stream by blast
  next
    case (Some st)
    obtain row where R: "readItem db (RowShard (vp_player_id p)) (vp_player_id p) (vp_domain p) (vp_seq p) = Inr row"
      and O: "requireItemOriginal row original = Inr ()"
      using assms L P Some unfolding void_tx_def Let_def by (auto simp: sum_bind_Inr)
    have "action = decideVoid row"
      using assms L P Some R O unfolding void_tx_def Let_def by (auto simp: sum_bind_Inr split: voidAction.splits)
    then show ?thesis by (rule locked [OF L [unfolded Some] R O _ assms])
  qed
qed

lemma void_keeps:
  assumes I: "inbox_inv db" and B: "vp_domain p \<noteq> DOMAIN_SCENE_BATTLE_SETTLEMENT"
    and V: "void_tx p t original db = Inr ((action, state), db')"
  shows "keeps db db'"
  using V
proof (cases rule: void_tx_locked)
  case (locked st row)
  have P: "requirePendingOriginalsTx db original = Inr ()"
    using V unfolding void_tx_def Let_def sum_bind_Inr by auto
  let ?now = "nowMs (tt_now t 0)"
  note V' = V [unfolded void_tx_def Let_def P locked(1,2,3) sum_bind_simps option.case]
  show ?thesis
  proof (cases "decideVoid row")
    case voidDirect
    obtain db1 where C: "void_and_close p (\<lambda>r. it_state r = ITEM_PENDING \<and> it_delivery_count r = 0) st ?now db = Inr db1"
      and A: "insertAuditForItem row (void_audit p AUDIT_VOID ?now) db1 = Inr db'"
      using V' voidDirect by (auto simp: sum_bind_Inr)
    have "keeps db db1" by (rule void_and_close_keeps [OF I locked(1) B _ C]) simp
    then show ?thesis using A by (rule keeps_after_audit)
  next
    case voidDirective
    obtain db1 where C: "update_item (RowShard (vp_player_id p)) (vp_player_id p) (vp_domain p) (vp_seq p) (\<lambda>r. it_state r = ITEM_PENDING)
              (\<lambda>r. r \<lparr>it_directive := DIRECTIVE_VOID, it_void_reason := vp_reason p, it_updated_ms := ?now\<rparr>) db = Inr db1"
      and A: "insertAuditForItem row (void_audit p AUDIT_VOID ?now) db1 = Inr db'"
      using V' voidDirective by (auto simp: sum_bind_Inr)
    show ?thesis by (rule keeps_after_audit [OF directive_keeps [OF I locked(1) C] A])
  next
    case voidNotFound
    then show ?thesis using V' I by simp
  next
    case voidTerminal
    then show ?thesis using V' I by simp
  next
    case voidAlreadyRequested
    then have "insertAuditForItem row (void_audit p AUDIT_VOID ?now) db = Inr db'" using V' by (auto simp: sum_bind_Inr)
    then show ?thesis by (rule keeps_after_audit [OF keeps_refl [OF I]])
  next
    case voidForced
    then have "insertAuditForItem row (void_audit p AUDIT_VOID ?now) db = Inr db'" using V' by (auto simp: sum_bind_Inr)
    then show ?thesis by (rule keeps_after_audit [OF keeps_refl [OF I]])
  next
    case voidForceRefused
    then have "insertAuditForItem row (void_audit p AUDIT_VOID ?now) db = Inr db'" using V' by (auto simp: sum_bind_Inr)
    then show ?thesis by (rule keeps_after_audit [OF keeps_refl [OF I]])
  qed
qed (use I in simp)

lemma force_void_tx_D:
  assumes V: "force_void_tx p ledger t original db = Inr ((action, prf, state), db')"
  obtains (same) "action \<noteq> voidForced" "db' = db"
  | (forced) st r db1 where "lockStream db (RowShard (vp_player_id p)) (vp_player_id p) (vp_domain p) = Inr (Some st)"
      "readItem db (RowShard (vp_player_id p)) (vp_player_id p) (vp_domain p) (vp_seq p) = Inr (Some r)"
      "requireItemOriginal (Some r) original = Inr ()" "decideForceVoidLocked (Some r) ledger = (voidForced, prf)"
      "action = voidForced"
      "void_and_close p (\<lambda>x. it_state x = ITEM_PENDING \<and> it_delivery_count x > 0 \<and> it_request_id x = it_request_id r) st
         (nowMs (tt_now t 0)) db = Inr db1"
      "insertAuditForItem (Some r) (void_audit p AUDIT_FORCE_VOID (nowMs (tt_now t 0))) db1 = Inr db'"
proof -
  obtain lk where L: "lockStream db (RowShard (vp_player_id p)) (vp_player_id p) (vp_domain p) = Inr lk"
    and P: "requirePendingOriginalsTx db original = Inr ()"
    using V unfolding force_void_tx_def Let_def sum_bind_Inr by auto
  show ?thesis
  proof (cases lk)
    case None
    then have "action = voidNotFound \<and> db' = db" using V L P unfolding force_void_tx_def Let_def by simp
    then show ?thesis using same by simp
  next
    case (Some st)
    obtain row where R: "readItem db (RowShard (vp_player_id p)) (vp_player_id p) (vp_domain p) (vp_seq p) = Inr row"
      and O: "requireItemOriginal row original = Inr ()"
      using V L P Some unfolding force_void_tx_def Let_def by (auto simp: sum_bind_Inr)
    obtain a pf where D: "decideForceVoidLocked row ledger = (a, pf)" by (cases "decideForceVoidLocked row ledger")
    note V' = V [unfolded force_void_tx_def Let_def P L Some R O D sum_bind_simps option.case prod.case]
    show ?thesis
    proof (cases "a = voidForced")
      case False
      then show ?thesis using V' same by simp
    next
      case True
      then obtain r where r: "row = Some r"
        using D unfolding decideForceVoidLocked_def by (cases row) auto
      obtain db1 where "void_and_close p (\<lambda>x. it_state x = ITEM_PENDING \<and> it_delivery_count x > 0 \<and> it_request_id x = it_request_id r) st
         (nowMs (tt_now t 0)) db = Inr db1"
        and "insertAuditForItem (Some r) (void_audit p AUDIT_FORCE_VOID (nowMs (tt_now t 0))) db1 = Inr db'"
        and "action = voidForced" and "prf = pf"
        using V' True r by (auto simp: sum_bind_Inr)
      then show ?thesis using forced L Some R O D True r by blast
    qed
  qed
qed

lemma force_void_keeps:
  assumes I: "inbox_inv db" and B: "vp_domain p \<noteq> DOMAIN_SCENE_BATTLE_SETTLEMENT"
    and V: "force_void_tx p ledger t original db = Inr ((action, prf, state), db')"
  shows "keeps db db'"
  using V
proof (cases rule: force_void_tx_D)
  case (forced st r db1)
  have "keeps db db1" by (rule void_and_close_keeps [OF I forced(1) B _ forced(6)]) simp
  then show ?thesis using forced(7) by (rule keeps_after_audit)
qed (use I in simp)

section \<open>Reminders\<close>

lemma stream_books_keep:
  assumes I: "inbox_inv db" and S: "db_streams db' = map g (db_streams db)" and T: "db_items db' = db_items db"
    and G: "\<And>s. \<exists>n. g s = s \<lparr>ps_notify_due_ms := n\<rparr>"
  shows "keeps db db'"
proof -
  have g: "stream_key (g s) = stream_key s" "stream_ok rows (g s) = stream_ok rows s" "stream_le s (g s)" for s rows
    using G [of s] unfolding stream_key_def stream_ok_def stream_le_def by auto
  have "map stream_key (db_streams db') = map stream_key (db_streams db)" unfolding S by (simp add: g)
  moreover have "stream_key ` set (db_streams db') = stream_key ` set (db_streams db)" unfolding S by (simp add: g image_image)
  moreover have "\<forall>st \<in> set (db_streams db'). stream_ok (db_items db) st"
    using I g(2) unfolding S inbox_inv_def by auto
  ultimately have "inbox_inv db'" using I unfolding inbox_inv_def T by simp
  moreover have "db_le db db'"
    unfolding db_le_def T S using g(3) row_le_refl by (metis image_eqI list.set_map)
  ultimately show ?thesis unfolding keeps_def by blast
qed

lemma set_notify_due_keeps:
  assumes I: "inbox_inv db" and N: "set_notify_due pl d tok due t original db = Inr (changed, db')"
  shows "keeps db db'"
proof -
  let ?g = "\<lambda>st. if streamPK (RowShard pl) pl d st \<and> ps_next_seq st = tok \<and> ps_notify_due_ms st \<noteq> 0
                 then st \<lparr>ps_notify_due_ms := due\<rparr> else st"
  have "db' = db \<lparr>db_streams := map ?g (db_streams db)\<rparr>"
    using N unfolding set_notify_due_def sql_update_def by (auto simp: sum_bind_Inr)
  moreover have "\<exists>n. ?g s = s \<lparr>ps_notify_due_ms := n\<rparr>" for s
    by (rule exI [of _ "ps_notify_due_ms (?g s)"]) simp
  ultimately show ?thesis by (intro stream_books_keep [OF I, of _ ?g]) simp_all
qed

section \<open>Enqueue\<close>

lemma ensureStreamTx_keeps:
  assumes I: "inbox_inv db"
  shows "keeps db (ensureStreamTx (RowShard pl) pl d now db)"
proof (cases "\<exists>st \<in> set (db_streams db). streamPK (RowShard pl) pl d st")
  case True
  then show ?thesis using I unfolding ensureStreamTx_def by simp
next
  case False
  let ?st = "\<lparr>ps_shard = RowShard pl, ps_player_id = pl, ps_domain = d, ps_next_seq = 1, ps_fence_epoch = 0,
          ps_open_count = 0, ps_notify_due_ms = 0, ps_created_ms = now, ps_updated_ms = now\<rparr>"
  let ?db = "db \<lparr>db_streams := db_streams db @ [?st]\<rparr>"
  have E: "ensureStreamTx (RowShard pl) pl d now db = ?db" using False unfolding ensureStreamTx_def by simp
  have new: "(pl, d) \<notin> stream_key ` set (db_streams db)"
  proof
    assume "(pl, d) \<in> stream_key ` set (db_streams db)"
    then obtain st where st: "st \<in> set (db_streams db)" "stream_key st = (pl, d)" by force
    then have "streamPK (RowShard pl) pl d st"
      using stream_ok_of [OF I st(1)] unfolding streamPK_def stream_key_def stream_ok_def by simp
    then show False using False st(1) by blast
  qed
  have none: "\<not> in_stream pl d r" if "r \<in> set (db_items db)" for r
    using I new that unfolding inbox_inv_def in_stream_def by auto
  then have "pend (db_items db) pl d = 0"
    unfolding pend_def by (auto simp: filter_empty_conv pending_of_def in_stream_def)
  then have "stream_ok (db_items db) ?st" using none unfolding stream_ok_def by simp
  then have "inbox_inv ?db" using I new unfolding inbox_inv_def by (auto simp: stream_key_def)
  moreover have "db_le db ?db" by (rule db_le_subset) auto
  ultimately show ?thesis unfolding E keeps_def by simp
qed

lemma keeps_trans: "keeps a b \<Longrightarrow> keeps b c \<Longrightarrow> keeps a c"
  unfolding keeps_def using db_le_trans by blast

text \<open>Appending a fresh pending row at the next sequence number of its stream.\<close>

definition appends :: "inbox_db \<Rightarrow> PlayerInboxStream \<Rightarrow> PlayerInboxItemRow \<Rightarrow> inbox_db \<Rightarrow> PlayerInboxStream \<Rightarrow> bool" where
  "appends db st row db' st' \<longleftrightarrow>
     st \<in> set (db_streams db) \<and> (it_player_id row, it_domain row) = stream_key st \<and>
     row_ok row \<and> it_state row = ITEM_PENDING \<and> it_last_delivered_epoch row = 0 \<and> it_decided_epoch row = 0 \<and>
     ps_next_seq st \<le> it_seq row \<and> it_seq row < ps_next_seq st' \<and>
     unat (ps_next_seq st') \<le> 2 ^ 63 + length (db_items db) + 2 \<and>
     stream_key st' = stream_key st \<and> ps_shard st' = ps_shard st \<and> ps_fence_epoch st' = ps_fence_epoch st \<and>
     unat (ps_open_count st') = Suc (unat (ps_open_count st)) \<and>
     item_key row \<notin> item_key ` set (db_items db) \<and> request_key row \<notin> request_key ` set (db_items db) \<and>
     db_items db' = db_items db @ [row] \<and>
     db_streams db' = map (\<lambda>s. if s = st then st' else s) (db_streams db)"

lemma appends_stream_ok:
  assumes I: "inbox_inv db" and A: "appends db st row db' st'" and s: "s \<in> set (db_streams db)"
  shows "stream_ok (db_items db') (if s = st then st' else s)"
proof -
  have st: "st \<in> set (db_streams db)" and T: "db_items db' = db_items db @ [row]"
    and key: "it_player_id row = ps_player_id st" "it_domain row = ps_domain st"
    using A unfolding appends_def stream_key_def by simp_all
  note ok = stream_ok_of [OF I s]
  have sh: "it_shard row = RowShard (it_player_id row)" using A unfolding appends_def row_ok_def by simp
  show ?thesis
  proof (cases "s = st")
    case True
    have facts: "stream_key st' = stream_key st" "ps_shard st' = ps_shard st" "ps_fence_epoch st' = ps_fence_epoch st"
        "unat (ps_open_count st') = Suc (unat (ps_open_count st))" "ps_next_seq st \<le> it_seq row" "it_seq row < ps_next_seq st'"
        "unat (ps_next_seq st') \<le> 2 ^ 63 + length (db_items db) + 2"
        "it_state row = ITEM_PENDING" "it_last_delivered_epoch row = 0" "it_decided_epoch row = 0"
      using A unfolding appends_def by simp_all
    have k': "ps_player_id st' = ps_player_id st" "ps_domain st' = ps_domain st"
      using facts(1) unfolding stream_key_def by simp_all
    have "pend (db_items db') (ps_player_id st) (ps_domain st) = Suc (pend (db_items db) (ps_player_id st) (ps_domain st))"
      unfolding pend_def T using key sh facts(8) by (simp add: pending_of_def)
    moreover have "ps_next_seq st' \<noteq> 0" using facts(6) by auto
    moreover have "it_seq r < ps_next_seq st'" if "it_seq r < ps_next_seq st" for r
      using that facts(5,6) by (meson order.strict_trans order.strict_trans2)
    ultimately show ?thesis using ok True facts k' unfolding stream_ok_def T by auto
  next
    case False
    then have "(ps_player_id s, ps_domain s) \<noteq> (ps_player_id st, ps_domain st)"
      using stream_unique [OF I s st] unfolding stream_key_def by auto
    then have "\<not> in_stream (ps_player_id s) (ps_domain s) row" using key unfolding in_stream_def by auto
    moreover from this have "pend (db_items db') (ps_player_id s) (ps_domain s) = pend (db_items db) (ps_player_id s) (ps_domain s)"
      unfolding pend_def T in_stream_def by (auto simp: pending_of_def)
    ultimately show ?thesis using ok False unfolding stream_ok_def T by auto
  qed
qed

lemma appends_keeps:
  assumes I: "inbox_inv db" and A: "appends db st row db' st'"
  shows "keeps db db'"
proof -
  have st: "st \<in> set (db_streams db)" and T: "db_items db' = db_items db @ [row]"
    and S: "db_streams db' = map (\<lambda>s. if s = st then st' else s) (db_streams db)"
    and K: "stream_key st' = stream_key st" and rk: "(it_player_id row, it_domain row) = stream_key st"
    and ok: "row_ok row" and fresh: "item_key row \<notin> item_key ` set (db_items db)" "request_key row \<notin> request_key ` set (db_items db)"
    and le: "stream_le st st'"
    using A unfolding appends_def stream_le_def by auto
  have items: "distinct (map item_key (db_items db))" "distinct (map request_key (db_items db))"
      "distinct (map stream_key (db_streams db))"
      "\<And>r. r \<in> set (db_items db) \<Longrightarrow> row_ok r \<and> (it_player_id r, it_domain r) \<in> stream_key ` set (db_streams db)"
    using I unfolding inbox_inv_def by simp_all
  have k3: "map stream_key (db_streams db') = map stream_key (db_streams db)" unfolding S using K by simp
  then have k4: "stream_key ` set (db_streams db') = stream_key ` set (db_streams db)" by (metis set_map)
  have rows: "row_ok r \<and> (it_player_id r, it_domain r) \<in> stream_key ` set (db_streams db')" if "r \<in> set (db_items db')" for r
    using that items(4) ok rk st unfolding k4 T by auto
  have streams: "stream_ok (db_items db') s'" if s': "s' \<in> set (db_streams db')" for s'
  proof -
    obtain s where "s \<in> set (db_streams db)" "s' = (if s = st then st' else s)" using s' unfolding S by auto
    then show ?thesis using appends_stream_ok [OF I A] by blast
  qed
  have "distinct (map item_key (db_items db'))" "distinct (map request_key (db_items db'))"
    unfolding T using items(1,2) fresh by auto
  then have "inbox_inv db'" unfolding inbox_inv_def k3 using items(3) rows streams by blast
  moreover have "\<exists>s' \<in> set (db_streams db'). stream_le s s'" if s: "s \<in> set (db_streams db)" for s
  proof (cases "s = st")
    case True
    then have "st' \<in> set (db_streams db')" using s unfolding S by auto
    then show ?thesis using le True by blast
  next
    case False
    then have "s \<in> set (db_streams db')" using s unfolding S by auto
    then show ?thesis using stream_le_refl by blast
  qed
  moreover have "\<forall>r \<in> set (db_items db). \<exists>r' \<in> set (db_items db'). row_le r r'"
  proof
    fix r assume "r \<in> set (db_items db)"
    then have "r \<in> set (db_items db')" unfolding T by simp
    then show "\<exists>r' \<in> set (db_items db'). row_le r r'" by (rule bexI [rotated]) simp
  qed
  ultimately show ?thesis unfolding keeps_def db_le_def by blast
qed

lemma enqueue_insert_appends:
  assumes I: "inbox_inv db" and L: "lockStream db (RowShard (ep_player_id p)) (ep_player_id p) d = Inr (Some st)"
    and room: "ps_open_count st < mp"
    and B: "d = DOMAIN_SCENE_BATTLE_SETTLEMENT \<longleftrightarrow> ep_type p = MSG_BATTLE_SETTLEMENT"
    and E: "enqueue_insert p d digest inTx t original st db = Inr (res, db')"
  obtains seq dbi st' where "appends db st (new_item_row p d digest seq (nowMs (tt_now t 1)) original) dbi st'"
    and "db_items db' = db_items dbi" and "db_streams db' = db_streams dbi"
    and "NextSeq (ps_next_seq st) (nowMs (tt_now t 1)) = Some seq"
    and "res = \<lparr>er_code = None, er_seq = seq, er_created = True, er_state = ITEM_PENDING\<rparr>"
proof -
  let ?now = "nowMs (tt_now t 1)" and ?pl = "ep_player_id p"
  note st = lockStream_D [OF L]
  note ok = stream_ok_of [OF I st(1)]
  obtain seq where N: "NextSeq (ps_next_seq st) ?now = Some seq"
    using E unfolding enqueue_insert_def Let_def by (auto split: option.splits)
  let ?row = "new_item_row p d digest seq ?now original"
  let ?f = "\<lambda>s. s \<lparr>ps_next_seq := seq + 1, ps_open_count := ps_open_count st + 1,
                     ps_notify_due_ms := ?now, ps_updated_ms := ?now\<rparr>"
  obtain db1 where Ins: "insert_item ?row db = Inr db1"
    using E N unfolding enqueue_insert_def Let_def by (auto split: sum.splits)
  obtain db2 where U: "update_stream (RowShard ?pl) ?pl d ?f db1 = Inr db2"
    and Au: "(case inTx of None \<Rightarrow> Inr db2 | Some f \<Rightarrow> sum_bind (f t seq) (\<lambda>a. InsertAudit a db2)) = Inr db'"
    and res: "res = \<lparr>er_code = None, er_seq = seq, er_created = True, er_state = ITEM_PENDING\<rparr>"
    using E N Ins unfolding enqueue_insert_def Let_def by (auto simp: sum_bind_Inr)
  have same: "db_items db' = db_items db2" "db_streams db' = db_streams db2"
    using Au InsertAudit_same by (auto simp: sum_bind_Inr split: option.splits)
  have T: "db_items db1 = db_items db @ [?row]" "db_streams db1 = db_streams db"
    and dup: "\<And>r. r \<in> set (db_items db) \<Longrightarrow> \<not> itemPK (RowShard ?pl) ?pl d seq r \<and>
                 \<not> itemUK (RowShard ?pl) ?pl (ep_producer p) (ep_request_id p) r"
    and few: "length (db_items db) < 2 ^ 46"
    using Ins unfolding insert_item_def new_item_row_def max_table_rows_def by (auto split: if_splits)
  have shard: "it_shard r = RowShard (it_player_id r)" if "r \<in> set (db_items db)" for r
    using I that unfolding inbox_inv_def row_ok_def by blast
  have fresh: "item_key ?row \<notin> item_key ` set (db_items db)" "request_key ?row \<notin> request_key ` set (db_items db)"
    using dup shard unfolding item_key_def request_key_def itemPK_def itemUK_def new_item_row_def by fastforce+
  note ge = NextSeq_ge [OF N]
  have "unat seq \<le> 2 ^ 63 + (length (db_items db) + 1)"
    by (rule NextSeq_bound [OF N]) (use ok in \<open>simp add: stream_ok_def\<close>)
  then have un: "unat (seq + 1) = Suc (unat seq)" and le: "unat (seq + 1) \<le> 2 ^ 63 + length (db_items db) + 2"
    using few by (simp_all add: unat_word_ariths)
  have "unat (ps_open_count st) < unat mp" using room by (simp add: word_less_nat_alt)
  then have oc: "unat (ps_open_count st + 1) = Suc (unat (ps_open_count st))"
    using unsigned_less [of mp, where 'a = nat] by (simp add: unat_word_ariths)
  note M = update_stream_moves [OF I st(1) st(2) T(2) U]
  have "appends db st ?row db2 (?f st)"
    unfolding appends_def using st ge un le oc fresh M T B
    by (simp add: new_item_row_def row_ok_def stream_key_def word_less_nat_alt)
  then show ?thesis by (rule that [OF _ same N res])
qed

lemma readItemByRequest_D:
  assumes "readItemByRequest db (RowShard pl) pl producer rid = Inr found"
  shows "found = List.find (itemUK (RowShard pl) pl producer rid) (db_items db)"
  using assms unfolding readItemByRequest_def scanItem_def by (auto simp: sum_bind_Inr split: option.splits)

lemma readItemByRequest_Some:
  assumes "readItemByRequest db (RowShard pl) pl producer rid = Inr (Some r)"
  shows "r \<in> set (db_items db)" and "request_key r = (pl, producer, rid)"
proof -
  have "r \<in> set (db_items db) \<and> itemUK (RowShard pl) pl producer rid r"
    by (rule find_mem) (rule readItemByRequest_D [OF assms, symmetric])
  then show "r \<in> set (db_items db)" and "request_key r = (pl, producer, rid)"
    unfolding itemUK_def request_key_def by simp_all
qed

lemma readItemByRequest_None:
  assumes "readItemByRequest db (RowShard pl) pl producer rid = Inr None" and I: "inbox_inv db"
  shows "(pl, producer, rid) \<notin> request_key ` set (db_items db)"
proof
  assume "(pl, producer, rid) \<in> request_key ` set (db_items db)"
  then obtain r where r: "r \<in> set (db_items db)" "request_key r = (pl, producer, rid)" by force
  then have "it_shard r = RowShard pl" using I unfolding inbox_inv_def row_ok_def request_key_def by auto
  then have "itemUK (RowShard pl) pl producer rid r" using r(2) unfolding itemUK_def request_key_def by simp
  moreover have "List.find (itemUK (RowShard pl) pl producer rid) (db_items db) = None"
    using readItemByRequest_D [OF assms(1)] by simp
  ultimately show False using r(1) unfolding find_None_iff by blast
qed

text \<open>How an enqueue transaction that commits ended.\<close>

lemma enqueue_tx_D:
  assumes E: "enqueue_tx p d mp digest inTx t original db = Inr (res, db')"
  obtains (existing) r where "readItemByRequest db (RowShard (ep_player_id p)) (ep_player_id p) (ep_producer p) (ep_request_id p) = Inr (Some r)"
      "requireItemOriginal (Some r) original = Inr ()" "res = resultForExisting r digest" "db' = db"
  | (late) "readItemByRequest db (RowShard (ep_player_id p)) (ep_player_id p) (ep_producer p) (ep_request_id p) = Inr None"
      "res = enqueue_code ErrIssuedOutOfWindow" "db' = db"
  | (full) "readItemByRequest db (RowShard (ep_player_id p)) (ep_player_id p) (ep_producer p) (ep_request_id p) = Inr None"
      "res = enqueue_code ErrFull" "db' = ensureStreamTx (RowShard (ep_player_id p)) (ep_player_id p) d (nowMs (tt_now t 0)) db"
  | (inserted) st where "readItemByRequest db (RowShard (ep_player_id p)) (ep_player_id p) (ep_producer p) (ep_request_id p) = Inr None"
      "lockStream (ensureStreamTx (RowShard (ep_player_id p)) (ep_player_id p) d (nowMs (tt_now t 0)) db)
         (RowShard (ep_player_id p)) (ep_player_id p) d = Inr (Some st)"
      "ps_open_count st < mp"
      "enqueue_insert p d digest inTx t original st
         (ensureStreamTx (RowShard (ep_player_id p)) (ep_player_id p) d (nowMs (tt_now t 0)) db) = Inr (res, db')"
proof -
  let ?pl = "ep_player_id p" and ?now = "nowMs (tt_now t 0)"
  let ?db1 = "ensureStreamTx (RowShard ?pl) ?pl d ?now db"
  have items: "db_items ?db1 = db_items db" unfolding ensureStreamTx_def by simp
  obtain found where R: "readItemByRequest db (RowShard ?pl) ?pl (ep_producer p) (ep_request_id p) = Inr found"
    and O: "requireItemOriginal found original = Inr ()"
    and C: "(case found of Some row \<Rightarrow> Inr (resultForExisting row digest, db)
         | None \<Rightarrow> enqueue_new p d mp digest inTx t original db) = Inr (res, db')"
    using E unfolding enqueue_tx_def by (auto simp: sum_bind_Inr split: if_splits)
  show ?thesis
  proof (cases found)
    case (Some r)
    then show ?thesis using existing R O C by simp
  next
    case None
    have R': "readItemByRequest ?db1 (RowShard ?pl) ?pl (ep_producer p) (ep_request_id p) = Inr None"
      using R None unfolding readItemByRequest_def items by simp
    have C': "enqueue_new p d mp digest inTx t original db = Inr (res, db')" using C None by simp
    show ?thesis
    proof (cases "out_of_window p ?now")
      case True
      then show ?thesis using late R None C' unfolding enqueue_new_def Let_def by simp
    next
      case False
      obtain locked where L: "lockStream ?db1 (RowShard ?pl) ?pl d = Inr locked"
        and X: "(case locked of None \<Rightarrow> Inl ErrStreamVanished | Some st \<Rightarrow>
          sum_bind (readItemByRequest ?db1 (RowShard ?pl) ?pl (ep_producer p) (ep_request_id p)) (\<lambda>existing.
          sum_bind (requireItemOriginal existing original) (\<lambda>_.
          case decideEnqueueLocked existing digest (ps_open_count st) mp of
            Some decided \<Rightarrow> Inr (decided, ?db1)
          | None \<Rightarrow> enqueue_insert p d digest inTx t original st ?db1))) = Inr (res, db')"
        using C' False unfolding enqueue_new_def Let_def by (auto simp: sum_bind_Inr)
      then obtain st where st: "locked = Some st" by (cases locked) auto
      have Y: "(case decideEnqueueLocked None digest (ps_open_count st) mp of
            Some decided \<Rightarrow> Inr (decided, ?db1)
          | None \<Rightarrow> enqueue_insert p d digest inTx t original st ?db1) = Inr (res, db')"
        using X unfolding st by (simp add: R' requireItemOriginal_def)
      show ?thesis
      proof (cases "mp \<le> ps_open_count st")
        case True
        then have "res = enqueue_code ErrFull" "db' = ?db1" using Y unfolding decideEnqueueLocked_def by simp_all
        then show ?thesis using full R None by simp
      next
        case False
        then have "enqueue_insert p d digest inTx t original st ?db1 = Inr (res, db')"
          using Y unfolding decideEnqueueLocked_def by simp
        then show ?thesis using inserted [OF _ L [unfolded st]] R None False by simp
      qed
    qed
  qed
qed

lemma enqueue_keeps:
  assumes I: "inbox_inv db"
    and B: "d = DOMAIN_SCENE_BATTLE_SETTLEMENT \<longleftrightarrow> ep_type p = MSG_BATTLE_SETTLEMENT"
    and E: "enqueue_tx p d mp digest inTx t original db = Inr (res, db')"
  shows "keeps db db'"
  using E
proof (cases rule: enqueue_tx_D)
  case full
  show ?thesis unfolding full(3) by (rule ensureStreamTx_keeps [OF I])
next
  case (inserted st)
  let ?db1 = "ensureStreamTx (RowShard (ep_player_id p)) (ep_player_id p) d (nowMs (tt_now t 0)) db"
  have K: "keeps db ?db1" by (rule ensureStreamTx_keeps [OF I])
  then have I1: "inbox_inv ?db1" unfolding keeps_def by blast
  obtain seq dbi st' where A: "appends ?db1 st (new_item_row p d digest seq (nowMs (tt_now t 1)) original) dbi st'"
    and same: "db_items db' = db_items dbi" "db_streams db' = db_streams dbi"
    by (rule enqueue_insert_appends [OF I1 inserted(2,3) B inserted(4)])
  have "keeps ?db1 db'" by (rule keeps_audit [OF appends_keeps [OF I1 A] same])
  then show ?thesis by (rule keeps_trans [OF K])
qed (use I in simp_all)

end
