(* ===== verification/InboxSystem.thy ===== *)
theory InboxSystem
  imports InboxInvariant
begin

text \<open>
  The inbox service as a transition system.  A step is one committed transaction of any caller, with
  any clock readings, or a change of the role tables by other services.  The operations of the store
  run their transactions through the retry loop, between steps of others and with commits whose
  confirmation is lost; each of them only takes steps.
\<close>

section \<open>Steps\<close>

definition store_ok :: "Store \<Rightarrow> bool" where
  "store_ok s \<longleftrightarrow> (\<exists>resolves. NewRegistry resolves = Inr (so_registry s))"

inductive inbox_step :: "Store \<Rightarrow> inbox_db \<Rightarrow> inbox_db \<Rightarrow> bool" for s where
  step_enqueue: "store_ok s \<Longrightarrow>
     ValidatePayload (so_decoder s) (so_registry s) (ep_type p) (so_allowed s) (ep_payload p) = Inr entry \<Longrightarrow>
     Registry_Domain (so_registry s) (ty_domain (te_spec entry)) = Some spec \<Longrightarrow>
     with_player (ep_player_id p) (enqueue_tx p (ty_domain (te_spec entry)) (ds_max_pending spec)
       (ContentSHA256 (so_sha s) (ep_type p) (ep_issued_at_ms p) (ep_payload p)) inTx) t db = Inr (res, db') \<Longrightarrow>
     inbox_step s db db'"
| step_fetch: "fq_consumer_decided_through req < 2 ^ 63 \<Longrightarrow>
     with_player (fq_player_id req) (fetch_tx req) t db = Inr (reply, db') \<Longrightarrow> inbox_step s db db'"
| step_ack: "validateAckReports (aq_decisions req) AckMaxDecisions \<Longrightarrow>
     with_player (aq_player_id req) (ack_tx req) t db = Inr (acks, db') \<Longrightarrow> inbox_step s db db'"
| step_void: "vp_domain p \<noteq> DOMAIN_SCENE_BATTLE_SETTLEMENT \<Longrightarrow>
     with_player (vp_player_id p) (void_tx p) t db = Inr (out, db') \<Longrightarrow> inbox_step s db db'"
| step_force_void: "vp_domain p \<noteq> DOMAIN_SCENE_BATTLE_SETTLEMENT \<Longrightarrow>
     with_player (vp_player_id p) (force_void_tx p ledger) t db = Inr (verdict, db') \<Longrightarrow> inbox_step s db db'"
| step_notify: "with_player pl (set_notify_due pl d tok due) t db = Inr (changed, db') \<Longrightarrow> inbox_step s db db'"
| step_lookup: "with_player (br_player_id breq) (lookup_battle s breq) t db = Inr (found, db') \<Longrightarrow> inbox_step s db db'"
| step_roles: "inbox_step s db (db \<lparr>db_roles := roles, db_admissions := admissions\<rparr>)"

definition empty_inbox :: "inbox_db \<Rightarrow> bool" where
  "empty_inbox db \<longleftrightarrow> db_items db = [] \<and> db_streams db = []"

lemma with_player_D:
  assumes "with_player pl action t db = Inr (a, db')"
  obtains original where "LockCurrent db pl = Inr original" "ow_player_id original = pl" "action t original db = Inr (a, db')"
  using assms unfolding with_player_def by (auto simp: sum_bind_Inr split: if_splits)

lemma lookup_battle_same: "lookup_battle s breq t original db = Inr (found, db') \<Longrightarrow> db' = db"
  unfolding lookup_battle_def by (auto simp: sum_bind_Inr split: option.splits if_splits)

lemma inbox_step_keeps:
  assumes "inbox_step s db db'" and I: "inbox_inv db"
  shows "keeps db db'"
  using assms(1)
proof cases
  case (step_enqueue p entry spec inTx t res)
  obtain resolves where "NewRegistry resolves = Inr (so_registry s)" using step_enqueue(1) unfolding store_ok_def by blast
  then have B: "ty_domain (te_spec entry) = DOMAIN_SCENE_BATTLE_SETTLEMENT \<longleftrightarrow> ep_type p = MSG_BATTLE_SETTLEMENT"
    using NewRegistry_battle_domain ValidatePayload_ok(1) [OF step_enqueue(2)] by blast
  obtain original where "enqueue_tx p (ty_domain (te_spec entry)) (ds_max_pending spec)
       (ContentSHA256 (so_sha s) (ep_type p) (ep_issued_at_ms p) (ep_payload p)) inTx t original db = Inr (res, db')"
    using step_enqueue(4) by (rule with_player_D)
  then show ?thesis by (rule enqueue_keeps [OF I B])
next
  case (step_fetch req t reply)
  obtain original where F: "fetch_tx req t original db = Inr (reply, db')" using step_fetch(2) by (rule with_player_D)
  obtain v items hm where "reply = (v, items, hm)" by (rule prod_cases3)
  then show ?thesis using fetch_keeps [OF I step_fetch(1)] F by blast
next
  case (step_ack req t acks)
  obtain original where F: "ack_tx req t original db = Inr (acks, db')" using step_ack(2) by (rule with_player_D)
  obtain v res where "acks = (v, res)" by fastforce
  then show ?thesis using ack_keeps [OF I step_ack(1)] F by blast
next
  case (step_void p t out)
  obtain original where F: "void_tx p t original db = Inr (out, db')" using step_void(2) by (rule with_player_D)
  obtain a st where "out = (a, st)" by fastforce
  then show ?thesis using void_keeps [OF I step_void(1)] F by blast
next
  case (step_force_void p ledger t verdict)
  obtain original where F: "force_void_tx p ledger t original db = Inr (verdict, db')" using step_force_void(2) by (rule with_player_D)
  obtain a pf st where "verdict = (a, pf, st)" by (rule prod_cases3)
  then show ?thesis using force_void_keeps [OF I step_force_void(1)] F by blast
next
  case (step_notify pl d tok due t changed)
  obtain original where "set_notify_due pl d tok due t original db = Inr (changed, db')" using step_notify by (rule with_player_D)
  then show ?thesis by (rule set_notify_due_keeps [OF I])
next
  case (step_lookup breq t found)
  obtain original where "lookup_battle s breq t original db = Inr (found, db')" using step_lookup by (rule with_player_D)
  then have "db' = db" by (rule lookup_battle_same)
  then show ?thesis using I by simp
next
  case (step_roles roles admissions)
  then show ?thesis by (intro keeps_audit [OF keeps_refl [OF I]]) simp_all
qed

lemma inv_empty: "empty_inbox db \<Longrightarrow> inbox_inv db"
  unfolding empty_inbox_def inbox_inv_def by simp

interpretation ib: invariant_system empty_inbox "inbox_step s" inbox_inv for s
proof
  show "empty_inbox db \<Longrightarrow> inbox_inv db" for db by (rule inv_empty)
  show "inbox_inv db \<Longrightarrow> inbox_step s db db' \<Longrightarrow> inbox_inv db'" for db db'
    using inbox_step_keeps unfolding keeps_def by blast
qed

lemma inbox_steps_keep: "(inbox_step s)\<^sup>*\<^sup>* db db' \<Longrightarrow> inbox_inv db \<Longrightarrow> keeps db db'"
proof (induction rule: rtranclp_induct)
  case (step y z)
  then show ?case using keeps_trans inbox_step_keeps unfolding keeps_def by blast
qed simp

section \<open>Operations of the store\<close>

text \<open>What the attempts of a call see of the others.\<close>

definition tries_ok :: "Store \<Rightarrow> (nat \<Rightarrow> tx_try) \<Rightarrow> bool" where
  "tries_ok s tries \<longleftrightarrow> (\<forall>i db. (inbox_step s)\<^sup>*\<^sup>* db (tt_others (tries i) db))"

lemma runTx_cases:
  assumes "runTx fn t db = (r, db1)"
  obtains (nothing) e where "r = Inl e" "db1 = db"
  | (lost) e a where "r = Inl e" "fn t db = Inr (a, db1)"
  | (ran) a where "r = Inr a" "fn t db = Inr (a, db1)"
  using assms unfolding runTx_def by (auto split: tx_fate.splits sum.splits prod.splits)

lemma retry_run:
  assumes "retryWithBackoff n tries i lastErr fn db = (r, db1)"
    and O: "\<And>i db. Q db \<Longrightarrow> R\<^sup>*\<^sup>* db (tt_others (tries i) db)"
    and B: "\<And>t db a db'. Q db \<Longrightarrow> fn t db = Inr (a, db') \<Longrightarrow> R\<^sup>*\<^sup>* db db'"
    and P: "\<And>db db'. Q db \<Longrightarrow> R\<^sup>*\<^sup>* db db' \<Longrightarrow> Q db'"
    and "Q db"
  shows "R\<^sup>*\<^sup>* db db1 \<and> (\<forall>a. r = Inr a \<longrightarrow> (\<exists>i db0. R\<^sup>*\<^sup>* db db0 \<and> fn (tries i) db0 = Inr (a, db1)))"
  using assms(1,5)
proof (induction n arbitrary: i lastErr db)
  case (Suc n)
  let ?t = "tries i" and ?db0 = "tt_others (tries i) db"
  have o: "R\<^sup>*\<^sup>* db ?db0" by (rule O [OF Suc.prems(2)])
  have q0: "Q ?db0" by (rule P [OF Suc.prems(2) o])
  show ?case
  proof (cases "tt_ctxErr ?t")
    case True
    then show ?thesis using Suc.prems(1) o by (auto simp: Let_def)
  next
    case False
    obtain r1 dbm where X: "runTx fn ?t ?db0 = (r1, dbm)" by fastforce
    have m: "R\<^sup>*\<^sup>* ?db0 dbm" using X by (cases rule: runTx_cases) (use B [OF q0] in auto)
    then have dm: "R\<^sup>*\<^sup>* db dbm" using o by (rule rtranclp_trans [rotated])
    show ?thesis
    proof (cases r1)
      case (Inr a)
      then have "r = Inr a" "db1 = dbm" using Suc.prems(1) False X by (simp_all add: Let_def)
      moreover have "fn ?t ?db0 = Inr (a, dbm)" using X Inr by (cases rule: runTx_cases) auto
      ultimately show ?thesis using dm o by auto
    next
      case (Inl e)
      show ?thesis
      proof (cases "IsRetryableTxError e \<and> n \<noteq> 0 \<and> \<not> tt_sleepErr ?t")
        case True
        then have "retryWithBackoff n tries (Suc i) (Some e) fn dbm = (r, db1)"
          using Suc.prems(1) False X Inl by (simp add: Let_def)
        then have "R\<^sup>*\<^sup>* dbm db1 \<and> (\<forall>a. r = Inr a \<longrightarrow> (\<exists>i db0. R\<^sup>*\<^sup>* dbm db0 \<and> fn (tries i) db0 = Inr (a, db1)))"
          by (rule Suc.IH [OF _ P [OF Suc.prems(2) dm]])
        then show ?thesis using rtranclp_trans [OF dm] by blast
      next
        case False
        then have "r = Inl e" "db1 = dbm" using Suc.prems(1) \<open>\<not> tt_ctxErr ?t\<close> X Inl by (auto simp: Let_def split: if_splits)
        then show ?thesis using dm by simp
      qed
    qed
  qed
qed auto

lemma withPlayerTx_steps:
  assumes "withPlayerTx tries pl action db = (r, db1)" and "tries_ok s tries"
    and "\<And>t db a db'. with_player pl action t db = Inr (a, db') \<Longrightarrow> inbox_step s db db'"
  shows "(inbox_step s)\<^sup>*\<^sup>* db db1"
    and "r = Inr a \<Longrightarrow> \<exists>i db0. (inbox_step s)\<^sup>*\<^sup>* db db0 \<and> with_player pl action (tries i) db0 = Inr (a, db1)"
proof -
  have "(inbox_step s)\<^sup>*\<^sup>* db db1 \<and> (\<forall>a. r = Inr a \<longrightarrow>
      (\<exists>i db0. (inbox_step s)\<^sup>*\<^sup>* db db0 \<and> with_player pl action (tries i) db0 = Inr (a, db1)))"
    by (rule retry_run [where Q = "\<lambda>_. True", OF assms(1) [unfolded withPlayerTx_def]])
       (use assms(2,3) in \<open>auto simp: tries_ok_def\<close>)
  then show "(inbox_step s)\<^sup>*\<^sup>* db db1"
    and "r = Inr a \<Longrightarrow> \<exists>i db0. (inbox_step s)\<^sup>*\<^sup>* db db0 \<and> with_player pl action (tries i) db0 = Inr (a, db1)"
    by blast+
qed

lemma ClearNotifyDue_steps:
  assumes "tries_ok s tries"
  shows "(inbox_step s)\<^sup>*\<^sup>* db (snd (ClearNotifyDue tries pl d tok db))"
proof -
  obtain r db1 where "withPlayerTx tries pl (set_notify_due pl d tok 0) db = (r, db1)" by fastforce
  then show ?thesis using withPlayerTx_steps(1) [OF _ assms step_notify] unfolding ClearNotifyDue_def by simp
qed

lemma DeferNotifyDue_steps:
  assumes "tries_ok s tries"
  shows "(inbox_step s)\<^sup>*\<^sup>* db (snd (DeferNotifyDue tries pl d tok due db))"
proof -
  obtain r db1 where "withPlayerTx tries pl (set_notify_due pl d tok due) db = (r, db1)" by fastforce
  then show ?thesis using withPlayerTx_steps(1) [OF _ assms step_notify] unfolding DeferNotifyDue_def by simp
qed

lemma notifyAndClear_steps:
  "tries_ok s tries \<Longrightarrow> (inbox_step s)\<^sup>*\<^sup>* db (snd (notifyAndClear tries result pl d tok db))"
  unfolding notifyAndClear_def using ClearNotifyDue_steps by simp

lemma ResendNotify_steps:
  assumes "tries_ok s tries" and "tries_ok s tries2"
  shows "(inbox_step s)\<^sup>*\<^sup>* db (snd (ResendNotify tries tries2 answer clock nd db))"
proof -
  obtain result db1 where N: "notifyAndClear tries answer (nd_player_id nd) (nd_domain nd) (nd_next_seq nd) db = (result, db1)"
    by fastforce
  then have one: "(inbox_step s)\<^sup>*\<^sup>* db db1" using notifyAndClear_steps [OF assms(1)] by (metis snd_conv)
  have "(inbox_step s)\<^sup>*\<^sup>* db1 (snd (ResendNotify tries tries2 answer clock nd db))"
    unfolding ResendNotify_def N using ClearNotifyDue_steps [OF assms(2)] DeferNotifyDue_steps [OF assms(2)]
    by (simp add: Let_def)
  then show ?thesis using one by (rule rtranclp_trans [rotated])
qed

text \<open>The observations of an enqueue call.\<close>

definition env_ok :: "Store \<Rightarrow> enqueue_env \<Rightarrow> bool" where
  "env_ok s env \<longleftrightarrow> tries_ok s (ee_tries env) \<and> tries_ok s (ee_clear env)"

text \<open>A call of \<open>Enqueue\<close> that is not refused by its parameters runs one transaction.\<close>

lemma Enqueue_D:
  assumes "Enqueue s env p inTx db = (r, db')"
  obtains (refused) "db' = db" "\<And>res. r = Inr res \<Longrightarrow> er_code res \<noteq> None"
  | (ran) entry spec r1 db1 where
      "ValidatePayload (so_decoder s) (so_registry s) (ep_type p) (so_allowed s) (ep_payload p) = Inr entry"
      "Registry_Domain (so_registry s) (ty_domain (te_spec entry)) = Some spec"
      "withPlayerTx (ee_tries env) (ep_player_id p) (enqueue_tx p (ty_domain (te_spec entry)) (ds_max_pending spec)
         (ContentSHA256 (so_sha s) (ep_type p) (ep_issued_at_ms p) (ep_payload p)) inTx) db = (r1, db1)"
      "r = r1"
      "db' = (case r1 of Inl e \<Rightarrow> db1 | Inr res \<Rightarrow>
         if er_created res then snd (notifyAndClear (ee_clear env) (ee_notify env) (ep_player_id p) (ty_domain (te_spec entry))
                                       (er_seq res + 1) db1) else db1)"
proof -
  consider (bad) "db' = db \<and> (\<forall>res. r = Inr res \<longrightarrow> er_code res \<noteq> None)"
    | (go) entry spec where
      "ValidatePayload (so_decoder s) (so_registry s) (ep_type p) (so_allowed s) (ep_payload p) = Inr entry"
      "Registry_Domain (so_registry s) (ty_domain (te_spec entry)) = Some spec"
      "(case withPlayerTx (ee_tries env) (ep_player_id p) (enqueue_tx p (ty_domain (te_spec entry)) (ds_max_pending spec)
         (ContentSHA256 (so_sha s) (ep_type p) (ep_issued_at_ms p) (ep_payload p)) inTx) db of
                 (Inl e, db1) \<Rightarrow> (Inl e, db1)
               | (Inr res, db1) \<Rightarrow>
                 if er_created res
                 then (Inr res, snd (notifyAndClear (ee_clear env) (ee_notify env) (ep_player_id p) (ty_domain (te_spec entry))
                                       (er_seq res + 1) db1))
                 else (Inr res, db1)) = (r, db')"
    using assms unfolding Enqueue_def Let_def enqueue_code_def
    by (fastforce split: if_splits sum.splits option.splits bool.splits)
  then show ?thesis
  proof cases
    case bad
    then show ?thesis using refused by blast
  next
    case go
    obtain r1 db1 where W: "withPlayerTx (ee_tries env) (ep_player_id p) (enqueue_tx p (ty_domain (te_spec entry)) (ds_max_pending spec)
         (ContentSHA256 (so_sha s) (ep_type p) (ep_issued_at_ms p) (ep_payload p)) inTx) db = (r1, db1)" by fastforce
    show ?thesis
      by (rule ran [OF go(1,2) W]) (use go(3) W in \<open>auto split: sum.splits if_splits\<close>)
  qed
qed

lemma Enqueue_steps:
  assumes ok: "store_ok s" "env_ok s env" and E: "Enqueue s env p inTx db = (r, db')"
  shows "(inbox_step s)\<^sup>*\<^sup>* db db'"
  using E
proof (cases rule: Enqueue_D)
  case (ran entry spec r1 db1)
  have t: "tries_ok s (ee_tries env)" "tries_ok s (ee_clear env)" using ok(2) unfolding env_ok_def by simp_all
  have "(inbox_step s)\<^sup>*\<^sup>* db db1"
    by (rule withPlayerTx_steps(1) [OF ran(3) t(1)]) (rule step_enqueue [OF ok(1) ran(1,2)])
  moreover have "(inbox_step s)\<^sup>*\<^sup>* db1 db'"
    unfolding ran(5) using notifyAndClear_steps [OF t(2)] by (simp split: sum.split)
  ultimately show ?thesis by (rule rtranclp_trans)
qed simp

text \<open>The transaction behind a successful reply.\<close>

lemma Enqueue_committed:
  assumes ok: "store_ok s" "env_ok s env" and E: "Enqueue s env p inTx db = (Inr res, db')" and C: "er_code res = None"
  obtains entry spec i db0 db1 where
      "ValidatePayload (so_decoder s) (so_registry s) (ep_type p) (so_allowed s) (ep_payload p) = Inr entry"
      "Registry_Domain (so_registry s) (ty_domain (te_spec entry)) = Some spec"
      "(inbox_step s)\<^sup>*\<^sup>* db db0"
      "with_player (ep_player_id p) (enqueue_tx p (ty_domain (te_spec entry)) (ds_max_pending spec)
         (ContentSHA256 (so_sha s) (ep_type p) (ep_issued_at_ms p) (ep_payload p)) inTx) (ee_tries env i) db0 = Inr (res, db1)"
      "(inbox_step s)\<^sup>*\<^sup>* db1 db'"
  using E
proof (cases rule: Enqueue_D)
  case refused
  then show ?thesis using C by blast
next
  case (ran entry spec r1 db1)
  have t: "tries_ok s (ee_tries env)" "tries_ok s (ee_clear env)" using ok(2) unfolding env_ok_def by simp_all
  obtain i db0 where "(inbox_step s)\<^sup>*\<^sup>* db db0" and
      "with_player (ep_player_id p) (enqueue_tx p (ty_domain (te_spec entry)) (ds_max_pending spec)
         (ContentSHA256 (so_sha s) (ep_type p) (ep_issued_at_ms p) (ep_payload p)) inTx) (ee_tries env i) db0 = Inr (res, db1)"
    using withPlayerTx_steps(2) [OF ran(3) t(1), of res] step_enqueue [OF ok(1) ran(1,2)] ran(4) by metis
  moreover have "(inbox_step s)\<^sup>*\<^sup>* db1 db'"
    unfolding ran(5) using notifyAndClear_steps [OF t(2)] by (simp split: sum.split)
  ultimately show ?thesis by (rule that [OF ran(1,2)])
qed

lemma GmSanctionPlayer_steps:
  assumes "store_ok s" "env_ok s env"
  shows "(inbox_step s)\<^sup>*\<^sup>* db (snd (GmSanctionPlayer s marshal env req peer db))"
proof -
  have *: "(inbox_step s)\<^sup>*\<^sup>* db (snd (case Enqueue s env p f db of
              (Inl e, db1) \<Rightarrow> (GmUnavailable, db1)
            | (Inr res, db1) \<Rightarrow>
              (case er_code res of Some code \<Rightarrow> (GmRejected code, db1)
               | None \<Rightarrow> (GmAccepted (er_seq res) (er_created res) (er_state res), db1))))" for p f
  proof -
    obtain r db1 where E: "Enqueue s env p f db = (r, db1)" by fastforce
    show ?thesis using Enqueue_steps [OF assms E] unfolding E by (auto split: sum.split option.split)
  qed
  show ?thesis unfolding GmSanctionPlayer_def using * by (auto split: option.split)
qed

lemma EnqueueBattleSettlement_steps:
  assumes "store_ok s" "env_ok s env"
  shows "(inbox_step s)\<^sup>*\<^sup>* db (snd (EnqueueBattleSettlement s env req db))"
proof -
  obtain r db1 where E: "Enqueue s env (battle_params req) None db = (r, db1)" by fastforce
  show ?thesis unfolding EnqueueBattleSettlement_def E using Enqueue_steps [OF assms E] by (auto split: sum.split)
qed

lemma LookupBattleSettlement_steps:
  assumes "tries_ok s tries"
  shows "(inbox_step s)\<^sup>*\<^sup>* db (snd (LookupBattleSettlement s tries req db))"
proof -
  have "(inbox_step s)\<^sup>*\<^sup>* db (snd (withPlayerTx tries (br_player_id req) (lookup_battle s req) db))"
    by (rule withPlayerTx_steps(1) [OF prod.collapse [symmetric] assms]) (rule step_lookup)
  then show ?thesis unfolding LookupBattleSettlement_def by simp
qed

text \<open>A fetch or an acknowledgement that answers with a fence verdict ran its transaction.\<close>

definition fetch_checked :: "Store \<Rightarrow> FetchPlayerInboxRequest \<Rightarrow> bool" where
  "fetch_checked s req \<longleftrightarrow> Registry_Domain (so_registry s) (fq_domain req) \<noteq> None \<and> fq_player_id req \<noteq> 0 \<and>
     fq_owner_epoch req \<noteq> 0 \<and> admission_fits (fq_admission req) (fq_player_id req) (fq_owner_epoch req)"

lemma Fetch_D:
  assumes "Fetch s tries req db = (r, db')"
  obtains (refused) "\<not> fetch_checked s req" "db' = db" "\<And>resp. r = Inr resp \<Longrightarrow> \<not> FenceAllows (fs_fence resp)"
  | (ran) r1 where "fetch_checked s req" "withPlayerTx tries (fq_player_id req) (fetch_tx req) db = (r1, db')"
      "r = (case r1 of Inl e \<Rightarrow> Inl e | Inr (verdict, items, hasMore) \<Rightarrow> Inr
          (if verdict = FENCE_NO_STREAM then fetch_reply None verdict
           else if \<not> FenceAllows verdict then fetch_reply (fenceRejectTip verdict) verdict
           else \<lparr>fs_error = None, fs_fence = verdict, fs_items = items, fs_has_more = hasMore\<rparr>))"
proof (cases "fetch_checked s req")
  case True
  obtain r1 db1 where W: "withPlayerTx tries (fq_player_id req) (fetch_tx req) db = (r1, db1)" by fastforce
  have "(case withPlayerTx tries (fq_player_id req) (fetch_tx req) db of
        (Inl e, db1) \<Rightarrow> (Inl e, db1)
      | (Inr (verdict, items, hasMore), db1) \<Rightarrow>
          if verdict = FENCE_NO_STREAM then (Inr (fetch_reply None verdict), db1)
          else if \<not> FenceAllows verdict then (Inr (fetch_reply (fenceRejectTip verdict) verdict), db1)
          else (Inr \<lparr>fs_error = None, fs_fence = verdict, fs_items = items, fs_has_more = hasMore\<rparr>, db1)) = (r, db')"
    using assms True unfolding Fetch_def fetch_checked_def by simp
  then have "db' = db1 \<and> r = (case r1 of Inl e \<Rightarrow> Inl e | Inr (verdict, items, hasMore) \<Rightarrow> Inr
          (if verdict = FENCE_NO_STREAM then fetch_reply None verdict
           else if \<not> FenceAllows verdict then fetch_reply (fenceRejectTip verdict) verdict
           else \<lparr>fs_error = None, fs_fence = verdict, fs_items = items, fs_has_more = hasMore\<rparr>))"
    unfolding W by (auto split: sum.splits if_splits)
  then show ?thesis using ran [OF True] W by blast
next
  case False
  then have "db' = db \<and> (\<forall>resp. r = Inr resp \<longrightarrow> \<not> FenceAllows (fs_fence resp))"
    using assms unfolding Fetch_def fetch_checked_def fetch_reply_def by (auto split: if_splits)
  then show ?thesis using refused [OF False] by blast
qed

definition ack_checked :: "Store \<Rightarrow> AckPlayerInboxRequest \<Rightarrow> bool" where
  "ack_checked s req \<longleftrightarrow> Registry_Domain (so_registry s) (aq_domain req) \<noteq> None \<and> aq_player_id req \<noteq> 0 \<and>
     validateAckReports (aq_decisions req) AckMaxDecisions \<and>
     aq_owner_epoch req \<noteq> 0 \<and> admission_fits (aq_admission req) (aq_player_id req) (aq_owner_epoch req)"

lemma Ack_items_D:
  assumes "Ack_items s tries req db = (r, db')"
  obtains (refused) "\<not> ack_checked s req" "db' = db"
  | (ran) r1 where "ack_checked s req" "withPlayerTx tries (aq_player_id req) (ack_tx req) db = (r1, db')"
      "r = (case r1 of Inl e \<Rightarrow> Inl e | Inr (verdict, results) \<Rightarrow> Inr
          (if verdict = FENCE_NO_STREAM then \<lparr>as_error = None, as_fence = verdict, as_results = results\<rparr>
           else if \<not> FenceAllows verdict then \<lparr>as_error = fenceRejectTip verdict, as_fence = verdict, as_results = []\<rparr>
           else \<lparr>as_error = None, as_fence = verdict, as_results = results\<rparr>))"
proof (cases "ack_checked s req")
  case True
  obtain r1 db1 where W: "withPlayerTx tries (aq_player_id req) (ack_tx req) db = (r1, db1)" by fastforce
  have "(case withPlayerTx tries (aq_player_id req) (ack_tx req) db of
        (Inl e, db1) \<Rightarrow> (Inl e, db1)
      | (Inr (verdict, results), db1) \<Rightarrow>
          if verdict = FENCE_NO_STREAM
          then (Inr \<lparr>as_error = None, as_fence = verdict, as_results = results\<rparr>, db1)
          else if \<not> FenceAllows verdict
          then (Inr \<lparr>as_error = fenceRejectTip verdict, as_fence = verdict, as_results = []\<rparr>, db1)
          else (Inr \<lparr>as_error = None, as_fence = verdict, as_results = results\<rparr>, db1)) = (r, db')"
    using assms True unfolding Ack_items_def ack_checked_def by simp
  then have "db' = db1 \<and> r = (case r1 of Inl e \<Rightarrow> Inl e | Inr (verdict, results) \<Rightarrow> Inr
          (if verdict = FENCE_NO_STREAM then \<lparr>as_error = None, as_fence = verdict, as_results = results\<rparr>
           else if \<not> FenceAllows verdict then \<lparr>as_error = fenceRejectTip verdict, as_fence = verdict, as_results = []\<rparr>
           else \<lparr>as_error = None, as_fence = verdict, as_results = results\<rparr>))"
    unfolding W by (auto split: sum.splits if_splits)
  then show ?thesis using ran [OF True] W by blast
next
  case False
  then have "db' = db" using assms unfolding Ack_items_def ack_checked_def by (auto split: if_splits)
  then show ?thesis using refused [OF False] by blast
qed

lemma Fetch_steps:
  assumes "tries_ok s tries" and w: "fq_consumer_decided_through req < 2 ^ 63" and F: "Fetch s tries req db = (r, db')"
  shows "(inbox_step s)\<^sup>*\<^sup>* db db'"
  using F
proof (cases rule: Fetch_D)
  case (ran r1)
  show ?thesis by (rule withPlayerTx_steps(1) [OF ran(2) assms(1)]) (rule step_fetch [OF w])
qed simp

lemma Ack_items_steps:
  assumes "tries_ok s tries" and A: "Ack_items s tries req db = (r, db')"
  shows "(inbox_step s)\<^sup>*\<^sup>* db db'"
  using A
proof (cases rule: Ack_items_D)
  case (ran r1)
  then have "validateAckReports (aq_decisions req) AckMaxDecisions" unfolding ack_checked_def by simp
  then show ?thesis by (intro withPlayerTx_steps(1) [OF ran(2) assms(1)]) (rule step_ack)
qed simp

lemma forceVoid_steps:
  assumes "tries_ok s tries" and B: "vp_domain p \<noteq> DOMAIN_SCENE_BATTLE_SETTLEMENT"
  shows "(inbox_step s)\<^sup>*\<^sup>* db (snd (forceVoid tries p ledgers db))"
proof -
  have *: "(inbox_step s)\<^sup>*\<^sup>* db (snd (withPlayerTx tries (vp_player_id p) (force_void_tx p l) db))" for l
    by (rule withPlayerTx_steps(1) [OF prod.collapse [symmetric] assms(1)]) (rule step_force_void [OF B])
  show ?thesis unfolding forceVoid_def
    by (auto simp: Let_def split: option.split sum.split prod.split) (metis * snd_conv)+
qed

lemma Void_steps:
  assumes "tries_ok s tries"
  shows "(inbox_step s)\<^sup>*\<^sup>* db (snd (Void s tries p ledgers db))"
proof (cases "vp_domain p = DOMAIN_SCENE_BATTLE_SETTLEMENT")
  case True
  then show ?thesis unfolding Void_def by simp
next
  case False
  have *: "(inbox_step s)\<^sup>*\<^sup>* db (snd (withPlayerTx tries (vp_player_id p) (void_tx p) db))"
    by (rule withPlayerTx_steps(1) [OF prod.collapse [symmetric] assms]) (rule step_void [OF False])
  obtain r1 db1 where W: "withPlayerTx tries (vp_player_id p) (void_tx p) db = (r1, db1)" by fastforce
  have "snd (Void s tries p ledgers db) \<in> {db, db1, snd (forceVoid tries p ledgers db)}"
    unfolding Void_def W using False by (auto simp: Let_def split: option.split sum.split)
  then show ?thesis using * forceVoid_steps [OF assms False] W by auto
qed

end
