(* ===== verification/InboxExample.thy ===== *)
theory InboxExample
  imports InboxSystem
begin

text \<open>
  One concrete inbox, the input at which the properties are applied: the production registry, a role
  with an old and a new scene instance, attempts that neither fail nor meet other transactions, and the
  states after a first request, its delivery, a second request and a void.
\<close>

definition demo_store :: Store where
  "demo_store = \<lparr>so_registry = production_registry,
     so_allowed = [MSG_GM_BLOCK_CURRENCY_GAIN, MSG_GM_UNBLOCK_CURRENCY_GAIN],
     so_decoder = (\<lambda>_ _. Some (GainPayload 1, [])), so_sha = (\<lambda>bs. take 32 (bs @ replicate 32 0))\<rparr>"

definition demo_uuid :: "byte \<Rightarrow> bytes" where
  "demo_uuid b = replicate 8 b @ [0x2D] @ replicate 4 b @ [0x2D] @ replicate 4 b @ [0x2D] @ replicate 4 b @ [0x2D] @ replicate 12 b"

definition demo_admission :: "byte \<Rightarrow> u64 \<Rightarrow> RoleAdmissionIdentity" where
  "demo_admission b epoch = \<lparr>ra_player_id = 7, ra_scene_instance_id = demo_uuid b, ra_generation = 1,
     ra_owner_revision = 1, ra_owner_epoch = epoch, ra_scene_node_id = [0x61], ra_scene_id = 1, ra_zone_id = 1,
     ra_session_id = 1, ra_login_generation = 1\<rparr>"

definition demo_admitted :: "byte \<Rightarrow> u64 \<Rightarrow> admission_row" where
  "demo_admitted b epoch = \<lparr>am_highest_generation = 1, am_closed_through = 0, am_identity = Some (demo_admission b epoch)\<rparr>"

definition demo_db0 :: inbox_db where
  "demo_db0 = \<lparr>db_items = [], db_streams = [], db_audits = [],
     db_roles = (\<lambda>pl. if pl = 7 then Some \<lparr>ar_account = [0x70], ar_owner_revision = 1, ar_trade_listing_id = 0\<rparr> else None),
     db_admissions = (\<lambda>pl inst. if pl = 7 \<and> inst = demo_uuid 0x30 then Some (demo_admitted 0x30 3)
        else if pl = 7 \<and> inst = demo_uuid 0x31 then Some (demo_admitted 0x31 5) else None)\<rparr>"

definition demo_tries :: "nat \<Rightarrow> tx_try" where
  "demo_tries _ = \<lparr>tt_ctxErr = False, tt_others = (\<lambda>db. db), tt_fate = TxRuns, tt_now = (\<lambda>i. 1000 + int i), tt_sleepErr = False\<rparr>"

definition demo_env :: enqueue_env where
  "demo_env = \<lparr>ee_exists = Inr True, ee_tries = demo_tries, ee_notify = NotifySent, ee_clear = demo_tries\<rparr>"

definition demo_request :: "u64 \<Rightarrow> EnqueueParams" where
  "demo_request req = \<lparr>ep_player_id = 7, ep_type = MSG_GM_BLOCK_CURRENCY_GAIN, ep_producer = PRODUCER_GM, ep_request_id = req,
     ep_issued_at_ms = 1000, ep_payload = [0x08, 0x01], ep_operator = [0x67], ep_note = [], ep_battle_original = None\<rparr>"

definition demo_fetch :: "byte \<Rightarrow> u64 \<Rightarrow> FetchPlayerInboxRequest" where
  "demo_fetch b epoch = \<lparr>fq_player_id = 7, fq_domain = DOMAIN_SCENE_GM_SANCTION, fq_owner_epoch = epoch,
     fq_consumer_decided_through = 4100200, fq_max_items = 0, fq_admission = Some (demo_admission b epoch)\<rparr>"

definition demo_db1 :: inbox_db where "demo_db1 = snd (Enqueue demo_store demo_env (demo_request 11) None demo_db0)"
definition demo_db2 :: inbox_db where "demo_db2 = snd (Fetch demo_store demo_tries (demo_fetch 0x31 5) demo_db1)"
definition demo_db3 :: inbox_db where "demo_db3 = snd (Enqueue demo_store demo_env (demo_request 12) None demo_db2)"

text \<open>The bound of the table as a binary integer, for evaluation.\<close>

lemma insert_item_code [code]:
  "insert_item row db =
     (if \<exists>r \<in> set (db_items db). itemPK (it_shard row) (it_player_id row) (it_domain row) (it_seq row) r \<or>
           itemUK (it_shard row) (it_player_id row) (it_producer_kind row) (it_request_id row) r
      then Inl (MySQL 1062)
      else if 70368744177664 \<le> int (length (db_items db)) then Inl (MySQL 1114)
      else Inr (db \<lparr>db_items := db_items db @ [row]\<rparr>))"
proof -
  have "max_table_rows \<le> length (db_items db) \<longleftrightarrow> 70368744177664 \<le> int (length (db_items db))"
    unfolding max_table_rows_def by simp
  then show ?thesis unfolding insert_item_def by simp
qed


lemma with_snd: "fst x = a \<Longrightarrow> x = (a, snd x)"
  by auto

lemma demo_enqueue1: "Enqueue demo_store demo_env (demo_request 11) None demo_db0 =
    (Inr \<lparr>er_code = None, er_seq = 4100096, er_created = True, er_state = ITEM_PENDING\<rparr>, demo_db1)"
  unfolding demo_db1_def by (rule with_snd) code_simp

lemma demo_enqueue_again: "Enqueue demo_store demo_env (demo_request 11) None demo_db2 =
    (Inr \<lparr>er_code = None, er_seq = 4100096, er_created = False, er_state = ITEM_PENDING\<rparr>,
     snd (Enqueue demo_store demo_env (demo_request 11) None demo_db2))"
  by (rule with_snd) code_simp

definition demo_item :: "u64 \<Rightarrow> u64 \<Rightarrow> PlayerInboxItem" where
  "demo_item seq req = \<lparr>pi_seq = seq, pi_msg_type = 1, pi_directive = DIRECTIVE_NONE, pi_void_reason = VOID_UNSPECIFIED,
     pi_request_id = req, pi_delivery_count = 1, pi_created_ms = 1001, pi_payload = [8, 1]\<rparr>"

lemma demo_fetch1: "Fetch demo_store demo_tries (demo_fetch 0x31 5) demo_db1 =
    (Inr \<lparr>fs_error = None, fs_fence = FENCE_FIRST, fs_items = [demo_item 4100096 11], fs_has_more = False\<rparr>, demo_db2)"
  unfolding demo_db2_def by (rule with_snd) code_simp

lemma demo_enqueue2: "Enqueue demo_store demo_env (demo_request 12) None demo_db2 =
    (Inr \<lparr>er_code = None, er_seq = 4100201, er_created = True, er_state = ITEM_PENDING\<rparr>, demo_db3)"
  unfolding demo_db3_def by (rule with_snd) code_simp

definition demo_ack :: "byte \<Rightarrow> u64 \<Rightarrow> AckPlayerInboxRequest" where
  "demo_ack b epoch = \<lparr>aq_player_id = 7, aq_domain = DOMAIN_SCENE_GM_SANCTION, aq_owner_epoch = epoch,
     aq_decisions = [\<lparr>dr_seq = 4100096, dr_request_id = 11, dr_outcome = OUTCOME_APPLIED, dr_reason = 0\<rparr>],
     aq_admission = Some (demo_admission b epoch)\<rparr>"

lemma demo_stale_ack: "Ack_items demo_store demo_tries (demo_ack 0x30 3) demo_db3 =
    (Inr \<lparr>as_error = Some ErrStaleOwner, as_fence = FENCE_STALE, as_results = []\<rparr>,
     snd (Ack_items demo_store demo_tries (demo_ack 0x30 3) demo_db3))"
  by (rule with_snd) code_simp

lemma demo_stale_fetch: "Fetch demo_store demo_tries (demo_fetch 0x30 3) demo_db3 =
    (Inr (fetch_reply (Some ErrStaleOwner) FENCE_STALE), snd (Fetch demo_store demo_tries (demo_fetch 0x30 3) demo_db3))"
  by (rule with_snd) code_simp

definition demo_decision :: "u64 \<Rightarrow> u64 \<Rightarrow> PlayerInboxDecision" where
  "demo_decision seq req = \<lparr>de_seq = seq, de_outcome = OUTCOME_APPLIED, de_reason = 0, de_request_id = req, de_msg_type = 1\<rparr>"

text \<open>A ledger from another history: it records request 99 where the table has request 11.\<close>

definition demo_history :: "PlayerInboxDecision list" where
  "demo_history = [demo_decision 4100096 99, demo_decision 4100200 100]"

definition demo_ledger :: PlayerInboxLedgerComp where
  "demo_ledger = [\<lparr>cu_domain = 1, cu_decided_through_seq = 4100200, cu_recent = demo_history\<rparr>]"

definition demo_void :: VoidParams where
  "demo_void = \<lparr>vp_player_id = 7, vp_domain = 1, vp_seq = 4100096, vp_reason = VOID_QUARANTINED, vp_operator = [0x67],
     vp_note = [0x6E], vp_peer_addr = [], vp_mode = VOID_MODE_FORCE_MISMATCH\<rparr>"

lemma demo_forced: "Void demo_store demo_tries demo_void (Some (Inr (Some demo_ledger))) demo_db3 =
    (Inr \<lparr>vr_error = None, vr_state = ITEM_VOIDED, vr_void_requested = False, vr_force_verdict = FORCE_VOID_PROVEN\<rparr>,
     snd (Void demo_store demo_tries demo_void (Some (Inr (Some demo_ledger))) demo_db3))"
  by (rule with_snd) code_simp

lemma production_registry_starts: "NewRegistry (\<lambda>_. True) = Inr production_registry"
proof -
  obtain r where "NewRegistry (\<lambda>_. True) = Inr r" using NewRegistry_starts [of "\<lambda>_. True"] by blast
  then show ?thesis unfolding production_registry_def by simp
qed

lemma demo_store_ok: "store_ok demo_store"
  unfolding store_ok_def demo_store_def using production_registry_starts by auto

lemma demo_tries_ok: "tries_ok s demo_tries"
  unfolding tries_ok_def demo_tries_def by simp

lemma demo_env_ok: "env_ok s demo_env"
  unfolding env_ok_def demo_env_def using demo_tries_ok by simp

lemma demo_empty: "empty_inbox demo_db0"
  unfolding empty_inbox_def demo_db0_def by simp

lemma demo_run1: "(inbox_step demo_store)\<^sup>*\<^sup>* demo_db0 demo_db1"
  by (rule Enqueue_steps [OF demo_store_ok demo_env_ok demo_enqueue1])

lemma demo_run2: "(inbox_step demo_store)\<^sup>*\<^sup>* demo_db1 demo_db2"
  by (rule Fetch_steps [OF demo_tries_ok _ demo_fetch1]) (simp add: demo_fetch_def)

lemma demo_run3: "(inbox_step demo_store)\<^sup>*\<^sup>* demo_db2 demo_db3"
  by (rule Enqueue_steps [OF demo_store_ok demo_env_ok demo_enqueue2])

lemma demo_reach2: "(inbox_step demo_store)\<^sup>*\<^sup>* demo_db0 demo_db2"
  using demo_run1 demo_run2 by (rule rtranclp_trans)

lemma demo_reach3: "(inbox_step demo_store)\<^sup>*\<^sup>* demo_db0 demo_db3"
  using demo_reach2 demo_run3 by (rule rtranclp_trans)

lemma demo_holds: "cursor_holds demo_history (FindCursor demo_ledger 1)"
  unfolding cursor_holds_def cursor_through_def cursor_ring_def FindCursor_def demo_ledger_def demo_history_def
    demo_decision_def IsRecordableOutcome_def kRecentCapacity_def
  by simp

definition demo_db4 :: inbox_db where
  "demo_db4 = snd (Void demo_store demo_tries demo_void (Some (Inr (Some demo_ledger))) demo_db3)"
definition demo_db5 :: inbox_db where "demo_db5 = snd (Enqueue demo_store demo_env (demo_request 13) None demo_db4)"

lemma demo_run4: "(inbox_step demo_store)\<^sup>*\<^sup>* demo_db3 demo_db4"
  unfolding demo_db4_def by (rule Void_steps [OF demo_tries_ok])

lemma demo_run5: "(inbox_step demo_store)\<^sup>*\<^sup>* demo_db4 demo_db5"
  unfolding demo_db5_def by (rule Enqueue_steps [OF demo_store_ok demo_env_ok prod.collapse [symmetric]])

lemma demo_reach4: "(inbox_step demo_store)\<^sup>*\<^sup>* demo_db0 demo_db4"
  using demo_reach3 demo_run4 by (rule rtranclp_trans)

lemma demo_voided: "db_items demo_db4 \<noteq> [] \<and> IsTerminalState (it_state (hd (db_items demo_db4)))"
  by code_simp

definition demo_entry :: TypeEntry where
  "demo_entry = the (Registry_Type production_registry MSG_GM_BLOCK_CURRENCY_GAIN)"

lemma demo_entry_is: "Registry_Type production_registry MSG_GM_BLOCK_CURRENCY_GAIN = Some demo_entry"
proof -
  have "\<not> Option.is_none (Registry_Type production_registry MSG_GM_BLOCK_CURRENCY_GAIN)" by code_simp
  then show ?thesis unfolding demo_entry_def by (cases "Registry_Type production_registry MSG_GM_BLOCK_CURRENCY_GAIN") simp_all
qed

lemma demo_entry_domain: "ty_domain (te_spec demo_entry) = 1"
  by code_simp

end
