(* ===== verification/InboxTheorems.thy ===== *)
theory InboxTheorems
  imports InboxExample
begin

text \<open>
  The properties of the player inbox, from the tables of the service to the effects on the scene
  server.  The witnesses run the operations on a small database with one player.
\<close>

section \<open>Following rows and streams through a run\<close>

lemma inbox_inv_steps: "(inbox_step s)\<^sup>*\<^sup>* db db' \<Longrightarrow> inbox_inv db \<Longrightarrow> inbox_inv db'"
  using inbox_steps_keep unfolding keeps_def by blast

lemma row_unique:
  assumes "inbox_inv db" and "r \<in> set (db_items db)" and "r' \<in> set (db_items db)" and "request_key r = request_key r'"
  shows "r = r'"
proof -
  have "inj_on request_key (set (db_items db))" using assms(1) unfolding inbox_inv_def distinct_map by blast
  then show ?thesis by (rule inj_onD) (rule assms)+
qed

lemma item_unique:
  assumes "inbox_inv db" and "r \<in> set (db_items db)" and "r' \<in> set (db_items db)" and "item_key r = item_key r'"
  shows "r = r'"
proof -
  have "inj_on item_key (set (db_items db))" using assms(1) unfolding inbox_inv_def distinct_map by blast
  then show ?thesis by (rule inj_onD) (rule assms)+
qed

lemma row_follows:
  assumes "(inbox_step s)\<^sup>*\<^sup>* db db'" and "inbox_inv db" and "r \<in> set (db_items db)"
  obtains r' where "r' \<in> set (db_items db')" and "row_le r r'"
  using inbox_steps_keep [OF assms(1,2)] assms(3) unfolding keeps_def db_le_def by blast

lemma stream_follows:
  assumes "(inbox_step s)\<^sup>*\<^sup>* db db'" and "inbox_inv db" and "st \<in> set (db_streams db)"
  obtains st' where "st' \<in> set (db_streams db')" and "stream_le st st'"
  using inbox_steps_keep [OF assms(1,2)] assms(3) unfolding keeps_def db_le_def by blast

lemma lockStream_is:
  assumes "inbox_inv db" and "st \<in> set (db_streams db)" and "stream_key st = (pl, d)"
    and "lockStream db (RowShard pl) pl d = Inr locked"
  shows "locked = Some st"
proof (cases locked)
  case None
  then show ?thesis using lockStream_None [OF _ assms(1)] assms(2-4) by force
next
  case (Some st')
  then have "st' \<in> set (db_streams db)" "stream_key st' = (pl, d)" using lockStream_D assms(4) by blast+
  then have "st' = st" using stream_unique [OF assms(1) _ assms(2)] assms(3) by simp
  then show ?thesis using Some by simp
qed

lemma row_le_same: "row_le r r' \<Longrightarrow> request_key r' = request_key r \<and> it_seq r' = it_seq r \<and> it_content_sha256 r' = it_content_sha256 r"
  unfolding row_le_def content_def request_key_def by simp

section \<open>Consistency\<close>

text \<open>
  Property C7.  In every reachable state of the inbox service the tables are consistent: primary and
  idempotency keys are unique, every row is in the shard of its player and has its stream, a row is
  pending exactly while nobody finalised it, battle settlements end only as applied by the consumer,
  and every stream's open count is the number of its pending rows, its next sequence number is above
  all its rows and its fence is at least every epoch recorded in them.
\<close>

theorem inbox_consistent:
  assumes "empty_inbox db0" and "(inbox_step s)\<^sup>*\<^sup>* db0 db"
  shows "inbox_inv db"
  by (rule ib.inv_reachable [OF assms])

theorem inbox_consistent_witness:
  "empty_inbox demo_db0 \<and> (inbox_step demo_store)\<^sup>*\<^sup>* demo_db0 demo_db4 \<and> inbox_inv demo_db4"
  using inbox_consistent [OF demo_empty demo_reach4] demo_empty demo_reach4 by blast

text \<open>
  Property C13.  Every operation of the store, under any interference by other transactions, with
  retries and with commits whose confirmation is lost, changes the database only by committed
  transactions of the protocol.
\<close>

theorem store_follows_protocol:
  assumes "store_ok s" and "env_ok s env" and "tries_ok s tries" and "tries_ok s tries2"
    and "fq_consumer_decided_through freq < 2 ^ 63"
  shows "(inbox_step s)\<^sup>*\<^sup>* db (snd (Enqueue s env p inTx db)) \<and>
    (inbox_step s)\<^sup>*\<^sup>* db (snd (GmSanctionPlayer s marshal env gmreq peer db)) \<and>
    (inbox_step s)\<^sup>*\<^sup>* db (snd (EnqueueBattleSettlement s env breq db)) \<and>
    (inbox_step s)\<^sup>*\<^sup>* db (snd (LookupBattleSettlement s tries breq db)) \<and>
    (inbox_step s)\<^sup>*\<^sup>* db (snd (Fetch s tries freq db)) \<and>
    (inbox_step s)\<^sup>*\<^sup>* db (snd (Ack_items s tries areq db)) \<and>
    (inbox_step s)\<^sup>*\<^sup>* db (snd (Void s tries vp ledgers db)) \<and>
    (inbox_step s)\<^sup>*\<^sup>* db (snd (ResendNotify tries tries2 answer clock nd db))"
  by (intro conjI Enqueue_steps [OF assms(1,2) prod.collapse [symmetric]] GmSanctionPlayer_steps [OF assms(1,2)]
    EnqueueBattleSettlement_steps [OF assms(1,2)] LookupBattleSettlement_steps [OF assms(3)]
    Fetch_steps [OF assms(3,5) prod.collapse [symmetric]] Ack_items_steps [OF assms(3) prod.collapse [symmetric]]
    Void_steps [OF assms(3)] ResendNotify_steps [OF assms(3,4)])

theorem store_follows_protocol_witness:
  "(inbox_step demo_store)\<^sup>*\<^sup>* demo_db0 (snd (Enqueue demo_store demo_env (demo_request 11) None demo_db0)) \<and>
   (inbox_step demo_store)\<^sup>*\<^sup>* demo_db1 (snd (Fetch demo_store demo_tries (demo_fetch 0x31 5) demo_db1)) \<and>
   (inbox_step demo_store)\<^sup>*\<^sup>* demo_db3 (snd (Ack_items demo_store demo_tries (demo_ack 0x31 5) demo_db3)) \<and>
   (inbox_step demo_store)\<^sup>*\<^sup>* demo_db3 (snd (Void demo_store demo_tries demo_void (Some (Inr (Some demo_ledger))) demo_db3))"
proof -
  have w: "fq_consumer_decided_through (demo_fetch 0x31 5) < 2 ^ 63" unfolding demo_fetch_def by simp
  note T = store_follows_protocol [OF demo_store_ok demo_env_ok demo_tries_ok demo_tries_ok w]
  show ?thesis by (intro conjI) (use T in blast)+
qed

text \<open>
  Property C14.  Rows are permanent receipts: from any reachable state on, every row stays, with the
  content it was accepted with, and once it has an outcome it never changes again; there is always
  exactly one row under its key.
\<close>

theorem outcome_is_final:
  assumes "empty_inbox db0" and "(inbox_step s)\<^sup>*\<^sup>* db0 db" and "(inbox_step s)\<^sup>*\<^sup>* db db'" and "r \<in> set (db_items db)"
  shows "(\<exists>!r'. r' \<in> set (db_items db') \<and> request_key r' = request_key r) \<and>
    (\<forall>r' \<in> set (db_items db'). request_key r' = request_key r \<longrightarrow>
       content r' = content r \<and> (IsTerminalState (it_state r) \<longrightarrow> r' = r))"
proof -
  have I: "inbox_inv db" by (rule ib.inv_reachable [OF assms(1,2)])
  have I': "inbox_inv db'" by (rule inbox_inv_steps [OF assms(3) I])
  obtain x where x: "x \<in> set (db_items db')" "row_le r x" using assms(3) I assms(4) by (rule row_follows)
  have k: "request_key x = request_key r" using row_le_same [OF x(2)] by blast
  have only: "y = x" if "y \<in> set (db_items db')" "request_key y = request_key r" for y
    by (rule row_unique [OF I' that(1) x(1)]) (simp add: that(2) k)
  have "content x = content r \<and> (IsTerminalState (it_state r) \<longrightarrow> x = r)"
    using x(2) unfolding row_le_def IsTerminalState_def by auto
  then show ?thesis using x(1) k only by metis
qed

theorem outcome_is_final_witness:
  "IsTerminalState (it_state (hd (db_items demo_db4))) \<and> hd (db_items demo_db4) \<in> set (db_items demo_db5) \<and>
   (\<exists>!r. r \<in> set (db_items demo_db5) \<and> request_key r = request_key (hd (db_items demo_db4)))"
proof -
  have mem: "hd (db_items demo_db4) \<in> set (db_items demo_db4)" using demo_voided by (blast intro: hd_in_set)
  note T = outcome_is_final [OF demo_empty demo_reach4 demo_run5 mem]
  show ?thesis using T demo_voided by metis
qed

section \<open>Enqueueing once\<close>

lemma enqueue_committed_row:
  assumes I: "inbox_inv db"
    and E: "with_player (ep_player_id p) (enqueue_tx p d mp digest inTx) t db = Inr (res, db')" and C: "er_code res = None"
    and B: "d = DOMAIN_SCENE_BATTLE_SETTLEMENT \<longleftrightarrow> ep_type p = MSG_BATTLE_SETTLEMENT"
  shows "\<exists>r \<in> set (db_items db'). request_key r = (ep_player_id p, ep_producer p, ep_request_id p) \<and>
     it_seq r = er_seq res \<and> it_content_sha256 r = digest"
    and "er_created res \<longleftrightarrow> (ep_player_id p, ep_producer p, ep_request_id p) \<notin> request_key ` set (db_items db)"
proof -
  let ?key = "(ep_player_id p, ep_producer p, ep_request_id p)"
  obtain original where T: "enqueue_tx p d mp digest inTx t original db = Inr (res, db')" using E by (rule with_player_D)
  have "(\<exists>r \<in> set (db_items db'). request_key r = ?key \<and> it_seq r = er_seq res \<and> it_content_sha256 r = digest) \<and>
    (er_created res \<longleftrightarrow> ?key \<notin> request_key ` set (db_items db))"
    using T
  proof (cases rule: enqueue_tx_D)
    case (existing r)
    note r = readItemByRequest_Some [OF existing(1)]
    have "it_content_sha256 r = digest \<and> er_seq res = it_seq r \<and> \<not> er_created res"
      using existing(3) C unfolding resultForExisting_def decideExisting_def enqueue_code_def by (auto split: if_splits)
    moreover have "?key \<in> request_key ` set (db_items db)" using r by (metis imageI)
    ultimately show ?thesis using r existing(4) by auto
  next
    case (inserted st)
    let ?db1 = "ensureStreamTx (RowShard (ep_player_id p)) (ep_player_id p) d (nowMs (tt_now t 0)) db"
    have I1: "inbox_inv ?db1" using ensureStreamTx_keeps [OF I] unfolding keeps_def by blast
    obtain seq dbi st' where A: "appends ?db1 st (new_item_row p d digest seq (nowMs (tt_now t 1)) original) dbi st'"
      and same: "db_items db' = db_items dbi"
      and res: "res = \<lparr>er_code = None, er_seq = seq, er_created = True, er_state = ITEM_PENDING\<rparr>"
      by (rule enqueue_insert_appends [OF I1 inserted(2,3) B inserted(4)])
    have "new_item_row p d digest seq (nowMs (tt_now t 1)) original \<in> set (db_items db')"
      using A unfolding same appends_def by simp
    then show ?thesis using readItemByRequest_None [OF inserted(1) I] unfolding res
      by (intro conjI bexI [of _ "new_item_row p d digest seq (nowMs (tt_now t 1)) original"])
         (simp_all add: new_item_row_def request_key_def)
  qed (use C in \<open>simp_all add: enqueue_code_def\<close>)
  then show "\<exists>r \<in> set (db_items db'). request_key r = ?key \<and> it_seq r = er_seq res \<and> it_content_sha256 r = digest"
    and "er_created res \<longleftrightarrow> ?key \<notin> request_key ` set (db_items db)" by blast+
qed

definition digest_of :: "Store \<Rightarrow> EnqueueParams \<Rightarrow> bytes" where
  "digest_of s p = ContentSHA256 (so_sha s) (ep_type p) (ep_issued_at_ms p) (ep_payload p)"

lemma Enqueue_row:
  assumes ok: "store_ok s" "env_ok s env" and I: "inbox_inv db"
    and E: "Enqueue s env p inTx db = (Inr res, db')" and C: "er_code res = None"
  obtains db0 db1 r where "(inbox_step s)\<^sup>*\<^sup>* db db0" "inbox_inv db0" "inbox_inv db1" "(inbox_step s)\<^sup>*\<^sup>* db1 db'"
    "r \<in> set (db_items db1)" "request_key r = (ep_player_id p, ep_producer p, ep_request_id p)"
    "it_seq r = er_seq res" "it_content_sha256 r = digest_of s p"
    "er_created res \<longleftrightarrow> (ep_player_id p, ep_producer p, ep_request_id p) \<notin> request_key ` set (db_items db0)"
proof -
  obtain entry spec i db0 db1 where V: "ValidatePayload (so_decoder s) (so_registry s) (ep_type p) (so_allowed s) (ep_payload p) = Inr entry"
    and D: "Registry_Domain (so_registry s) (ty_domain (te_spec entry)) = Some spec"
    and S: "(inbox_step s)\<^sup>*\<^sup>* db db0"
    and T: "with_player (ep_player_id p) (enqueue_tx p (ty_domain (te_spec entry)) (ds_max_pending spec)
         (ContentSHA256 (so_sha s) (ep_type p) (ep_issued_at_ms p) (ep_payload p)) inTx) (ee_tries env i) db0 = Inr (res, db1)"
    and S': "(inbox_step s)\<^sup>*\<^sup>* db1 db'"
    using ok E C by (rule Enqueue_committed)
  have I0: "inbox_inv db0" by (rule inbox_inv_steps [OF S I])
  have "inbox_step s db0 db1" by (rule step_enqueue [OF ok(1) V D T])
  then have I1: "inbox_inv db1" using inbox_step_keeps [OF _ I0] unfolding keeps_def by blast
  obtain resolves where "NewRegistry resolves = Inr (so_registry s)" using ok(1) unfolding store_ok_def by blast
  then have B: "ty_domain (te_spec entry) = DOMAIN_SCENE_BATTLE_SETTLEMENT \<longleftrightarrow> ep_type p = MSG_BATTLE_SETTLEMENT"
    using NewRegistry_battle_domain ValidatePayload_ok(1) [OF V] by blast
  note R = enqueue_committed_row [OF I0 T C B]
  obtain r where "r \<in> set (db_items db1)" "request_key r = (ep_player_id p, ep_producer p, ep_request_id p)"
    "it_seq r = er_seq res" "it_content_sha256 r = digest_of s p"
    using R(1) unfolding digest_of_def by blast
  then show ?thesis by (rule that [OF S I0 I1 S' _ _ _ _ R(2)])
qed

text \<open>
  Property C2.  A request is enqueued once.  When a call of \<open>Enqueue\<close> succeeded and any number of
  transactions later a call with the same player, producer and request id succeeds, whatever was
  retried or lost in between, the second call creates nothing, answers the sequence number of the
  first, had the same content digest, and the table has exactly one row for the request.
\<close>

theorem enqueue_once:
  assumes "store_ok s" and "env_ok s env" and "env_ok s env'"
    and "empty_inbox db0" and "(inbox_step s)\<^sup>*\<^sup>* db0 db"
    and "Enqueue s env p inTx db = (Inr res, db1)" and "er_code res = None"
    and "(inbox_step s)\<^sup>*\<^sup>* db1 db2"
    and "(ep_player_id p', ep_producer p', ep_request_id p') = (ep_player_id p, ep_producer p, ep_request_id p)"
    and "Enqueue s env' p' inTx' db2 = (Inr res', db3)" and "er_code res' = None"
  shows "er_seq res' = er_seq res \<and> \<not> er_created res' \<and> digest_of s p' = digest_of s p \<and>
    (\<exists>!r. r \<in> set (db_items db3) \<and> request_key r = (ep_player_id p, ep_producer p, ep_request_id p))"
proof -
  let ?key = "(ep_player_id p, ep_producer p, ep_request_id p)"
  have I: "inbox_inv db" by (rule ib.inv_reachable [OF assms(4,5)])
  obtain dba dbb r where a: "inbox_inv dbb" "(inbox_step s)\<^sup>*\<^sup>* dbb db1" "r \<in> set (db_items dbb)" "request_key r = ?key"
      "it_seq r = er_seq res" "it_content_sha256 r = digest_of s p"
    using assms(1,2) I assms(6,7) by (rule Enqueue_row)
  have I2: "inbox_inv db2" by (rule inbox_inv_steps [OF assms(8) inbox_inv_steps [OF a(2,1)]])
  obtain dbc dbd x where b: "(inbox_step s)\<^sup>*\<^sup>* db2 dbc" "inbox_inv dbc" "inbox_inv dbd" "(inbox_step s)\<^sup>*\<^sup>* dbd db3"
      "x \<in> set (db_items dbd)" "request_key x = ?key" "it_seq x = er_seq res'" "it_content_sha256 x = digest_of s p'"
      "er_created res' \<longleftrightarrow> ?key \<notin> request_key ` set (db_items dbc)"
    using Enqueue_row [OF assms(1,3) I2 assms(10,11)] unfolding assms(9) by blast
  have run: "(inbox_step s)\<^sup>*\<^sup>* dbb dbc" using a(2) assms(8) b(1) by (meson rtranclp_trans)
  obtain r1 where r1: "r1 \<in> set (db_items dbc)" "row_le r r1" using run a(1,3) by (rule row_follows)
  then have "request_key r1 = ?key" using row_le_same a(4) by metis
  then have "?key \<in> request_key ` set (db_items dbc)" using r1(1) by (metis imageI)
  then have old: "\<not> er_created res'" using b(9) by blast
  have "(inbox_step s)\<^sup>*\<^sup>* db2 db3"
    by (rule Enqueue_steps [OF assms(1,3,10)])
  then have run3: "(inbox_step s)\<^sup>*\<^sup>* dbb db3" using a(2) assms(8) by (meson rtranclp_trans)
  have I3: "inbox_inv db3" by (rule inbox_inv_steps [OF b(4,3)])
  obtain y where y: "y \<in> set (db_items db3)" "row_le r y" using run3 a(1,3) by (rule row_follows)
  obtain z where z: "z \<in> set (db_items db3)" "row_le x z" using b(4,3,5) by (rule row_follows)
  note ky = row_le_same [OF y(2)] and kz = row_le_same [OF z(2)]
  have "z = y" by (rule row_unique [OF I3 z(1) y(1)]) (use ky kz a(4) b(6) in simp)
  then have "er_seq res' = er_seq res" "digest_of s p' = digest_of s p" using ky kz a(5,6) b(7,8) by simp_all
  moreover have "\<exists>!r. r \<in> set (db_items db3) \<and> request_key r = ?key"
  proof (rule ex1I [of _ y])
    show "y \<in> set (db_items db3) \<and> request_key y = ?key" using y(1) ky a(4) by simp
    show "r = y" if "r \<in> set (db_items db3) \<and> request_key r = ?key" for r
      by (rule row_unique [OF I3]) (use that y(1) ky a(4) in simp_all)
  qed
  ultimately show ?thesis using old by blast
qed

theorem enqueue_once_witness:
  "fst (Enqueue demo_store demo_env (demo_request 11) None demo_db2) =
     Inr \<lparr>er_code = None, er_seq = 4100096, er_created = False, er_state = ITEM_PENDING\<rparr> \<and>
   (\<exists>!r. r \<in> set (db_items (snd (Enqueue demo_store demo_env (demo_request 11) None demo_db2))) \<and>
      request_key r = (ep_player_id (demo_request 11), ep_producer (demo_request 11), ep_request_id (demo_request 11)))"
  using enqueue_once [OF demo_store_ok demo_env_ok demo_env_ok demo_empty rtranclp.rtrancl_refl demo_enqueue1 _ demo_run2
      refl demo_enqueue_again] arg_cong [OF demo_enqueue_again, of fst]
  by simp

section \<open>Sequence numbers and fences\<close>

lemma Fetch_committed:
  assumes ok: "tries_ok s tries" and w: "fq_consumer_decided_through req < 2 ^ 63"
    and F: "Fetch s tries req db = (Inr resp, db')" and A: "FenceAllows (fs_fence resp)"
  obtains i db0 original where "(inbox_step s)\<^sup>*\<^sup>* db db0"
    "fetch_tx req (tries i) original db0 = Inr ((fs_fence resp, fs_items resp, fs_has_more resp), db')"
  using F
proof (cases rule: Fetch_D)
  case refused
  then show ?thesis using A by blast
next
  case (ran r1)
  show ?thesis
  proof (cases r1)
    case (Inl e)
    then show ?thesis using ran(3) by simp
  next
    case (Inr x)
    obtain v items hm where x: "x = (v, items, hm)" by (rule prod_cases3)
    have resp: "resp = (if v = FENCE_NO_STREAM then fetch_reply None v
           else if \<not> FenceAllows v then fetch_reply (fenceRejectTip v) v
           else \<lparr>fs_error = None, fs_fence = v, fs_items = items, fs_has_more = hm\<rparr>)"
      using ran(3) unfolding Inr x by simp
    then have "fs_fence resp = v" unfolding fetch_reply_def by simp
    then have "FenceAllows v" using A by simp
    then have resp': "resp = \<lparr>fs_error = None, fs_fence = v, fs_items = items, fs_has_more = hm\<rparr>" using resp by auto
    obtain i db0 where S: "(inbox_step s)\<^sup>*\<^sup>* db db0" and T: "with_player (fq_player_id req) (fetch_tx req) (tries i) db0 = Inr (x, db')"
      using withPlayerTx_steps(2) [OF ran(2) ok, of x] step_fetch [OF w] Inr by metis
    obtain original where "fetch_tx req (tries i) original db0 = Inr (x, db')" using T by (rule with_player_D)
    then show ?thesis using that [OF S] unfolding x resp' by simp
  qed
qed

text \<open>A served fetch leaves the fence at its epoch and the next sequence number above its watermark.\<close>

lemma fetch_leaves:
  assumes I: "inbox_inv db" and W: "fq_consumer_decided_through req < 2 ^ 63"
    and F: "fetch_tx req t original db = Inr ((v, items, hasMore), db')" and A: "FenceAllows v"
  obtains st where "st \<in> set (db_streams db')" "stream_key st = (fq_player_id req, fq_domain req)"
    "ps_fence_epoch st = fq_owner_epoch req" "fq_consumer_decided_through req < ps_next_seq st"
  using F
proof (cases rule: fetch_tx_D)
  case no_stream
  then show ?thesis using A by simp
next
  case (refused st)
  then show ?thesis using A by simp
next
  case (served st)
  let ?pl = "fq_player_id req" and ?d = "fq_domain req" and ?e = "fq_owner_epoch req" and ?w = "fq_consumer_decided_through req"
  note st = lockStream_D [OF served(1)]
  obtain db1 where D: "deliver_rows original ?e (nowMs (tt_now t 0)) (fst (fetch_page req db)) db = Inr (items, db1)"
    and U: "if FenceWrites v \<or> snd (RaiseNextSeq (ps_next_seq st) ?w)
         then update_stream (RowShard ?pl) ?pl ?d
           (\<lambda>s. s \<lparr>ps_fence_epoch := (if FenceWrites v then ?e else ps_fence_epoch st),
                  ps_next_seq := fst (RaiseNextSeq (ps_next_seq st) ?w), ps_updated_ms := nowMs (tt_now t 0)\<rparr>) db1 = Inr db'
         else db' = db1"
    using served(4) by (rule fetch_serve_D)
  have rows: "db_streams db1 = db_streams db"
    using deliver_rows_step [OF D, of ?pl ?d] fetch_page_mem unfolding pending_of_def by blast
  have fence: "(if FenceWrites v then ?e else ps_fence_epoch st) = ?e"
    using DecideFence_self_writes served(2,3) by simp
  have w: "?w \<noteq> - 1" using W by auto
  note above = RaiseNextSeq_above(2) [OF w, of "ps_next_seq st"]
  show ?thesis
  proof (cases "FenceWrites v \<or> snd (RaiseNextSeq (ps_next_seq st) ?w)")
    case True
    let ?f = "\<lambda>s. s \<lparr>ps_fence_epoch := ?e, ps_next_seq := fst (RaiseNextSeq (ps_next_seq st) ?w), ps_updated_ms := nowMs (tt_now t 0)\<rparr>"
    have U': "update_stream (RowShard ?pl) ?pl ?d ?f db1 = Inr db'" using U True fence by simp
    have "?f st \<in> set (db_streams db')" using update_stream_moves(2) [OF I st rows U'] st(1) by auto
    then show ?thesis by (rule that) (use st(2) above in \<open>simp_all add: stream_key_def\<close>)
  next
    case False
    then have "ps_fence_epoch st = ?e" and "db' = db1" using U fence by simp_all
    moreover have "?w < ps_next_seq st" using False above by (simp add: RaiseNextSeq_def split: if_splits)
    ultimately show ?thesis using that [of st] st rows by simp
  qed
qed

text \<open>
  Property C15.  The service never hands out a sequence number the consumer has already decided.  After
  a served fetch that reported a watermark, whatever happens in between, an item created for that
  player and domain gets a number above the watermark and above every row the stream then has.
\<close>

theorem new_items_above_watermark:
  assumes "store_ok s" and "env_ok s env" and "tries_ok s tries"
    and "empty_inbox db0" and "(inbox_step s)\<^sup>*\<^sup>* db0 db"
    and "fq_consumer_decided_through req < 2 ^ 63"
    and "Fetch s tries req db = (Inr resp, db1)" and "FenceAllows (fs_fence resp)"
    and "(inbox_step s)\<^sup>*\<^sup>* db1 db2"
    and "Enqueue s env p inTx db2 = (Inr res, db3)" and "er_code res = None" and "er_created res"
    and "Registry_Type (so_registry s) (ep_type p) = Some entry"
    and "(ep_player_id p, ty_domain (te_spec entry)) = (fq_player_id req, fq_domain req)"
  shows "fq_consumer_decided_through req < er_seq res \<and>
    (\<forall>r \<in> set (db_items db2). in_stream (fq_player_id req) (fq_domain req) r \<longrightarrow> it_seq r < er_seq res)"
proof -
  let ?pl = "fq_player_id req" and ?d = "fq_domain req"
  have I: "inbox_inv db" by (rule ib.inv_reachable [OF assms(4,5)])
  obtain i dba original where S: "(inbox_step s)\<^sup>*\<^sup>* db dba"
    and F: "fetch_tx req (tries i) original dba = Inr ((fs_fence resp, fs_items resp, fs_has_more resp), db1)"
    using assms(3,6,7,8) by (rule Fetch_committed)
  have Ia: "inbox_inv dba" by (rule inbox_inv_steps [OF S I])
  obtain st where st: "st \<in> set (db_streams db1)" "stream_key st = (?pl, ?d)" "fq_consumer_decided_through req < ps_next_seq st"
    using Ia assms(6) F assms(8) by (rule fetch_leaves)
  have I1: "inbox_inv db1"
    by (rule inbox_inv_steps [OF Fetch_steps [OF assms(3,6,7)] I])
  obtain entry' spec j dbc dbd where V: "ValidatePayload (so_decoder s) (so_registry s) (ep_type p) (so_allowed s) (ep_payload p) = Inr entry'"
    and D: "Registry_Domain (so_registry s) (ty_domain (te_spec entry')) = Some spec"
    and S2: "(inbox_step s)\<^sup>*\<^sup>* db2 dbc"
    and T: "with_player (ep_player_id p) (enqueue_tx p (ty_domain (te_spec entry')) (ds_max_pending spec)
         (ContentSHA256 (so_sha s) (ep_type p) (ep_issued_at_ms p) (ep_payload p)) inTx) (ee_tries env j) dbc = Inr (res, dbd)"
    using assms(1,2,10,11) by (rule Enqueue_committed)
  have e: "entry' = entry" using ValidatePayload_ok(1) [OF V] assms(13) by simp
  have key: "ep_player_id p = ?pl" "ty_domain (te_spec entry') = ?d" using assms(14) e by simp_all
  have I2: "inbox_inv db2" by (rule inbox_inv_steps [OF assms(9) I1])
  have Ic: "inbox_inv dbc" by (rule inbox_inv_steps [OF S2 I2])
  obtain st2 where st2: "st2 \<in> set (db_streams db2)" "stream_le st st2" using assms(9) I1 st(1) by (rule stream_follows)
  obtain st3 where st3: "st3 \<in> set (db_streams dbc)" "stream_le st2 st3" using S2 I2 st2(1) by (rule stream_follows)
  have k3: "stream_key st3 = (?pl, ?d)" using st(2) st2(2) st3(2) unfolding stream_le_def by simp
  obtain original' where X: "enqueue_tx p (ty_domain (te_spec entry')) (ds_max_pending spec)
         (ContentSHA256 (so_sha s) (ep_type p) (ep_issued_at_ms p) (ep_payload p)) inTx (ee_tries env j) original' dbc = Inr (res, dbd)"
    using T by (rule with_player_D)
  have "ps_next_seq st3 \<le> er_seq res"
    using X
  proof (cases rule: enqueue_tx_D)
    case (inserted stn)
    let ?db = "ensureStreamTx (RowShard (ep_player_id p)) (ep_player_id p) (ty_domain (te_spec entry')) (nowMs (tt_now (ee_tries env j) 0)) dbc"
    have Id: "inbox_inv ?db" using ensureStreamTx_keeps [OF Ic] unfolding keeps_def by blast
    have m: "st3 \<in> set (db_streams ?db)" using st3(1) unfolding ensureStreamTx_def by simp
    have "Some stn = Some st3" by (rule lockStream_is [OF Id m _ inserted(2)]) (simp add: k3 key)
    moreover obtain resolves where "NewRegistry resolves = Inr (so_registry s)" using assms(1) unfolding store_ok_def by blast
    then have B: "ty_domain (te_spec entry') = DOMAIN_SCENE_BATTLE_SETTLEMENT \<longleftrightarrow> ep_type p = MSG_BATTLE_SETTLEMENT"
      using NewRegistry_battle_domain ValidatePayload_ok(1) [OF V] by blast
    obtain seq where "NextSeq (ps_next_seq stn) (nowMs (tt_now (ee_tries env j) 1)) = Some seq"
      and "res = \<lparr>er_code = None, er_seq = seq, er_created = True, er_state = ITEM_PENDING\<rparr>"
      by (rule enqueue_insert_appends [OF Id inserted(2,3) B inserted(4)])
    ultimately show ?thesis using NextSeq_ge by auto
  next
    case (existing r)
    then show ?thesis using assms(12) unfolding resultForExisting_def enqueue_code_def by (simp split: if_splits)
  qed (use assms(11) in \<open>simp_all add: enqueue_code_def\<close>)
  then have le2: "ps_next_seq st2 \<le> er_seq res" using st3(2) unfolding stream_le_def by (meson order.trans)
  then have "ps_next_seq st \<le> er_seq res" using st2(2) unfolding stream_le_def by (meson order.trans)
  then have "fq_consumer_decided_through req < er_seq res" using st(3) by (rule order.strict_trans2 [rotated])
  moreover have "it_seq r < er_seq res" if r: "r \<in> set (db_items db2)" "in_stream ?pl ?d r" for r
  proof -
    have "stream_key st2 = (?pl, ?d)" using st(2) st2(2) unfolding stream_le_def by simp
    then have "it_seq r < ps_next_seq st2"
      using stream_ok_of [OF I2 st2(1)] r unfolding stream_ok_def stream_key_def by auto
    then show ?thesis using le2 by (rule order.strict_trans2)
  qed
  ultimately show ?thesis by blast
qed

theorem new_items_above_watermark_witness:
  "\<exists>res. Enqueue demo_store demo_env (demo_request 12) None demo_db2 = (Inr res, demo_db3) \<and> er_created res \<and>
     fq_consumer_decided_through (demo_fetch 0x31 5) < er_seq res \<and>
     list_all (\<lambda>r. it_seq r < er_seq res) (filter (in_stream 7 1) (db_items demo_db2))"
proof -
  have w: "fq_consumer_decided_through (demo_fetch 0x31 5) < 2 ^ 63" unfolding demo_fetch_def by simp
  have e: "Registry_Type (so_registry demo_store) (ep_type (demo_request 12)) = Some demo_entry"
    using demo_entry_is unfolding demo_store_def demo_request_def by simp
  have k: "(ep_player_id (demo_request 12), ty_domain (te_spec demo_entry)) =
      (fq_player_id (demo_fetch 0x31 5), fq_domain (demo_fetch 0x31 5))"
    unfolding demo_entry_domain unfolding demo_request_def demo_fetch_def DOMAIN_SCENE_GM_SANCTION_def by simp
  have "fq_player_id (demo_fetch 0x31 5) = 7" "fq_domain (demo_fetch 0x31 5) = 1"
    unfolding demo_fetch_def DOMAIN_SCENE_GM_SANCTION_def by simp_all
  then show ?thesis
    using new_items_above_watermark [OF demo_store_ok demo_env_ok demo_tries_ok demo_empty demo_run1 w demo_fetch1 _
        rtranclp.rtrancl_refl demo_enqueue2 _ _ e k] demo_enqueue2
    by (simp add: list_all_iff)
qed

lemma DecideFence_stale: "e \<noteq> 0 \<Longrightarrow> e < f \<Longrightarrow> DecideFence e f r = FENCE_STALE"
  unfolding DecideFence_def by simp

lemma stale_ack_tx:
  assumes "inbox_inv db" and "st \<in> set (db_streams db)" and "stream_key st = (aq_player_id req, aq_domain req)"
    and "aq_owner_epoch req \<noteq> 0" and "aq_owner_epoch req < ps_fence_epoch st"
    and "ack_tx req t original db = Inr ((v, results), db')"
  shows "v = FENCE_STALE \<and> results = [] \<and> db' = db"
  using assms(6)
proof (cases rule: ack_tx_D)
  case no_stream
  then show ?thesis using lockStream_is [OF assms(1-3)] by blast
next
  case (refused st')
  then have "st' = st" using lockStream_is [OF assms(1-3)] by blast
  then show ?thesis using refused DecideFence_stale [OF assms(4,5)] by simp
next
  case (served st')
  then have "st' = st" using lockStream_is [OF assms(1-3)] by blast
  then show ?thesis using served(2,3) DecideFence_stale [OF assms(4,5)] by simp
qed

lemma stale_fetch_tx:
  assumes "inbox_inv db" and "st \<in> set (db_streams db)" and "stream_key st = (fq_player_id req, fq_domain req)"
    and "fq_owner_epoch req \<noteq> 0" and "fq_owner_epoch req < ps_fence_epoch st"
    and "fetch_tx req t original db = Inr ((v, items, hasMore), db')"
  shows "v = FENCE_STALE \<and> items = [] \<and> db' = db"
  using assms(6)
proof (cases rule: fetch_tx_D)
  case no_stream
  then show ?thesis using lockStream_is [OF assms(1-3)] by blast
next
  case (refused st')
  then have "st' = st" using lockStream_is [OF assms(1-3)] by blast
  then show ?thesis using refused DecideFence_stale [OF assms(4,5)] by simp
next
  case (served st')
  then have "st' = st" using lockStream_is [OF assms(1-3)] by blast
  then show ?thesis using served(2,3) DecideFence_stale [OF assms(4,5)] by simp
qed

text \<open>A call nobody interferes with whose transaction writes nothing leaves the database alone.\<close>

definition undisturbed_tries :: "(nat \<Rightarrow> tx_try) \<Rightarrow> bool" where
  "undisturbed_tries tries \<longleftrightarrow> (\<forall>i db. tt_others (tries i) db = db)"

lemma withPlayerTx_same:
  assumes "withPlayerTx tries pl action db = (r, db')" and "undisturbed_tries tries"
    and "\<And>t a db1. with_player pl action t db = Inr (a, db1) \<Longrightarrow> db1 = db"
  shows "db' = db"
proof -
  have "(\<lambda>_ _. False)\<^sup>*\<^sup>* db db' \<and> (\<forall>a. r = Inr a \<longrightarrow>
      (\<exists>i db0. (\<lambda>_ _. False)\<^sup>*\<^sup>* db db0 \<and> with_player pl action (tries i) db0 = Inr (a, db')))"
  proof (rule retry_run [where Q = "\<lambda>x. x = db", OF assms(1) [unfolded withPlayerTx_def]])
    show "(\<lambda>_ _. False)\<^sup>*\<^sup>* x (tt_others (tries i) x)" if "x = db" for i x
      using assms(2) unfolding undisturbed_tries_def by simp
    show "(\<lambda>_ _. False)\<^sup>*\<^sup>* x y" if "x = db" "with_player pl action t x = Inr (a, y)" for t x a y
      using assms(3) that by (metis rtranclp.rtrancl_refl)
    show "y = db" if "x = db" "(\<lambda>_ _. False)\<^sup>*\<^sup>* x y" for x y
      using that(2,1) by (induction rule: rtranclp_induct) auto
  qed simp
  then have "(\<lambda>_ _. False)\<^sup>*\<^sup>* db db'" by blast
  then show ?thesis by (induction rule: rtranclp_induct) auto
qed

text \<open>
  Property C16.  A superseded owner is fenced off.  After a served fetch with epoch \<open>e\<close>, every later
  acknowledgement and every later fetch for that player and domain with a smaller epoch is answered
  STALE, without results or items, and writes nothing.
\<close>

theorem stale_owner_is_fenced:
  assumes "tries_ok s tries" and "tries_ok s tries'"
    and "empty_inbox db0" and "(inbox_step s)\<^sup>*\<^sup>* db0 db"
    and "fq_consumer_decided_through req < 2 ^ 63"
    and "Fetch s tries req db = (Inr resp, db1)" and "FenceAllows (fs_fence resp)"
    and "(inbox_step s)\<^sup>*\<^sup>* db1 db2"
    and "ack_checked s areq" and "(aq_player_id areq, aq_domain areq) = (fq_player_id req, fq_domain req)"
    and "aq_owner_epoch areq < fq_owner_epoch req"
    and "fetch_checked s freq" and "(fq_player_id freq, fq_domain freq) = (fq_player_id req, fq_domain req)"
    and "fq_owner_epoch freq < fq_owner_epoch req" and "fq_consumer_decided_through freq < 2 ^ 63"
    and "Ack_items s tries' areq db2 = (ra, dba)" and "Fetch s tries' freq db2 = (rf, dbf)"
  shows "(\<forall>x. ra = Inr x \<longrightarrow> x = \<lparr>as_error = Some ErrStaleOwner, as_fence = FENCE_STALE, as_results = []\<rparr>) \<and>
    (\<forall>x. rf = Inr x \<longrightarrow> x = fetch_reply (Some ErrStaleOwner) FENCE_STALE) \<and>
    (undisturbed_tries tries' \<longrightarrow> dba = db2 \<and> dbf = db2)"
proof -
  let ?pl = "fq_player_id req" and ?d = "fq_domain req"
  have I: "inbox_inv db" by (rule ib.inv_reachable [OF assms(3,4)])
  obtain i dbx original where S: "(inbox_step s)\<^sup>*\<^sup>* db dbx"
    and F: "fetch_tx req (tries i) original dbx = Inr ((fs_fence resp, fs_items resp, fs_has_more resp), db1)"
    using assms(1,5,6,7) by (rule Fetch_committed)
  obtain st where st: "st \<in> set (db_streams db1)" "stream_key st = (?pl, ?d)" "ps_fence_epoch st = fq_owner_epoch req"
    using inbox_inv_steps [OF S I] assms(5) F assms(7) by (rule fetch_leaves)
  have I1: "inbox_inv db1" by (rule inbox_inv_steps [OF Fetch_steps [OF assms(1,5,6)] I])
  have I2: "inbox_inv db2" by (rule inbox_inv_steps [OF assms(8) I1])
  have later: "\<exists>st' \<in> set (db_streams x). stream_key st' = (?pl, ?d) \<and> fq_owner_epoch req \<le> ps_fence_epoch st'"
    if "(inbox_step s)\<^sup>*\<^sup>* db2 x" for x
  proof -
    have run: "(inbox_step s)\<^sup>*\<^sup>* db1 x" using assms(8) that by (rule rtranclp_trans)
    obtain st' where "st' \<in> set (db_streams x)" "stream_le st st'" using run I1 st(1) by (rule stream_follows)
    then show ?thesis using st(2,3) unfolding stream_le_def by auto
  qed
  have ack: "v = FENCE_STALE \<and> res = [] \<and> y = x"
    if x: "(inbox_step s)\<^sup>*\<^sup>* db2 x" and A: "with_player (aq_player_id areq) (ack_tx areq) t x = Inr ((v, res), y)" for x t v res y
  proof -
    obtain st' where s': "st' \<in> set (db_streams x)" "stream_key st' = (?pl, ?d)" "fq_owner_epoch req \<le> ps_fence_epoch st'"
      using later [OF x] by blast
    obtain o' where T: "ack_tx areq t o' x = Inr ((v, res), y)" using A by (rule with_player_D)
    have "aq_owner_epoch areq \<noteq> 0" using assms(9) unfolding ack_checked_def by simp
    moreover have "aq_owner_epoch areq < ps_fence_epoch st'" using assms(11) s'(3) by (rule order.strict_trans2)
    ultimately show ?thesis by (intro stale_ack_tx [OF inbox_inv_steps [OF x I2] s'(1) _ _ _ T]) (simp_all add: s'(2) assms(10))
  qed
  have fetch: "v = FENCE_STALE \<and> its = [] \<and> y = x"
    if x: "(inbox_step s)\<^sup>*\<^sup>* db2 x" and A: "with_player (fq_player_id freq) (fetch_tx freq) t x = Inr ((v, its, hm), y)" for x t v its hm y
  proof -
    obtain st' where s': "st' \<in> set (db_streams x)" "stream_key st' = (?pl, ?d)" "fq_owner_epoch req \<le> ps_fence_epoch st'"
      using later [OF x] by blast
    obtain o' where T: "fetch_tx freq t o' x = Inr ((v, its, hm), y)" using A by (rule with_player_D)
    have "fq_owner_epoch freq \<noteq> 0" using assms(12) unfolding fetch_checked_def by simp
    moreover have "fq_owner_epoch freq < ps_fence_epoch st'" using assms(14) s'(3) by (rule order.strict_trans2)
    ultimately show ?thesis by (intro stale_fetch_tx [OF inbox_inv_steps [OF x I2] s'(1) _ _ _ T]) (simp_all add: s'(2) assms(13))
  qed
  have acked: "(\<forall>x. ra = Inr x \<longrightarrow> x = \<lparr>as_error = Some ErrStaleOwner, as_fence = FENCE_STALE, as_results = []\<rparr>) \<and>
      (undisturbed_tries tries' \<longrightarrow> dba = db2)"
    using assms(16)
  proof (cases rule: Ack_items_D)
    case (ran r1)
    have val: "validateAckReports (aq_decisions areq) AckMaxDecisions" using assms(9) unfolding ack_checked_def by simp
    have "v = FENCE_STALE" if "r1 = Inr (v, res)" for v res
      using withPlayerTx_steps(2) [OF ran(2) assms(2), of "(v, res)"] step_ack [OF val] that ack by metis
    then have "\<forall>x. ra = Inr x \<longrightarrow> x = \<lparr>as_error = Some ErrStaleOwner, as_fence = FENCE_STALE, as_results = []\<rparr>"
      using ran(3) unfolding fenceRejectTip_def by (auto split: sum.splits)
    moreover have "dba = db2" if "undisturbed_tries tries'"
      by (rule withPlayerTx_same [OF ran(2) that]) (use ack in \<open>metis prod.collapse rtranclp.rtrancl_refl\<close>)
    ultimately show ?thesis by blast
  qed (use assms(9) in blast)
  have fetched: "(\<forall>x. rf = Inr x \<longrightarrow> x = fetch_reply (Some ErrStaleOwner) FENCE_STALE) \<and> (undisturbed_tries tries' \<longrightarrow> dbf = db2)"
    using assms(17)
  proof (cases rule: Fetch_D)
    case (ran r1)
    have "v = FENCE_STALE" if "r1 = Inr (v, its, hm)" for v its hm
      using withPlayerTx_steps(2) [OF ran(2) assms(2), of "(v, its, hm)"] step_fetch [OF assms(15)] that fetch by metis
    then have "\<forall>x. rf = Inr x \<longrightarrow> x = fetch_reply (Some ErrStaleOwner) FENCE_STALE"
      using ran(3) unfolding fenceRejectTip_def by (auto split: sum.splits)
    moreover have "dbf = db2" if "undisturbed_tries tries'"
      by (rule withPlayerTx_same [OF ran(2) that]) (use fetch in \<open>metis prod.collapse rtranclp.rtrancl_refl\<close>)
    ultimately show ?thesis by blast
  qed (use assms(12) in blast)
  show ?thesis using acked fetched by blast
qed

theorem stale_owner_is_fenced_witness:
  "fst (Ack_items demo_store demo_tries (demo_ack 0x30 3) demo_db3) =
     Inr \<lparr>as_error = Some ErrStaleOwner, as_fence = FENCE_STALE, as_results = []\<rparr> \<and>
   fst (Fetch demo_store demo_tries (demo_fetch 0x30 3) demo_db3) = Inr (fetch_reply (Some ErrStaleOwner) FENCE_STALE) \<and>
   snd (Ack_items demo_store demo_tries (demo_ack 0x30 3) demo_db3) = demo_db3 \<and>
   snd (Fetch demo_store demo_tries (demo_fetch 0x30 3) demo_db3) = demo_db3"
proof -
  have w: "fq_consumer_decided_through (demo_fetch 0x31 5) < 2 ^ 63" "fq_consumer_decided_through (demo_fetch 0x30 3) < 2 ^ 63"
    unfolding demo_fetch_def by simp_all
  have a: "ack_checked demo_store (demo_ack 0x30 3)" by code_simp
  have f: "fetch_checked demo_store (demo_fetch 0x30 3)" by code_simp
  have u: "undisturbed_tries demo_tries" unfolding undisturbed_tries_def demo_tries_def by simp
  show ?thesis
    using stale_owner_is_fenced [OF demo_tries_ok demo_tries_ok demo_empty demo_run1 w(1) demo_fetch1 _ demo_run3 a _ _ f _ _ w(2)
        demo_stale_ack demo_stale_fetch] u arg_cong [OF demo_stale_ack, of fst] arg_cong [OF demo_stale_fetch, of fst]
    by (simp add: demo_ack_def demo_fetch_def)
qed

section \<open>Deliveries\<close>

lemma deliver_rows_items: "deliver_rows original e now rows db = Inr (items, db') \<Longrightarrow> items = map deliveredItem rows"
  by (induction rows arbitrary: db items) (auto simp: sum_bind_Inr split: if_splits)

lemma deliver_rows_marks:
  assumes "deliver_rows original e now rows db = Inr (items, db')"
    and "distinct (map item_key (db_items db))" and "\<forall>r \<in> set (db_items db). it_shard r = RowShard (it_player_id r)"
    and "set rows \<subseteq> set (db_items db)" and "distinct rows" and "\<forall>r \<in> set rows. it_state r = ITEM_PENDING"
  shows "db_items db' = map (\<lambda>r. if r \<in> set rows then mark_delivered e now r else r) (db_items db)"
  using assms
proof (induction rows arbitrary: db items)
  case (Cons row rows)
  obtain dbm items' where
    U: "update_item (it_shard row) (it_player_id row) (it_domain row) (it_seq row) (\<lambda>r. it_state r = ITEM_PENDING) (mark_delivered e now) db = Inr dbm"
    and rest: "deliver_rows original e now rows dbm = Inr (items', db')"
    using Cons.prems(1) by (auto simp: sum_bind_Inr split: if_splits)
  have row: "row \<in> set (db_items db)" "it_state row = ITEM_PENDING" "row \<notin> set rows" using Cons.prems by auto
  have inj: "inj_on item_key (set (db_items db))" using Cons.prems(2) unfolding distinct_map by blast
  have pk: "itemPK (it_shard row) (it_player_id row) (it_domain row) (it_seq row) r \<and> it_state r = ITEM_PENDING \<longleftrightarrow> r = row"
    if r: "r \<in> set (db_items db)" for r
  proof
    assume "itemPK (it_shard row) (it_player_id row) (it_domain row) (it_seq row) r \<and> it_state r = ITEM_PENDING"
    then have "item_key r = item_key row" unfolding itemPK_def item_key_def by simp
    then show "r = row" by (rule inj_onD [OF inj _ r row(1)])
  qed (use row(2) in \<open>simp add: itemPK_def\<close>)
  have M: "db_items dbm = map (\<lambda>r. if r = row then mark_delivered e now r else r) (db_items db)"
    using pk unfolding update_item_D(1) [OF U] by simp
  have key: "item_key (mark_delivered e now r) = item_key r" for r unfolding item_key_def mark_delivered_def by simp
  have fresh: "mark_delivered e now row \<notin> set rows"
  proof
    assume m: "mark_delivered e now row \<in> set rows"
    then have "mark_delivered e now row \<in> set (db_items db)" using Cons.prems(4) by auto
    then have "mark_delivered e now row = row" by (rule inj_onD [OF inj key _ row(1)])
    then show False using m row(3) by simp
  qed
  have "map item_key (db_items dbm) = map item_key (db_items db)" unfolding M by (simp add: key)
  moreover have "\<forall>r \<in> set (db_items dbm). it_shard r = RowShard (it_player_id r)"
    using Cons.prems(3) unfolding M by (auto simp: mark_delivered_def)
  moreover have "set rows \<subseteq> set (db_items dbm)" using Cons.prems(4) row(3) unfolding M by force
  ultimately have "db_items db' = map (\<lambda>r. if r \<in> set rows then mark_delivered e now r else r) (db_items dbm)"
    using Cons.IH [OF rest] Cons.prems(2,5,6) by simp
  then show ?case unfolding M using row(3) fresh by auto
qed simp

end
