(* ===== verification/InboxDelivery.thy ===== *)
theory InboxDelivery
  imports InboxTheorems
begin

text \<open>
  What reaches the scene server: the page a fetch delivers, the soundness of a forced void across the
  two programs, and the consumer's own guarantee that it executes nothing twice; then the typing
  guarantee of the registry and the agreement of the two ledger checks.
\<close>

section \<open>Delivery\<close>

lemma fetch_page_take:
  "fetch_page req db = (let n = clampFetchItems (fq_max_items req) FetchDefaultItems FetchMaxItems;
     rows = sort_key it_seq (filter (pending_of (fq_player_id req) (fq_domain req)) (db_items db)) in
     (take n rows, n < length rows))"
  unfolding fetch_page_def splitPage_def Let_def by (auto simp: min_def)

lemma pending_sorted_strict:
  assumes I: "inbox_inv db"
  shows "sorted_wrt (<) (map it_seq (sort_key it_seq (filter (pending_of pl d) (db_items db))))"
proof -
  have "inj_on it_seq (set (filter (pending_of pl d) (db_items db)))"
  proof (rule inj_onI)
    fix x y
    assume "x \<in> set (filter (pending_of pl d) (db_items db))" "y \<in> set (filter (pending_of pl d) (db_items db))" "it_seq x = it_seq y"
    then show "x = y" using item_unique [OF I, of x y] unfolding item_key_def pending_of_def by auto
  qed
  moreover have "distinct (filter (pending_of pl d) (db_items db))"
    using I unfolding inbox_inv_def distinct_map by simp
  ultimately show ?thesis by (simp add: strict_sorted_iff distinct_map)
qed

text \<open>
  Property C17.  A served fetch delivers the oldest pending rows of its stream, at most sixteen, in strictly
  ascending order of their sequence numbers, says exactly when there are more, and in the same
  transaction counts the delivery on exactly those rows and changes no other row.
\<close>

theorem fetch_delivers_oldest:
  assumes "tries_ok s tries" and "empty_inbox db0" and "(inbox_step s)\<^sup>*\<^sup>* db0 db"
    and "fq_consumer_decided_through req < 2 ^ 63"
    and "Fetch s tries req db = (Inr resp, db')" and "FenceAllows (fs_fence resp)"
  shows "\<exists>dbx n rows now. (inbox_step s)\<^sup>*\<^sup>* db dbx \<and>
    n = clampFetchItems (fq_max_items req) FetchDefaultItems FetchMaxItems \<and> 0 < n \<and> n \<le> 16 \<and>
    rows = sort_key it_seq (filter (pending_of (fq_player_id req) (fq_domain req)) (db_items dbx)) \<and>
    fs_items resp = map deliveredItem (take n rows) \<and> fs_has_more resp = (n < length rows) \<and>
    sorted_wrt (<) (map pi_seq (fs_items resp)) \<and>
    db_items db' = map (\<lambda>r. if r \<in> set (take n rows) then mark_delivered (fq_owner_epoch req) now r else r) (db_items dbx)"
proof -
  let ?n = "clampFetchItems (fq_max_items req) FetchDefaultItems FetchMaxItems"
  have I: "inbox_inv db" by (rule ib.inv_reachable [OF assms(2,3)])
  obtain i dbx original where S: "(inbox_step s)\<^sup>*\<^sup>* db dbx"
    and F: "fetch_tx req (tries i) original dbx = Inr ((fs_fence resp, fs_items resp, fs_has_more resp), db')"
    using assms(1,4,5,6) by (rule Fetch_committed)
  have Ix: "inbox_inv dbx" by (rule inbox_inv_steps [OF S I])
  let ?rows = "sort_key it_seq (filter (pending_of (fq_player_id req) (fq_domain req)) (db_items dbx))"
  let ?now = "nowMs (tt_now (tries i) 0)" and ?e = "fq_owner_epoch req"
  obtain st where "fetch_serve req (tries i) original (fs_fence resp) st dbx = Inr ((fs_fence resp, fs_items resp, fs_has_more resp), db')"
    using F by (cases rule: fetch_tx_D) (use assms(6) in auto)
  then obtain db1 where more: "fs_has_more resp = snd (fetch_page req dbx)"
    and D: "deliver_rows original ?e ?now (fst (fetch_page req dbx)) dbx = Inr (fs_items resp, db1)"
    and U: "if FenceWrites (fs_fence resp) \<or> snd (RaiseNextSeq (ps_next_seq st) (fq_consumer_decided_through req))
         then update_stream (RowShard (fq_player_id req)) (fq_player_id req) (fq_domain req)
           (\<lambda>s. s \<lparr>ps_fence_epoch := (if FenceWrites (fs_fence resp) then fq_owner_epoch req else ps_fence_epoch st),
                  ps_next_seq := fst (RaiseNextSeq (ps_next_seq st) (fq_consumer_decided_through req)),
                  ps_updated_ms := ?now\<rparr>) db1 = Inr db'
         else db' = db1"
    by (rule fetch_serve_D)
  have page: "fst (fetch_page req dbx) = take ?n ?rows" "snd (fetch_page req dbx) = (?n < length ?rows)"
    unfolding fetch_page_take by (simp_all add: Let_def)
  have same: "db_items db' = db_items db1"
    using U by (cases "FenceWrites (fs_fence resp) \<or> snd (RaiseNextSeq (ps_next_seq st) (fq_consumer_decided_through req))")
      (auto dest: update_stream_D)
  have items: "fs_items resp = map deliveredItem (take ?n ?rows)" using deliver_rows_items [OF D] unfolding page .
  note strict = pending_sorted_strict [OF Ix, of "fq_player_id req" "fq_domain req"]
  have "map pi_seq (fs_items resp) = take ?n (map it_seq ?rows)"
    unfolding items by (simp add: deliveredItem_def take_map)
  then have sorted: "sorted_wrt (<) (map pi_seq (fs_items resp))" using strict sorted_wrt_take by metis
  have "db_items db1 = map (\<lambda>r. if r \<in> set (take ?n ?rows) then mark_delivered ?e ?now r else r) (db_items dbx)"
  proof (rule deliver_rows_marks [OF D [unfolded page(1)]])
    show "distinct (map item_key (db_items dbx))" and "\<forall>r \<in> set (db_items dbx). it_shard r = RowShard (it_player_id r)"
      using Ix unfolding inbox_inv_def row_ok_def by blast+
    show "set (take ?n ?rows) \<subseteq> set (db_items dbx)" and "\<forall>r \<in> set (take ?n ?rows). it_state r = ITEM_PENDING"
      by (auto dest!: in_set_takeD simp: pending_of_def)
    have "distinct (map it_seq ?rows)" using strict by (simp add: strict_sorted_iff)
    then show "distinct (take ?n ?rows)" unfolding distinct_map by (blast intro: distinct_take)
  qed
  moreover have "0 < ?n \<and> ?n \<le> 16"
    using clampFetchItems_range [of FetchDefaultItems FetchMaxItems "fq_max_items req"]
    unfolding FetchDefaultItems_def FetchMaxItems_def by simp
  ultimately show ?thesis using S items more page(2) sorted same by auto
qed

theorem fetch_delivers_oldest_witness:
  "\<exists>dbx n rows now. (inbox_step demo_store)\<^sup>*\<^sup>* demo_db1 dbx \<and> 0 < n \<and> n \<le> 16 \<and>
     rows = sort_key it_seq (filter (pending_of 7 1) (db_items dbx)) \<and>
     [demo_item 4100096 11] = map deliveredItem (take n rows) \<and> \<not> n < length rows \<and>
     db_items demo_db2 = map (\<lambda>r. if r \<in> set (take n rows) then mark_delivered 5 now r else r) (db_items dbx)"
proof -
  have w: "fq_consumer_decided_through (demo_fetch 0x31 5) < 2 ^ 63" unfolding demo_fetch_def by simp
  have q: "fq_player_id (demo_fetch 0x31 5) = 7" "fq_domain (demo_fetch 0x31 5) = 1" "fq_owner_epoch (demo_fetch 0x31 5) = 5"
    unfolding demo_fetch_def DOMAIN_SCENE_GM_SANCTION_def by simp_all
  have A: "FenceAllows (fs_fence \<lparr>fs_error = None, fs_fence = FENCE_FIRST, fs_items = [demo_item 4100096 11], fs_has_more = False\<rparr>)"
    by (simp)
  note T = fetch_delivers_oldest [OF demo_tries_ok demo_empty demo_run1 w demo_fetch1 A]
  obtain dbx n rows now where f: "(inbox_step demo_store)\<^sup>*\<^sup>* demo_db1 dbx" "0 < n" "n \<le> 16"
      "rows = sort_key it_seq (filter (pending_of 7 1) (db_items dbx))" "[demo_item 4100096 11] = map deliveredItem (take n rows)"
      "False = (n < length rows)"
      "db_items demo_db2 = map (\<lambda>r. if r \<in> set (take n rows) then mark_delivered 5 now r else r) (db_items dbx)"
    using T unfolding q FetchPlayerInboxResponse.simps by (elim exE conjE) (rule that)
  have more: "\<not> n < length rows" using f(6) by blast
  show ?thesis
    by (rule exI [of _ dbx], rule exI [of _ n], rule exI [of _ rows], rule exI [of _ now]) (intro conjI f(1-5,7) more)
qed

section \<open>Forced voids\<close>

lemma Void_forced:
  assumes V: "Void s tries p (Some (Inr ledger)) db = (Inr resp, db')" and ok: "tries_ok s tries"
    and M: "vp_mode p = VOID_MODE_FORCE_MISMATCH" and E: "vr_error resp = None"
  obtains i dbx original pv state where "(inbox_step s)\<^sup>*\<^sup>* db dbx"
    "force_void_tx p ledger (tries i) original dbx = Inr ((voidForced, pv, state), db')"
proof -
  have B: "vp_domain p \<noteq> DOMAIN_SCENE_BATTLE_SETTLEMENT"
    using V E unfolding Void_def void_reject_def by auto
  obtain r1 db1 where W: "withPlayerTx tries (vp_player_id p) (force_void_tx p ledger) db = (r1, db1)" by fastforce
  have "forceVoid tries p (Some (Inr ledger)) db = (Inr resp, db')"
    using V E M B unfolding Void_def void_reject_def by (auto split: if_splits option.splits)
  then obtain action pv state where r1: "r1 = Inr (action, pv, state)" "db' = db1" "vo_tip (voidOutcomeOf action state) = None"
    using W E unfolding forceVoid_def void_reject_def by (auto simp: Let_def split: option.splits sum.splits)
  obtain i dbx where S: "(inbox_step s)\<^sup>*\<^sup>* db dbx"
    and T: "with_player (vp_player_id p) (force_void_tx p ledger) (tries i) dbx = Inr ((action, pv, state), db1)"
    using withPlayerTx_steps(2) [OF W ok, of "(action, pv, state)"] step_force_void [OF B] r1(1) by metis
  obtain original where X: "force_void_tx p ledger (tries i) original dbx = Inr ((action, pv, state), db1)" using T by (rule with_player_D)
  have "action = voidForced"
  proof -
    have "action \<in> {voidNotFound, voidTerminal, voidForceRefused, voidForced}"
      using X unfolding force_void_tx_def decideForceVoidLocked_def
      by (auto simp: sum_bind_Inr Let_def split: option.splits if_splits)
    then show ?thesis using r1(3) unfolding voidOutcomeOf_def by auto
  qed
  then show ?thesis using that S X r1(2) by blast
qed

lemma readItem_D:
  assumes "readItem db (RowShard pl) pl d seq = Inr (Some r)"
  shows "r \<in> set (db_items db)" and "item_key r = (pl, d, seq)"
proof -
  have "List.find (itemPK (RowShard pl) pl d seq) (db_items db) = Some r"
    using assms unfolding readItem_def scanItem_def by (auto simp: sum_bind_Inr split: option.splits)
  then have "r \<in> set (db_items db) \<and> itemPK (RowShard pl) pl d seq r" by (rule find_mem)
  then show "r \<in> set (db_items db)" and "item_key r = (pl, d, seq)" unfolding itemPK_def item_key_def by simp_all
qed

lemma void_and_close_row:
  assumes "void_and_close p cond st now db = Inr db'" and "inbox_inv db" and "r \<in> set (db_items db)"
    and "item_key r = (vp_player_id p, vp_domain p, vp_seq p)" and "cond r"
  shows "void_row (vp_reason p) now r \<in> set (db_items db')"
proof -
  let ?pl = "vp_player_id p" and ?d = "vp_domain p"
  obtain db1 where U: "update_item (RowShard ?pl) ?pl ?d (vp_seq p) cond (void_row (vp_reason p) now) db = Inr db1"
    and S: "update_stream (RowShard ?pl) ?pl ?d
       (\<lambda>s. s \<lparr>ps_open_count := fst (subtractOpenCount (ps_open_count st) 1), ps_updated_ms := now\<rparr>) db1 = Inr db'"
    using assms(1) unfolding void_and_close_def sum_bind_Inr by blast
  have "it_shard r = RowShard ?pl" using assms(2-4) unfolding inbox_inv_def row_ok_def item_key_def by auto
  then have "itemPK (RowShard ?pl) ?pl ?d (vp_seq p) r" using assms(4) unfolding itemPK_def item_key_def by simp
  then have "void_row (vp_reason p) now r \<in> set (db_items db1)"
    using assms(3,5) unfolding update_item_D(1) [OF U] by (auto intro!: image_eqI [of _ _ r])
  then show ?thesis unfolding update_stream_D [OF S] by simp
qed

text \<open>
  Property C4.  A forced void never takes back something that happened.  When the operator's forced void
  succeeds on the evidence of the persisted ledger, then the row is void, and the consumer that wrote
  that ledger has not decided this request under this sequence number and, whatever batches it still
  receives, never executes an item with this sequence number again.
\<close>

theorem forced_void_never_executed:
  assumes "tries_ok s tries" and "empty_inbox db0" and "(inbox_step s)\<^sup>*\<^sup>* db0 db"
    and "vp_mode p = VOID_MODE_FORCE_MISMATCH"
    and "Void s tries p (Some (Inr (Some ledger))) db = (Inr resp, db')" and "vr_error resp = None"
    and "cursor_holds hist (FindCursor ledger (vp_domain p))"
    and "cursor_holds (hist @ later) (FindCursor (ap_ledger st) (vp_domain p))"
    and "\<forall>b \<in> set bs. \<forall>i \<in> set (snd b). pi_seq i \<noteq> 0"
    and "run_batches (vp_domain p) bs st = (acks, st')"
  shows "\<exists>r \<in> set (db_items db'). item_key r = (vp_player_id p, vp_domain p, vp_seq p) \<and>
      it_state r = ITEM_VOIDED \<and> it_finalized_by r = FINALIZER_ADMIN \<and>
      (\<forall>d \<in> set (hist @ later). de_seq d = vp_seq p \<longrightarrow> de_request_id d \<noteq> it_request_id r) \<and>
      (\<exists>effs. ap_effects st' = ap_effects st @ effs \<and> vp_seq p \<notin> pi_seq ` set effs)"
proof -
  have I: "inbox_inv db" by (rule ib.inv_reachable [OF assms(2,3)])
  obtain i dbx original pv state where S: "(inbox_step s)\<^sup>*\<^sup>* db dbx"
    and X: "force_void_tx p (Some ledger) (tries i) original dbx = Inr ((voidForced, pv, state), db')"
    using assms(5,1,4,6) by (rule Void_forced)
  have Ix: "inbox_inv dbx" by (rule inbox_inv_steps [OF S I])
  from X show ?thesis
  proof (cases rule: force_void_tx_D)
    case (forced stm r db1)
    note r = readItem_D [OF forced(2)]
    have P: "it_state r = ITEM_PENDING" "fp_verdict (proveNeverExecuted r (Some ledger)) = FORCE_VOID_PROVEN"
      using forced(4) unfolding decideForceVoidLocked_def by (auto simp: Let_def split: if_splits)
    have rd: "it_domain r = vp_domain p" "it_seq r = vp_seq p" using r(2) unfolding item_key_def by simp_all
    have H: "cursor_holds hist (findCursor ledger (it_domain r))"
      using assms(7) rd unfolding findCursor_def FindCursor_def by simp
    note never = proven_never_executed [OF P(2) H]
    obtain dec where dec: "dec \<in> set hist" "de_seq dec = vp_seq p" "de_request_id dec \<noteq> it_request_id r"
      using never(1) rd by auto
    have hist: "\<forall>d \<in> set (hist @ later). de_seq d = vp_seq p \<longrightarrow> de_request_id d \<noteq> it_request_id r"
    proof (intro ballI impI)
      fix d assume d: "d \<in> set (hist @ later)" "de_seq d = vp_seq p"
      have "d = dec" by (rule cursor_holds_seq_inj [OF assms(8) d(1)]) (use dec d in simp_all)
      then show "de_request_id d \<noteq> it_request_id r" using dec(3) by simp
    qed
    obtain news effs where run: "cursor_holds ((hist @ later) @ news) (FindCursor (ap_ledger st') (vp_domain p))"
        "ap_effects st' = ap_effects st @ effs" "map pi_seq effs = map de_seq (filter is_applied news)"
      using run_batches_history [OF assms(8,9,10)] by blast
    have "vp_seq p \<notin> de_seq ` set news"
    proof
      assume "vp_seq p \<in> de_seq ` set news"
      moreover have "sorted_wrt (<) (map de_seq ((hist @ later) @ news))" using run(1) unfolding cursor_holds_def by blast
      then have "\<forall>x \<in> set hist. \<forall>y \<in> set news. de_seq x < de_seq y" by (auto simp: sorted_wrt_append)
      ultimately show False using dec(1,2) by force
    qed
    moreover have "pi_seq ` set effs \<subseteq> de_seq ` set news"
      using arg_cong [OF run(3), of set] by auto
    ultimately have eff: "vp_seq p \<notin> pi_seq ` set effs" by blast
    let ?r' = "void_row (vp_reason p) (nowMs (tt_now (tries i) 0)) r"
    have "?r' \<in> set (db_items db1)"
      by (rule void_and_close_row [OF forced(6) Ix r]) (use P(1) never(3) in \<open>simp add: word_gt_0\<close>)
    then have "?r' \<in> set (db_items db')" using insertAuditForItem_same [OF forced(7)] by simp
    moreover have "item_key ?r' = (vp_player_id p, vp_domain p, vp_seq p)" "it_state ?r' = ITEM_VOIDED"
        "it_finalized_by ?r' = FINALIZER_ADMIN" "it_request_id ?r' = it_request_id r"
      using r(2) unfolding void_row_def item_key_def by simp_all
    ultimately show ?thesis using hist eff run(2) by (intro bexI [of _ ?r']) auto
  qed simp
qed

theorem forced_void_never_executed_witness:
  "\<exists>r \<in> set (db_items demo_db4). item_key r = (7, 1, 4100096) \<and> it_state r = ITEM_VOIDED \<and> it_finalized_by r = FINALIZER_ADMIN \<and>
     4100096 \<notin> pi_seq ` set (ap_effects (snd (run_batches 1
        [(\<lambda>_. Some kApplied, [demo_item 4100096 11]), (\<lambda>_. Some kApplied, [demo_item 4100201 12])]
        \<lparr>ap_ledger = demo_ledger, ap_ackQueue = [], ap_recorded = False, ap_effects = []\<rparr>)))"
proof -
  let ?st = "\<lparr>ap_ledger = demo_ledger, ap_ackQueue = [], ap_recorded = False, ap_effects = []\<rparr>"
  let ?bs = "[(\<lambda>_. Some kApplied, [demo_item 4100096 11]), (\<lambda>_. Some kApplied, [demo_item 4100201 12])]"
  have m: "vp_mode demo_void = VOID_MODE_FORCE_MISMATCH" and d: "vp_domain demo_void = 1" and p: "vp_player_id demo_void = 7"
    and s: "vp_seq demo_void = 4100096" unfolding demo_void_def by simp_all
  have l: "cursor_holds (demo_history @ []) (FindCursor (ap_ledger ?st) 1)" using demo_holds by simp
  have b: "\<forall>b \<in> set ?bs. \<forall>i \<in> set (snd b). pi_seq i \<noteq> 0" by (simp add: demo_item_def)
  show ?thesis
    using forced_void_never_executed [OF demo_tries_ok demo_empty demo_reach3 m demo_forced _ _ _ b prod.collapse [symmetric],
        where hist = demo_history and later = "[]" and st = ?st] l demo_holds
    unfolding d p s demo_db4_def by auto
qed

section \<open>The consumer\<close>

text \<open>
  Property C3.  The scene server executes every item at most once.  However batches repeat, overlap or
  arrive out of order, the items whose executor took effect have strictly increasing sequence numbers,
  an outcome reported APPLIED belongs to exactly one such effect, and two reports about one sequence
  number agree unless one of them says UNKNOWN.
\<close>

theorem consumer_applies_once:
  assumes "FindCursor (ap_ledger st) d = None" and "ap_effects st = []"
    and "\<forall>b \<in> set bs. \<forall>i \<in> set (snd b). pi_seq i \<noteq> 0" and "run_batches d bs st = (acks, st')"
  shows "sorted_wrt (<) (map pi_seq (ap_effects st')) \<and>
    (\<forall>a \<in> set (concat acks). de_outcome a = OUTCOME_APPLIED \<longrightarrow> (\<exists>!i. i \<in> set (ap_effects st') \<and> pi_seq i = de_seq a)) \<and>
    (\<forall>a \<in> set (concat acks). \<forall>b \<in> set (concat acks). de_seq a = de_seq b \<longrightarrow>
       a = b \<or> de_outcome a = OUTCOME_UNKNOWN \<or> de_outcome b = OUTCOME_UNKNOWN)"
proof -
  have "cursor_holds [] (FindCursor (ap_ledger st) d)" unfolding assms(1) by simp
  then obtain news effs where H: "cursor_holds ([] @ news) (FindCursor (ap_ledger st') d)"
    and E: "ap_effects st' = ap_effects st @ effs" "map pi_seq effs = map de_seq (filter is_applied news)"
    and A: "\<forall>a \<in> set (concat acks). a \<in> set ([] @ news) \<or> de_outcome a = OUTCOME_UNKNOWN"
    using run_batches_history [OF _ assms(3,4)] by blast
  have eff: "map pi_seq (ap_effects st') = map de_seq (filter is_applied news)" using E assms(2) by simp
  have "sorted_wrt (<) (map de_seq news)" using H unfolding cursor_holds_def by simp
  then have sorted: "sorted_wrt (<) (map pi_seq (ap_effects st'))"
    unfolding eff sorted_wrt_map by (rule sorted_wrt_filter)
  have inj: "inj_on pi_seq (set (ap_effects st'))" using sorted by (simp add: strict_sorted_iff distinct_map)
  have one: "\<exists>!i. i \<in> set (ap_effects st') \<and> pi_seq i = de_seq a"
    if "a \<in> set (concat acks)" "de_outcome a = OUTCOME_APPLIED" for a
  proof -
    have "a \<in> set news" using bspec [OF A that(1)] that(2) by simp
    then have "a \<in> set (filter is_applied news)" using that(2) unfolding is_applied_def by simp
    then have "de_seq a \<in> set (map pi_seq (ap_effects st'))" unfolding eff by simp
    then obtain i where "i \<in> set (ap_effects st')" "pi_seq i = de_seq a" by auto
    then show ?thesis using inj_onD [OF inj] by metis
  qed
  have agree: "a = b \<or> de_outcome a = OUTCOME_UNKNOWN \<or> de_outcome b = OUTCOME_UNKNOWN"
    if "a \<in> set (concat acks)" "b \<in> set (concat acks)" "de_seq a = de_seq b" for a b
    using A that cursor_holds_seq_inj [OF H] by blast
  show ?thesis using sorted one agree by blast
qed

theorem consumer_applies_once_witness:
  "sorted_wrt (<) (map pi_seq (ap_effects (snd (run_batches 1
      [(\<lambda>_. Some kApplied, [demo_item 5 1, demo_item 6 2]), (\<lambda>_. Some kApplied, [demo_item 5 1, demo_item 6 2, demo_item 8 3])]
      \<lparr>ap_ledger = [], ap_ackQueue = [], ap_recorded = False, ap_effects = []\<rparr>)))) \<and>
   map pi_seq (ap_effects (snd (run_batches 1
      [(\<lambda>_. Some kApplied, [demo_item 5 1, demo_item 6 2]), (\<lambda>_. Some kApplied, [demo_item 5 1, demo_item 6 2, demo_item 8 3])]
      \<lparr>ap_ledger = [], ap_ackQueue = [], ap_recorded = False, ap_effects = []\<rparr>))) = [5, 6, 8]"
proof -
  let ?bs = "[(\<lambda>_. Some kApplied, [demo_item 5 1, demo_item 6 2]), (\<lambda>_. Some kApplied, [demo_item 5 1, demo_item 6 2, demo_item 8 3])]"
  let ?st = "\<lparr>ap_ledger = [], ap_ackQueue = [], ap_recorded = False, ap_effects = []\<rparr>"
  have "map pi_seq (ap_effects (snd (run_batches 1 ?bs ?st))) = [5, 6, 8]" by code_simp
  then show ?thesis
    using consumer_applies_once [of ?st 1 ?bs, OF _ _ _ prod.collapse [symmetric]] by (simp add: FindCursor_def demo_item_def)
qed

text \<open>
  Property C39.  The ledger check of the Go service and the one of the C++ scene server accept the same
  ledgers, except that the service also wants every recorded request id to be nonzero.
\<close>

theorem ledger_checks_agree:
  "validLedger l \<longleftrightarrow> ValidateLedger l \<and> list_all (\<lambda>c. list_all (\<lambda>d. de_request_id d \<noteq> 0) (cu_recent c)) l"
  unfolding validLedger_iff list_all_iff ..

text \<open>
  Property C40.  A registry that starts is well typed: every payload it lets through has a registered
  durable type that the caller may use, belongs to a registered domain with room for at least one item,
  decodes without unknown fields to a message its validator accepts, and is at most 16 KiB long.
\<close>

theorem accepted_payload_is_typed:
  assumes "newRegistry domains types rules resolves = Inr r" and "ValidatePayload dec r t allowed payload = Inr e"
  shows "Registry_Type r t = Some e \<and> te_type e = t \<and> ty_klass (te_spec e) = CLASS_DURABLE \<and> t \<in> set allowed \<and>
    (\<exists>sp. Registry_Domain r (ty_domain (te_spec e)) = Some sp \<and> 0 < ds_max_pending sp) \<and>
    (\<exists>m. dec (te_payload e) payload = Some (m, []) \<and> te_validate e m) \<and> length payload \<le> 16384"
proof -
  note V = ValidatePayload_ok [OF assms(2)] and D = accepted_type_has_domain [OF assms]
  have "te_type e = t \<and> ty_klass (te_spec e) = CLASS_DURABLE"
    using newRegistry_ok(1) [OF assms(1)] V(1) unfolding entry_ok_def by blast
  moreover have "\<exists>m. dec (te_payload e) payload = Some (m, []) \<and> te_validate e m"
    using V(3) unfolding Decode_def by (auto split: option.splits prod.splits if_splits)
  ultimately show ?thesis using V(1,2) D by blast
qed

theorem accepted_payload_is_typed_witness:
  "Registry_Type production_registry MSG_GM_BLOCK_CURRENCY_GAIN = Some demo_entry \<and>
   te_type demo_entry = MSG_GM_BLOCK_CURRENCY_GAIN \<and>
   (\<exists>sp. Registry_Domain production_registry (ty_domain (te_spec demo_entry)) = Some sp \<and> 0 < ds_max_pending sp)"
proof -
  have n: "newRegistry PlayerInboxDomain_values PlayerInboxMessageType_values payloadRules (\<lambda>_. True) = Inr production_registry"
    using production_registry_starts unfolding NewRegistry_def .
  let ?v = "ValidatePayload (so_decoder demo_store) production_registry MSG_GM_BLOCK_CURRENCY_GAIN [MSG_GM_BLOCK_CURRENCY_GAIN] [8, 1]"
  have "\<not> isl ?v" by code_simp
  then obtain e where v: "?v = Inr e" by (cases ?v) auto
  show ?thesis using accepted_payload_is_typed [OF n v] demo_entry_is by auto
qed

end
